(* ===== verification/Bridge_Prelude.thy ===== *)
theory Bridge_Prelude
  imports Main "HOL-Library.Word" "HOL-Library.Sublist"
begin

text \<open>
  What every theory of the development shares: the machine types of the Rust code, results
  as sums (\<open>Inl\<close> is \<open>Err\<close>, \<open>Inr\<close> is \<open>Ok\<close>), the combinators of \<open>Result\<close> the source uses,
  and generic lemmas on lists, maps and sums. Byte strings are lists of \<open>u8\<close>; a Rust
  \<open>usize\<close> that only counts or indexes is a \<open>nat\<close>, with its bounds written out where the code's
  arithmetic could leave them.
\<close>

type_synonym u8 = "8 word"
type_synonym u16 = "16 word"
type_synonym u64 = "64 word"
type_synonym bytes = "u8 list"
type_synonym headers = "(string \<times> bytes) list"

named_theorems result_simps \<open>equations of the Result combinators\<close>
named_theorems list_facts \<open>facts on windows, slices and ranges\<close>

subsection \<open>usize and isize on the supported 64-bit targets\<close>

definition usize_max :: nat where
  "usize_max = 2 ^ 64 - 1"

definition isize_max :: nat where
  "isize_max = 2 ^ 63 - 1"

definition saturating_add :: "nat \<Rightarrow> nat \<Rightarrow> nat" where
  "saturating_add a b = min (a + b) usize_max"

text \<open>An addition on \<open>usize\<close>: \<open>None\<close> is the overflow.\<close>

definition usize_add :: "nat \<Rightarrow> nat \<Rightarrow> nat option" where
  "usize_add a b = (if a + b \<le> usize_max then Some (a + b) else None)"

text \<open>A subtraction on \<open>usize\<close>: \<open>None\<close> is the underflow.\<close>

definition usize_sub :: "nat \<Rightarrow> nat \<Rightarrow> nat option" where
  "usize_sub a b = (if b \<le> a then Some (a - b) else None)"

text \<open>\<open>u64::checked_add\<close>.\<close>

definition u64_checked_add :: "u64 \<Rightarrow> u64 \<Rightarrow> u64 option" where
  "u64_checked_add a b = (if unat a + unat b < 2 ^ 64 then Some (a + b) else None)"

lemma unat_u64_lt: "unat (w :: u64) < 2 ^ 64"
  using unsigned_less [of w] by simp

lemma u64_checked_add_Some_iff:
  "u64_checked_add a b = Some c \<longleftrightarrow> unat a + unat b < 2 ^ 64 \<and> unat c = unat a + unat b"
proof -
  have "unat a + unat b < 2 ^ 64 \<Longrightarrow> unat (a + b) = unat a + unat b"
    using unat_add_lem [of a b] by simp
  then show ?thesis
    unfolding u64_checked_add_def
    by (auto simp: word_unat_eq_iff)
qed

lemma u64_checked_add_None_iff: "u64_checked_add a b = None \<longleftrightarrow> 2 ^ 64 \<le> unat a + unat b"
  by (auto simp: u64_checked_add_def)

subsection \<open>Results\<close>

fun and_then :: "'e + 'a \<Rightarrow> ('a \<Rightarrow> 'e + 'b) \<Rightarrow> 'e + 'b" where
  "and_then (Inl e) f = Inl e"
| "and_then (Inr x) f = f x"

fun map_err :: "('e \<Rightarrow> 'f) \<Rightarrow> 'e + 'a \<Rightarrow> 'f + 'a" where
  "map_err f (Inl e) = Inl (f e)"
| "map_err f (Inr x) = Inr x"

fun ok_or :: "'e \<Rightarrow> 'a option \<Rightarrow> 'e + 'a" where
  "ok_or e None = Inl e"
| "ok_or e (Some x) = Inr x"

text \<open>\<open>.collect::<Result<Vec<_>, _>>()\<close>: the values in order, or the first error.\<close>

fun collect_results :: "('e + 'a) list \<Rightarrow> 'e + 'a list" where
  "collect_results [] = Inr []"
| "collect_results (r # rs) =
     (case r of Inl e \<Rightarrow> Inl e
      | Inr x \<Rightarrow> (case collect_results rs of Inl e \<Rightarrow> Inl e | Inr xs \<Rightarrow> Inr (x # xs)))"

lemma and_then_Inr_iff [result_simps]:
  "and_then r f = Inr y \<longleftrightarrow> (\<exists>x. r = Inr x \<and> f x = Inr y)"
  by (cases r) auto

lemma and_then_Inl_iff [result_simps]:
  "and_then r f = Inl e \<longleftrightarrow> r = Inl e \<or> (\<exists>x. r = Inr x \<and> f x = Inl e)"
  by (cases r) auto

lemma map_err_Inr_iff [result_simps]: "map_err f r = Inr x \<longleftrightarrow> r = Inr x"
  by (cases r) auto

lemma map_err_Inl_iff [result_simps]: "map_err f r = Inl e \<longleftrightarrow> (\<exists>d. r = Inl d \<and> e = f d)"
  by (cases r) auto

lemma ok_or_Inr_iff [result_simps]: "ok_or e m = Inr x \<longleftrightarrow> m = Some x"
  by (cases m) auto

lemma ok_or_Inl_iff [result_simps]: "ok_or e m = Inl d \<longleftrightarrow> m = None \<and> d = e"
  by (cases m) auto

lemma collect_results_Inr_iff [result_simps]:
  "collect_results rs = Inr xs \<longleftrightarrow> rs = map Inr xs"
proof (induction rs arbitrary: xs)
  case Nil
  then show ?case by auto
next
  case (Cons r rs)
  show ?case
    by (cases r; cases "collect_results rs"; cases xs) (auto simp: Cons.IH [symmetric])
qed

lemma collect_results_Inl: "collect_results rs = Inl e \<Longrightarrow> Inl e \<in> set rs"
  by (induction rs) (auto split: sum.splits)

subsection \<open>Lists as slices\<close>

definition starts_with :: "'a list \<Rightarrow> 'a list \<Rightarrow> bool" where
  "starts_with pat xs \<longleftrightarrow> take (length pat) xs = pat"

text \<open>
  \<open>xs.windows(pat.len()).position(|w| w == pat)\<close>: the first index at which \<open>pat\<close> occurs.
\<close>

fun position_window :: "'a list \<Rightarrow> 'a list \<Rightarrow> nat option" where
  "position_window pat [] = (if pat = [] then Some 0 else None)"
| "position_window pat (x # xs) =
     (if starts_with pat (x # xs) then Some 0 else map_option Suc (position_window pat xs))"

definition window_exists :: "'a list \<Rightarrow> 'a list \<Rightarrow> bool" where
  "window_exists pat xs \<longleftrightarrow> position_window pat xs \<noteq> None"

text \<open>\<open>&xs[n..]\<close>: \<open>None\<close> is the out-of-range panic.\<close>

definition slice_from :: "nat \<Rightarrow> 'a list \<Rightarrow> 'a list option" where
  "slice_from n xs = (if n \<le> length xs then Some (drop n xs) else None)"

text \<open>\<open>xs.get(lo..hi)\<close>.\<close>

definition get_range :: "nat \<Rightarrow> nat \<Rightarrow> 'a list \<Rightarrow> 'a list option" where
  "get_range lo hi xs =
     (if lo \<le> hi \<and> hi \<le> length xs then Some (take (hi - lo) (drop lo xs)) else None)"

lemma starts_with_iff_prefix: "starts_with pat xs \<longleftrightarrow> prefix pat xs"
proof
  assume "starts_with pat xs"
  then have "take (length pat) xs = pat"
    by (simp add: starts_with_def)
  then show "prefix pat xs"
    by (metis take_is_prefix)
next
  assume "prefix pat xs"
  then show "starts_with pat xs"
    by (auto simp: starts_with_def prefix_def)
qed

lemma starts_with_append [simp]: "starts_with pat (pat @ xs)"
  by (simp add: starts_with_def)

lemma position_window_Some [list_facts]:
  "position_window pat xs = Some i \<Longrightarrow>
     i + length pat \<le> length xs \<and> take (length pat) (drop i xs) = pat"
proof (induction xs arbitrary: i)
  case Nil
  then show ?case by (auto split: if_splits)
next
  case (Cons x xs)
  show ?case
  proof (cases "starts_with pat (x # xs)")
    case True
    with Cons.prems have "i = 0" and "take (length pat) (x # xs) = pat"
      by (simp_all add: starts_with_def)
    then show ?thesis
      by (metis add_0 drop_0 length_take min.cobounded1)
  next
    case False
    with Cons.prems obtain j where "position_window pat xs = Some j" and "i = Suc j"
      by auto
    with Cons.IH [of j] show ?thesis by simp
  qed
qed

lemma position_window_split:
  assumes "position_window pat xs = Some i"
  shows "xs = take i xs @ pat @ drop (i + length pat) xs"
proof -
  have "drop i xs = take (length pat) (drop i xs) @ drop (length pat) (drop i xs)"
    by (simp only: append_take_drop_id)
  with position_window_Some [OF assms] have "drop i xs = pat @ drop (i + length pat) xs"
    by (metis drop_drop add.commute)
  then show ?thesis
    by (metis append_take_drop_id)
qed

text \<open>An occurrence found in a prefix is the one found in every extension of it.\<close>

lemma position_window_append [list_facts]:
  "position_window pat xs = Some i \<Longrightarrow> position_window pat (xs @ ys) = Some i"
proof (induction xs arbitrary: i)
  case Nil
  then show ?case by (cases ys) (auto simp: starts_with_def split: if_splits)
next
  case (Cons x xs)
  show ?case
  proof (cases "starts_with pat (x # xs)")
    case True
    with Cons.prems show ?thesis
      by (auto simp: starts_with_iff_prefix)
         (metis append_Cons prefix_append)
  next
    case False
    with Cons.prems obtain j where j: "position_window pat xs = Some j" and i: "i = Suc j"
      by auto
    have "\<not> starts_with pat (x # xs @ ys)"
    proof
      assume "starts_with pat (x # xs @ ys)"
      then have "take (length pat) (x # xs @ ys) = pat"
        by (simp add: starts_with_def)
      moreover have "length pat \<le> length (x # xs)"
        using position_window_Some [OF j] by simp
      ultimately have "take (length pat) (x # xs) = pat"
        by (metis append_Cons take_append diff_is_0_eq take_0 append_Nil2)
      with False show False
        by (simp add: starts_with_def)
    qed
    with Cons.IH [OF j] i show ?thesis by simp
  qed
qed

lemma position_window_infix: "position_window pat (xs @ pat @ ys) \<noteq> None"
proof (induction xs)
  case Nil
  then show ?case
    using starts_with_append [of pat ys] by (cases "pat @ ys") simp_all
next
  case (Cons x xs)
  then show ?case by simp
qed

lemma window_exists_iff: "window_exists pat xs \<longleftrightarrow> (\<exists>us vs. xs = us @ pat @ vs)"
  by (metis position_window_infix position_window_split window_exists_def not_None_eq)

lemma window_exists_append: "window_exists pat xs \<Longrightarrow> window_exists pat (xs @ ys)"
  by (auto simp: window_exists_def dest: position_window_append)

lemma get_range_Some_iff [list_facts]:
  "get_range lo hi xs = Some ys \<longleftrightarrow> lo \<le> hi \<and> hi \<le> length xs \<and> ys = take (hi - lo) (drop lo xs)"
  by (auto simp: get_range_def)

lemma slice_from_Some_iff [list_facts]:
  "slice_from n xs = Some ys \<longleftrightarrow> n \<le> length xs \<and> ys = drop n xs"
  by (auto simp: slice_from_def)

lemma saturating_add_bounds:
  "saturating_add a b \<le> usize_max" "saturating_add a b \<le> a + b"
  by (simp_all add: saturating_add_def)

subsection \<open>ASCII literals as bytes\<close>

definition byte_of :: "char \<Rightarrow> u8" where
  "byte_of c = of_char c"

abbreviation ascii :: "string \<Rightarrow> bytes" where
  "ascii s \<equiv> map byte_of s"

end
