(* ===== verification/Bridge_Errors.thy ===== *)
theory Bridge_Errors
  imports Bridge_Prelude
begin

text \<open>
  Errors of the bridge (\<open>rust/src/lib.rs\<close>, lines 27 to 184): the error value that crosses the
  ABI and the classification of the SDK's errors into its \<open>kind\<close>. A \<open>dyn std::error::Error\<close> is a
  node with its \<open>Display\<close> text, its concrete type as far as the code downcasts to it, and its
  \<open>source()\<close>; a chain of sources is finite because each node owns the next.
\<close>

subsection \<open>BridgeError\<close>

text \<open>\<open>serde_json::Value\<close>.\<close>

datatype json =
    JNull
  | JBool bool
  | JNumber int
  | JString string
  | JArray "json list"
  | JObject "(string \<times> json) list"

record bridge_error =
  err_kind :: string
  err_message :: string
  err_details :: "json option"

definition bridge_error_new :: "string \<Rightarrow> string \<Rightarrow> bridge_error" where
  "bridge_error_new kind message =
     \<lparr>err_kind = kind, err_message = message, err_details = None\<rparr>"

definition invalid :: "string \<Rightarrow> bridge_error" where
  "invalid message = bridge_error_new ''invalid_input'' message"

definition with_details :: "bridge_error \<Rightarrow> json \<Rightarrow> bridge_error" where
  "with_details e details = e\<lparr>err_details := Some details\<rparr>"

lemma bridge_error_new_sel [simp]:
  "err_kind (bridge_error_new k m) = k"
  "err_message (bridge_error_new k m) = m"
  "err_details (bridge_error_new k m) = None"
  by (simp_all add: bridge_error_new_def)

lemma invalid_sel [simp]:
  "err_kind (invalid m) = ''invalid_input''" "err_message (invalid m) = m"
  "err_details (invalid m) = None"
  by (simp_all add: invalid_def)

lemma with_details_sel [simp]:
  "err_kind (with_details e d) = err_kind e" "err_message (with_details e d) = err_message e"
  "err_details (with_details e d) = Some d"
  by (simp_all add: with_details_def)

subsection \<open>Error nodes and their chains\<close>

datatype io_error_kind =
    UnexpectedEof
  | BrokenPipe
  | ConnectionReset
  | ConnectionAborted
  | NotConnected
  | InvalidData
  | OtherIo

datatype tls_error = InvalidCertificate | AlertReceived | OtherTls

record ssl_error =
  library_code :: int
  reason_code :: int

datatype error_class =
    RustlsError tls_error
  | OpensslStack "ssl_error list"
  | IoError io_error_kind
  | HyperError (is_incomplete_message: bool)
  | OtherError

datatype std_error =
  StdError (err_display: string) (err_class: error_class) (err_source: "std_error option")

text \<open>The node and all its transitive sources, outermost first.\<close>

fun error_chain :: "std_error \<Rightarrow> std_error list" where
  "error_chain (StdError d c None) = [StdError d c None]"
| "error_chain (StdError d c (Some s)) = StdError d c (Some s) # error_chain s"

lemma error_chain_Cons:
  "error_chain e = e # (case err_source e of None \<Rightarrow> [] | Some s \<Rightarrow> error_chain s)"
  by (cases e rule: error_chain.cases) auto

lemma error_chain_not_Nil [simp]: "error_chain e \<noteq> []"
  by (simp add: error_chain_Cons)

subsection \<open>from_source\<close>

fun push_causes :: "string \<Rightarrow> std_error option \<Rightarrow> string" where
  "push_causes message None = message"
| "push_causes message (Some (StdError d c s)) = push_causes (message @ '': '' @ d) s"

definition from_source :: "string \<Rightarrow> std_error \<Rightarrow> bridge_error" where
  "from_source kind e = bridge_error_new kind (push_causes (err_display e) (err_source e))"

subsection \<open>Classification predicates\<close>

definition dns_labels :: "string list" where
  "dns_labels = [''dns error'', ''error resolving for socks proxy'']"

fun dns_scan :: "std_error option \<Rightarrow> bool" where
  "dns_scan None = False"
| "dns_scan (Some (StdError d c s)) =
     (if d \<in> set dns_labels \<and> s \<noteq> None then True else dns_scan s)"

text \<open>
  \<open>codex_http_client::HttpError\<close> through the accessors the code calls: \<open>is_timeout\<close>,
  \<open>is_builder\<close>, \<open>is_connect\<close>, the error itself as a \<open>std::error::Error\<close>, and \<open>without_url\<close>.
\<close>

record http_error =
  he_timeout :: bool
  he_builder :: bool
  he_connect :: bool
  he_error :: std_error
  he_without_url :: std_error

definition is_dns_error :: "http_error \<Rightarrow> bool" where
  "is_dns_error e = (if \<not> he_connect e then False else dns_scan (err_source (he_error e)))"

definition ssl_library :: int where "ssl_library = 20"
definition certificate_verify_failed :: int where "certificate_verify_failed = 134"
definition alert_reason_offset :: int where "alert_reason_offset = 1000"

text \<open>The scans return \<open>None\<close> where the Rust code returns \<open>false\<close> at once, else the flag
  \<open>recognized\<close>.\<close>

fun tls_check :: "error_class \<Rightarrow> bool \<Rightarrow> bool option" where
  "tls_check (RustlsError InvalidCertificate) recognized = None"
| "tls_check (RustlsError AlertReceived) recognized = Some True"
| "tls_check _ recognized = Some recognized"

fun stack_scan :: "ssl_error list \<Rightarrow> bool \<Rightarrow> bool option" where
  "stack_scan [] recognized = Some recognized"
| "stack_scan (x # xs) recognized =
     (if library_code x \<noteq> ssl_library then stack_scan xs recognized
      else if reason_code x = certificate_verify_failed then None
      else if alert_reason_offset \<le> reason_code x \<and> reason_code x \<le> alert_reason_offset + 255
      then stack_scan xs True
      else stack_scan xs recognized)"

fun stack_check :: "error_class \<Rightarrow> bool \<Rightarrow> bool option" where
  "stack_check (OpensslStack xs) recognized = stack_scan xs recognized"
| "stack_check _ recognized = Some recognized"

fun handshake_scan :: "bool \<Rightarrow> std_error \<Rightarrow> bool" where
  "handshake_scan recognized (StdError d c s) =
     (case tls_check c recognized of
        None \<Rightarrow> False
      | Some r1 \<Rightarrow>
          (case stack_check c r1 of
             None \<Rightarrow> False
           | Some r2 \<Rightarrow>
               (let r3 = (if d = ''error connecting to socks proxy'' \<and> s \<noteq> None then True else r2)
                in case s of Some s' \<Rightarrow> handshake_scan r3 s' | None \<Rightarrow> r3)))"

definition has_handshake_failure_source :: "std_error \<Rightarrow> bool" where
  "has_handshake_failure_source e = handshake_scan False e"

fun is_unexpected_eof :: "std_error \<Rightarrow> bool" where
  "is_unexpected_eof (StdError d c s) =
     (if c = IoError UnexpectedEof \<or> c = HyperError True then True
      else (case s of Some s' \<Rightarrow> is_unexpected_eof s' | None \<Rightarrow> False))"

subsection \<open>The conversions\<close>

definition http_error_kind :: "http_error \<Rightarrow> string" where
  "http_error_kind e =
     (if he_timeout e then ''timeout''
      else if he_builder e then ''invalid_input''
      else if is_dns_error e then ''dns''
      else if is_unexpected_eof (he_error e) then ''unexpected_eof''
      else if he_connect e \<and> has_handshake_failure_source (he_error e) then ''connect''
      else ''request'')"

definition bridge_error_of_http :: "http_error \<Rightarrow> bridge_error" where
  "bridge_error_of_http e = from_source (http_error_kind e) (he_without_url e)"

text \<open>\<open>codex_http_client::RouteAwareRequestError\<close>: its \<open>Request\<close> variant and the others.\<close>

datatype route_aware_error =
    RouteRequest http_error
  | RouteOther (route_timeout: bool) std_error

fun bridge_error_of_route :: "route_aware_error \<Rightarrow> bridge_error" where
  "bridge_error_of_route (RouteRequest e) = bridge_error_of_http e"
| "bridge_error_of_route (RouteOther timeout e) =
     from_source (if timeout then ''timeout'' else ''request'') e"

subsection \<open>Facts about the scans\<close>

fun join_colon :: "string list \<Rightarrow> string" where
  "join_colon [] = []"
| "join_colon [s] = s"
| "join_colon (s # t # ts) = s @ '': '' @ join_colon (t # ts)"

lemma join_colon_Cons: "join_colon (s # ts) = s @ concat (map (\<lambda>t. '': '' @ t) ts)"
  by (induction ts arbitrary: s) auto

lemma push_causes_eq:
  "push_causes message src =
     message @ concat (map (\<lambda>n. '': '' @ err_display n)
       (case src of None \<Rightarrow> [] | Some e \<Rightarrow> error_chain e))"
proof (induction message src rule: push_causes.induct)
  case (2 message d c s)
  then show ?case by (cases s) auto
qed simp

text \<open>What one node says by itself about a failed handshake.\<close>

definition ssl_cert_failure :: "ssl_error \<Rightarrow> bool" where
  "ssl_cert_failure x \<longleftrightarrow> library_code x = ssl_library \<and> reason_code x = certificate_verify_failed"

definition ssl_peer_alert :: "ssl_error \<Rightarrow> bool" where
  "ssl_peer_alert x \<longleftrightarrow> library_code x = ssl_library \<and>
     alert_reason_offset \<le> reason_code x \<and> reason_code x \<le> alert_reason_offset + 255"

definition node_cert_failure :: "std_error \<Rightarrow> bool" where
  "node_cert_failure n \<longleftrightarrow> err_class n = RustlsError InvalidCertificate \<or>
     (\<exists>xs. err_class n = OpensslStack xs \<and> list_ex ssl_cert_failure xs)"

definition node_peer_failure :: "std_error \<Rightarrow> bool" where
  "node_peer_failure n \<longleftrightarrow> err_class n = RustlsError AlertReceived \<or>
     (\<exists>xs. err_class n = OpensslStack xs \<and> list_ex ssl_peer_alert xs) \<or>
     (err_display n = ''error connecting to socks proxy'' \<and> err_source n \<noteq> None)"

lemma stack_scan_eq:
  "stack_scan xs r =
     (if list_ex ssl_cert_failure xs then None else Some (r \<or> list_ex ssl_peer_alert xs))"
  by (induction xs arbitrary: r)
     (auto simp: ssl_cert_failure_def ssl_peer_alert_def certificate_verify_failed_def
        alert_reason_offset_def)

lemma tls_check_eq:
  "tls_check c r =
     (if c = RustlsError InvalidCertificate then None else Some (r \<or> c = RustlsError AlertReceived))"
  by (cases "(c, r)" rule: tls_check.cases) auto

lemma stack_check_eq:
  "stack_check c r =
     (if \<exists>xs. c = OpensslStack xs \<and> list_ex ssl_cert_failure xs then None
      else Some (r \<or> (\<exists>xs. c = OpensslStack xs \<and> list_ex ssl_peer_alert xs)))"
  by (cases c) (auto simp: stack_scan_eq)

lemma handshake_scan_eq:
  "handshake_scan r e \<longleftrightarrow>
     \<not> list_ex node_cert_failure (error_chain e) \<and> (r \<or> list_ex node_peer_failure (error_chain e))"
proof (induction r e rule: handshake_scan.induct)
  case (1 r d c s)
  show ?case
  proof (cases "node_cert_failure (StdError d c s)")
    case True
    then show ?thesis
      by (auto simp: tls_check_eq stack_check_eq node_cert_failure_def error_chain_Cons)
  next
    case False
    define r2 where "r2 = (r \<or> c = RustlsError AlertReceived
      \<or> (\<exists>xs. c = OpensslStack xs \<and> list_ex ssl_peer_alert xs))"
    have c1: "tls_check c r = Some (r \<or> c = RustlsError AlertReceived)"
      using False by (auto simp: tls_check_eq node_cert_failure_def)
    have c2: "stack_check c (r \<or> c = RustlsError AlertReceived) = Some r2"
      using False by (auto simp: stack_check_eq node_cert_failure_def r2_def)
    have node: "node_peer_failure (StdError d c s) \<or> r \<longleftrightarrow>
        r2 \<or> (d = ''error connecting to socks proxy'' \<and> s \<noteq> None)"
      by (auto simp: node_peer_failure_def r2_def)
    show ?thesis
    proof (cases s)
      case None
      with c1 c2 node False show ?thesis by auto
    next
      case (Some s')
      with "1.IH" [OF c1 c2 refl Some] c1 c2 node False show ?thesis
        by auto
    qed
  qed
qed

lemma is_unexpected_eof_iff:
  "is_unexpected_eof e \<longleftrightarrow>
     list_ex (\<lambda>n. err_class n = IoError UnexpectedEof \<or> err_class n = HyperError True) (error_chain e)"
  by (induction e rule: is_unexpected_eof.induct) (auto split: option.splits)

lemma dns_scan_iff:
  "dns_scan src \<longleftrightarrow>
     (case src of None \<Rightarrow> False
      | Some e \<Rightarrow> list_ex (\<lambda>n. err_display n \<in> set dns_labels \<and> err_source n \<noteq> None) (error_chain e))"
proof (induction src rule: dns_scan.induct)
  case (2 d c s)
  then show ?case by (cases s) auto
qed simp


subsection \<open>Properties of the classification\<close>

text \<open>
  C34. A failure is reported as \<open>connect\<close> exactly when it is a connection error that is no
  timeout, builder, DNS or premature-EOF error, some node of its source chain is a TLS alert of
  the peer or a failed SOCKS connection, and no node anywhere in the chain, before or after that
  one, is a local certificate verification failure: the order of the nodes does not matter.
\<close>

theorem http_kind_connect_iff:
  "err_kind (bridge_error_of_http e) = ''connect'' \<longleftrightarrow>
     \<not> he_timeout e \<and> \<not> he_builder e \<and> he_connect e \<and>
     \<not> is_dns_error e \<and> \<not> is_unexpected_eof (he_error e) \<and>
     list_ex node_peer_failure (error_chain (he_error e)) \<and>
     \<not> list_ex node_cert_failure (error_chain (he_error e))"
  by (auto simp: bridge_error_of_http_def from_source_def http_error_kind_def
      has_handshake_failure_source_def handshake_scan_eq)

text \<open>
  A failure is reported as \<open>dns\<close> exactly when it is a connection error (no timeout or builder
  error) with a proper cause, never the error itself, that carries one of the two phase labels
  as its whole text and has a cause of its own.
\<close>

theorem http_kind_dns_iff:
  "err_kind (bridge_error_of_http e) = ''dns'' \<longleftrightarrow>
     \<not> he_timeout e \<and> \<not> he_builder e \<and> he_connect e \<and>
     (\<exists>pre n post. error_chain (he_error e) = he_error e # pre @ n # post \<and> post \<noteq> [] \<and>
        err_display n \<in> {''dns error'', ''error resolving for socks proxy''})"
proof -
  have rest: "error_chain x = pre @ n # post \<Longrightarrow> post \<noteq> [] \<longleftrightarrow> err_source n \<noteq> None"
    for x n :: std_error and pre post
  proof (induction pre arbitrary: x)
    case Nil
    then have "n = x" and "post = (case err_source x of None \<Rightarrow> [] | Some s \<Rightarrow> error_chain s)"
      using error_chain_Cons [of x] by auto
    then show ?case by (auto split: option.splits)
  next
    case (Cons a pre)
    then have tl: "pre @ n # post = (case err_source x of None \<Rightarrow> [] | Some s \<Rightarrow> error_chain s)"
      using error_chain_Cons [of x] by auto
    then obtain s where "error_chain s = pre @ n # post"
      by (cases "err_source x") auto
    then show ?case by (rule Cons.IH)
  qed
  have scan: "dns_scan (err_source (he_error e)) \<longleftrightarrow>
    (\<exists>pre n post. error_chain (he_error e) = he_error e # pre @ n # post \<and> post \<noteq> [] \<and>
        err_display n \<in> set dns_labels)"
  proof (cases "err_source (he_error e)")
    case None
    then show ?thesis by (simp add: error_chain_Cons)
  next
    case (Some s)
    then have chain: "error_chain (he_error e) = he_error e # error_chain s"
      by (simp add: error_chain_Cons)
    have inner: "n \<in> set (error_chain s) \<and> err_source n \<noteq> None \<longleftrightarrow>
        (\<exists>pre post. error_chain s = pre @ n # post \<and> post \<noteq> [])" for n
      using rest [of s] by (metis in_set_conv_decomp)
    have "dns_scan (err_source (he_error e)) \<longleftrightarrow>
        (\<exists>n. (n \<in> set (error_chain s) \<and> err_source n \<noteq> None) \<and> err_display n \<in> set dns_labels)"
      using Some by (auto simp: dns_scan_iff list_ex_iff)
    also have "\<dots> \<longleftrightarrow> (\<exists>pre n post. error_chain s = pre @ n # post \<and> post \<noteq> [] \<and>
        err_display n \<in> set dns_labels)"
      unfolding inner by blast
    finally show ?thesis
      by (simp add: chain)
  qed
  show ?thesis
    by (simp add: bridge_error_of_http_def from_source_def http_error_kind_def is_dns_error_def scan)
       (auto simp: dns_labels_def)
qed

text \<open>
  Premature EOF is recognised by the concrete type of a node, anywhere in the chain and
  whatever the texts say, once timeout, builder and DNS errors are excluded; no other branch
  reports it.
\<close>

theorem http_kind_unexpected_eof_iff:
  "err_kind (bridge_error_of_http e) = ''unexpected_eof'' \<longleftrightarrow>
     \<not> he_timeout e \<and> \<not> he_builder e \<and> \<not> is_dns_error e \<and>
     list_ex (\<lambda>n. err_class n = IoError UnexpectedEof \<or> err_class n = HyperError True)
       (error_chain (he_error e))"
  by (simp add: bridge_error_of_http_def from_source_def http_error_kind_def is_unexpected_eof_iff)

text \<open>
  The message is the texts of the URL-free error's source chain, outermost first and joined
  by a colon and a space, whatever kind was chosen; automatic routes report a request error
  exactly as fixed routes do.
\<close>

theorem http_error_message:
  "err_message (bridge_error_of_http e) =
     join_colon (map err_display (error_chain (he_without_url e)))
   \<and> bridge_error_of_route (RouteRequest e) = bridge_error_of_http e
   \<and> err_details (bridge_error_of_http e) = None"
  by (cases "he_without_url e" rule: error_chain.cases)
     (simp_all add: bridge_error_of_http_def from_source_def push_causes_eq join_colon_Cons
        comp_def)

end
