(* ===== verification/Bridge_Ffi.thy ===== *)
theory Bridge_Ffi
  imports Bridge_Errors
begin

text \<open>
  The C ABI's memory discipline (\<open>rust/src/lib.rs\<close>, lines 186 to 292) and its consumer
  \<open>takeResult\<close> of \<open>internal/bridge/bridge.go\<close>: buffers owned by Rust and freed once, inputs
  borrowed for one call, panics caught at the boundary.
\<close>

subsection \<open>The heap of leaked boxes\<close>

text \<open>
  \<open>live\<close> maps the address of each leaked boxed slice to its bytes; \<open>brk\<close> bounds the addresses
  used so far, so the next box is fresh and never at address 0. \<open>None\<close> results are undefined
  behaviour: reading or freeing what is not a live box of exactly that length.
\<close>

record rust_heap =
  live :: "nat \<Rightarrow> bytes option"
  brk :: nat

record buffer =
  buf_data :: nat
  buf_len :: nat

definition heap_ok :: "rust_heap \<Rightarrow> bool" where
  "heap_ok h \<longleftrightarrow> (\<forall>a. live h a \<noteq> None \<longrightarrow> 0 < a \<and> a \<le> brk h)"

definition buffer_new :: "bytes \<Rightarrow> rust_heap \<Rightarrow> buffer \<times> rust_heap" where
  "buffer_new bs h =
     (if bs = [] then (\<lparr>buf_data = 0, buf_len = 0\<rparr>, h)
      else (\<lparr>buf_data = Suc (brk h), buf_len = length bs\<rparr>,
            h\<lparr>live := (live h)(Suc (brk h) := Some bs), brk := brk h + length bs\<rparr>))"

definition gocodex_buffer_free :: "buffer \<Rightarrow> rust_heap \<Rightarrow> rust_heap option" where
  "gocodex_buffer_free b h =
     (if buf_data b = 0 then Some h
      else (case live h (buf_data b) of
              None \<Rightarrow> None
            | Some bs \<Rightarrow> (if length bs = buf_len b
                          then Some (h\<lparr>live := (live h)(buf_data b := None)\<rparr>) else None)))"

text \<open>\<open>slice::from_raw_parts\<close> (Go: \<open>unsafe.Slice\<close>) on a result's buffer.\<close>

definition buffer_bytes :: "buffer \<Rightarrow> rust_heap \<Rightarrow> bytes option" where
  "buffer_bytes b h =
     (if buf_len b = 0 then Some []
      else (case live h (buf_data b) of
              None \<Rightarrow> None
            | Some bs \<Rightarrow> (if length bs = buf_len b then Some bs else None)))"

lemma buffer_new_ok: "heap_ok h \<Longrightarrow> buffer_new bs h = (b, h') \<Longrightarrow> heap_ok h'"
  by (auto simp: buffer_new_def heap_ok_def Suc_le_eq split: if_splits) (meson trans_le_add1)

lemma buffer_new_bytes: "buffer_new bs h = (b, h') \<Longrightarrow> buffer_bytes b h' = Some bs"
  by (auto simp: buffer_new_def buffer_bytes_def split: if_splits)

lemma buffer_new_len: "buffer_new bs h = (b, h') \<Longrightarrow> buf_len b = length bs"
  by (auto simp: buffer_new_def split: if_splits)

lemma buffer_new_frame:
  "heap_ok h \<Longrightarrow> buffer_new bs h = (b, h') \<Longrightarrow> live h a = Some cs \<Longrightarrow> live h' a = Some cs"
  by (auto simp: buffer_new_def heap_ok_def split: if_splits)

lemma buffer_new_free:
  assumes "heap_ok h" "buffer_new bs h = (b, h')"
  shows "\<exists>h''. gocodex_buffer_free b h' = Some h'' \<and> live h'' = live h \<and> heap_ok h''"
proof -
  have "live h (Suc (brk h)) = None"
    using assms(1) unfolding heap_ok_def by (metis Suc_n_not_le_n)
  then have "live h = (live h)(Suc (brk h) := None)"
    by (simp add: fun_upd_idem)
  moreover have "heap_ok h'"
    using assms by (rule buffer_new_ok)
  ultimately show ?thesis
    using assms
    by (auto simp: buffer_new_def gocodex_buffer_free_def heap_ok_def split: if_splits)
qed

text \<open>Freeing twice is undefined behaviour, unless the buffer is empty.\<close>

lemma buffer_double_free:
  "buf_data b \<noteq> 0 \<Longrightarrow> gocodex_buffer_free b h = Some h' \<Longrightarrow> gocodex_buffer_free b h' = None"
  by (auto simp: gocodex_buffer_free_def split: option.splits if_splits)

subsection \<open>Outputs and results\<close>

record ffi_output =
  out_handle :: u64
  out_data :: bytes
  out_eof :: bool

definition output_handle :: "u64 \<Rightarrow> ffi_output" where
  "output_handle h = \<lparr>out_handle = h, out_data = [], out_eof = False\<rparr>"

definition output_data :: "bytes \<Rightarrow> ffi_output" where
  "output_data d = \<lparr>out_handle = 0, out_data = d, out_eof = False\<rparr>"

definition output_eof :: ffi_output where
  "output_eof = (output_handle 0)\<lparr>out_eof := True\<rparr>"

lemma output_sel [simp]:
  "out_handle (output_handle h) = h" "out_data (output_handle h) = []"
  "out_eof (output_handle h) = False"
  "out_handle (output_data d) = 0" "out_data (output_data d) = d" "out_eof (output_data d) = False"
  "out_handle output_eof = 0" "out_data output_eof = []" "out_eof output_eof = True"
  by (simp_all add: output_handle_def output_data_def output_eof_def)

lemma output_inject [simp]:
  "output_data d = output_data d' \<longleftrightarrow> d = d'" "output_handle h = output_handle h' \<longleftrightarrow> h = h'"
  "output_data d \<noteq> output_eof" "output_eof \<noteq> output_data d"
  "output_handle h \<noteq> output_eof" "output_eof \<noteq> output_handle h"
  by (auto simp: output_handle_def output_data_def output_eof_def)

record ffi_result =
  res_handle :: u64
  res_code :: int
  res_buffer :: buffer

type_synonym call_result = "bridge_error + ffi_output"

text \<open>What \<open>catch_unwind\<close> gives: the closure returned, or a panic unwound out of it.\<close>

datatype 'a unwind = Returned 'a | Unwound

definition bridge_panicked :: bridge_error where
  "bridge_panicked = bridge_error_new ''panic'' ''Rust bridge panicked''"

text \<open>
  \<open>to_vec\<close> stands for \<open>serde_json::to_vec\<close> on an error value. Its failure would be the panic of
  \<open>expect\<close> outside the \<open>catch_unwind\<close>, which aborts the process: \<open>None\<close>.
\<close>

definition ffi ::
  "(bridge_error \<Rightarrow> string + bytes) \<Rightarrow> call_result unwind \<Rightarrow> rust_heap \<Rightarrow>
     (ffi_result \<times> rust_heap) option" where
  "ffi to_vec call h =
     (case (case call of Returned r \<Rightarrow> r | Unwound \<Rightarrow> Inl bridge_panicked) of
        Inr out \<Rightarrow>
          (let (b, h') = buffer_new (out_data out) h
           in Some (\<lparr>res_handle = out_handle out, res_code = (if out_eof out then 2 else 0),
                     res_buffer = b\<rparr>, h'))
      | Inl e \<Rightarrow>
          (case to_vec e of
             Inl _ \<Rightarrow> None
           | Inr bs \<Rightarrow>
               (let (b, h') = buffer_new bs h
                in Some (\<lparr>res_handle = 0, res_code = 1, res_buffer = b\<rparr>, h'))))"

subsection \<open>Borrowed inputs\<close>

text \<open>
  A pointer from the caller: null, or at bytes that are initialised for the call. \<open>None\<close> is the
  caller breaking the documented contract (fewer than \<open>len\<close> bytes there).
\<close>

datatype foreign_ptr = NullPtr | PtrTo bytes

definition input_buffer :: "foreign_ptr \<Rightarrow> nat \<Rightarrow> (bridge_error + bytes) option" where
  "input_buffer p len =
     (if len = 0 then Some (Inr [])
      else if p = NullPtr \<or> isize_max < len then Some (Inl (invalid ''invalid input buffer''))
      else (case p of NullPtr \<Rightarrow> None
            | PtrTo bs \<Rightarrow> (if len \<le> length bs then Some (Inr (take len bs)) else None)))"

definition caller_contract :: "foreign_ptr \<Rightarrow> nat \<Rightarrow> bool" where
  "caller_contract p len \<longleftrightarrow> (case p of NullPtr \<Rightarrow> True | PtrTo bs \<Rightarrow> len \<le> length bs)"

lemma input_buffer_defined:
  "caller_contract p len \<Longrightarrow>
     \<exists>r. input_buffer p len = Some r \<and>
         (case r of Inl e \<Rightarrow> len \<noteq> 0 \<and> err_kind e = ''invalid_input''
          | Inr bs \<Rightarrow> length bs = len)"
  by (auto simp: input_buffer_def caller_contract_def split: foreign_ptr.splits)

subsection \<open>The Go side of a result\<close>

text \<open>\<open>takeResult\<close> of \<open>internal/bridge/bridge.go\<close>. \<open>unmarshal\<close> stands for \<open>json.Unmarshal\<close> into
  the kind and the message of an error.\<close>

datatype go_error =
    GoTooLarge
  | GoInvalidError
  | GoNative string string
  | GoEOF
  | GoUnknownCode int

definition take_result ::
  "(bytes \<Rightarrow> (string \<times> string) option) \<Rightarrow> ffi_result \<Rightarrow> rust_heap \<Rightarrow>
     ((u64 \<times> bytes \<times> go_error option) \<times> rust_heap) option" where
  "take_result unmarshal res h =
     (let b = res_buffer res;
          answer =
            (if isize_max < buf_len b then Some (0, [], Some GoTooLarge)
             else
               (case buffer_bytes b h of
                  None \<Rightarrow> None
                | Some bs \<Rightarrow>
                    Some (if res_code res = 0 then (res_handle res, bs, None)
                          else if res_code res = 1 then
                            (case unmarshal bs of
                               None \<Rightarrow> (0, [], Some GoInvalidError)
                             | Some (k, m) \<Rightarrow> (0, bs, Some (GoNative k m)))
                          else if res_code res = 2 then (0, [], Some GoEOF)
                          else (0, [], Some (GoUnknownCode (res_code res))))))
      in (case answer of
            None \<Rightarrow> None
          | Some a \<Rightarrow> (case gocodex_buffer_free b h of None \<Rightarrow> None | Some h' \<Rightarrow> Some (a, h'))))"

text \<open>What the Go caller should get for the outcome of a Rust closure.\<close>

fun go_view :: "(bridge_error \<Rightarrow> string + bytes) \<Rightarrow> call_result unwind \<Rightarrow> u64 \<times> bytes \<times> go_error option" where
  "go_view to_vec (Returned (Inr out)) =
     (if out_eof out then (0, [], Some GoEOF) else (out_handle out, out_data out, None))"
| "go_view to_vec (Returned (Inl e)) =
     (0, projr (to_vec e), Some (GoNative (err_kind e) (err_message e)))"
| "go_view to_vec Unwound =
     (0, projr (to_vec bridge_panicked), Some (GoNative ''panic'' ''Rust bridge panicked''))"

text \<open>
  Hypotheses on the JSON codecs, for the error this call reports: serialising its string fields
  does not fail, and its kind and message read back. Slices have at most \<open>isize::MAX\<close> bytes.
\<close>

definition json_error_ok ::
  "(bridge_error \<Rightarrow> string + bytes) \<Rightarrow> (bytes \<Rightarrow> (string \<times> string) option) \<Rightarrow> bridge_error \<Rightarrow> bool" where
  "json_error_ok to_vec unmarshal e \<longleftrightarrow>
     (\<exists>bs. to_vec e = Inr bs \<and> length bs \<le> isize_max \<and>
        unmarshal bs = Some (err_kind e, err_message e))"

fun outcome_fits ::
  "(bridge_error \<Rightarrow> string + bytes) \<Rightarrow> (bytes \<Rightarrow> (string \<times> string) option) \<Rightarrow>
     call_result unwind \<Rightarrow> bool" where
  "outcome_fits to_vec unmarshal (Returned (Inr out)) \<longleftrightarrow> length (out_data out) \<le> isize_max"
| "outcome_fits to_vec unmarshal (Returned (Inl e)) \<longleftrightarrow> json_error_ok to_vec unmarshal e"
| "outcome_fits to_vec unmarshal Unwound \<longleftrightarrow> json_error_ok to_vec unmarshal bridge_panicked"

lemma ffi_error:
  "to_vec e = Inr bs \<Longrightarrow>
     ffi to_vec (Returned (Inl e)) h =
       Some (\<lparr>res_handle = 0, res_code = 1, res_buffer = fst (buffer_new bs h)\<rparr>,
             snd (buffer_new bs h))"
  by (simp add: ffi_def split_beta)

lemma ffi_unwound: "ffi to_vec Unwound h = ffi to_vec (Returned (Inl bridge_panicked)) h"
  by (simp add: ffi_def)

lemma ffi_returned:
  "ffi to_vec (Returned (Inr out)) h =
     Some (\<lparr>res_handle = out_handle out, res_code = (if out_eof out then 2 else 0),
            res_buffer = fst (buffer_new (out_data out) h)\<rparr>, snd (buffer_new (out_data out) h))"
  by (simp add: ffi_def split_beta)

lemma take_result_new:
  assumes "heap_ok h" "length bs \<le> isize_max"
    and "res_buffer res = fst (buffer_new bs h)"
  shows "\<exists>h'. take_result unmarshal res (snd (buffer_new bs h)) =
            Some ((if res_code res = 0 then (res_handle res, bs, None)
                   else if res_code res = 1 then
                     (case unmarshal bs of
                        None \<Rightarrow> (0, [], Some GoInvalidError)
                      | Some (k, m) \<Rightarrow> (0, bs, Some (GoNative k m)))
                   else if res_code res = 2 then (0, [], Some GoEOF)
                   else (0, [], Some (GoUnknownCode (res_code res)))), h')
          \<and> live h' = live h \<and> heap_ok h'"
proof -
  obtain b h1 where new: "buffer_new bs h = (b, h1)"
    by (cases "buffer_new bs h")
  obtain h2 where free: "gocodex_buffer_free b h1 = Some h2" "live h2 = live h" "heap_ok h2"
    using buffer_new_free [OF assms(1) new] by blast
  show ?thesis
    using assms new free buffer_new_bytes [OF new] buffer_new_len [OF new]
    by (simp add: take_result_def Let_def del: if_split)
qed

subsection \<open>Properties of the boundary\<close>

lemma ffi_taken:
  assumes "outcome_fits to_vec unmarshal call" "heap_ok h"
  shows "\<exists>res h1 h2. ffi to_vec call h = Some (res, h1) \<and>
           take_result unmarshal res h1 = Some (go_view to_vec call, h2) \<and>
           live h2 = live h \<and> heap_ok h2"
proof -
  have err: "\<exists>res h1 h2. ffi to_vec (Returned (Inl e)) h = Some (res, h1) \<and>
      take_result unmarshal res h1 = Some (go_view to_vec (Returned (Inl e)), h2) \<and>
      live h2 = live h \<and> heap_ok h2" if ok: "json_error_ok to_vec unmarshal e" for e
  proof -
    obtain bs where bs: "to_vec e = Inr bs" "length bs \<le> isize_max"
      "unmarshal bs = Some (err_kind e, err_message e)"
      using ok by (auto simp: json_error_ok_def)
    let ?res = "\<lparr>res_handle = 0, res_code = 1, res_buffer = fst (buffer_new bs h)\<rparr>"
    show ?thesis
      using take_result_new [OF assms(2) bs(2), of ?res unmarshal] ffi_error [of to_vec e bs h] bs
      by auto
  qed
  consider (unwound) "call = Unwound" | (error) e where "call = Returned (Inl e)"
    | (ok) out where "call = Returned (Inr out)"
    by (cases call) (metis sumE)+
  then show ?thesis
  proof cases
    case unwound
    with err [of bridge_panicked] assms(1) show ?thesis
      by (simp add: ffi_unwound bridge_panicked_def)
  next
    case error
    with err assms(1) show ?thesis by simp
  next
    case (ok out)
    with assms(1) have "length (out_data out) \<le> isize_max" by simp
    from take_result_new [OF assms(2) this,
        of "\<lparr>res_handle = out_handle out, res_code = (if out_eof out then 2 else 0),
             res_buffer = fst (buffer_new (out_data out) h)\<rparr>" unmarshal]
    show ?thesis
      using ok ffi_returned [of to_vec out h] by (cases "out_eof out") auto
  qed
qed

text \<open>
  One ABI call followed by \<open>takeResult\<close>: whatever the Rust code did (a value, an end of
  file, an error, a panic), the call returns instead of aborting, Go receives exactly its bytes,
  handle or error, and every byte Rust allocated for the result is freed once, so the heap is
  what it was.
\<close>

theorem ffi_take_result:
  assumes "outcome_fits to_vec unmarshal call" "heap_ok h"
  shows "\<exists>res h1 h2. ffi to_vec call h = Some (res, h1) \<and>
           take_result unmarshal res h1 = Some (go_view to_vec call, h2) \<and>
           live h2 = live h \<and> heap_ok h2"
  using assms by (rule ffi_taken)

text \<open>A concrete codec for the witnesses, and the empty heap.\<close>

definition sample_to_vec :: "bridge_error \<Rightarrow> string + bytes" where
  "sample_to_vec e = Inr (ascii (err_kind e @ '':'' @ err_message e))"

definition sample_unmarshal :: "bytes \<Rightarrow> (string \<times> string) option" where
  "sample_unmarshal bs =
     (if bs = ascii ''panic:Rust bridge panicked''
      then Some (''panic'', ''Rust bridge panicked'') else None)"

definition empty_heap :: rust_heap where
  "empty_heap = \<lparr>live = (\<lambda>_. None), brk = 0\<rparr>"

lemma heap_ok_empty: "heap_ok empty_heap"
  by (simp add: heap_ok_def empty_heap_def)

theorem ffi_take_result_witness:
  "\<exists>res h1 h2. ffi sample_to_vec Unwound empty_heap = Some (res, h1) \<and>
     take_result sample_unmarshal res h1
       = Some ((0, ascii ''panic:Rust bridge panicked'',
                Some (GoNative ''panic'' ''Rust bridge panicked'')), h2) \<and>
     live h2 = live empty_heap"
proof -
  have fits: "outcome_fits sample_to_vec sample_unmarshal Unwound"
    by (simp add: json_error_ok_def sample_to_vec_def sample_unmarshal_def bridge_panicked_def
        isize_max_def)
  show ?thesis
    using ffi_take_result [OF fits heap_ok_empty]
    by (simp add: sample_to_vec_def bridge_panicked_def) blast
qed

text \<open>
  A borrowed input under the caller's contract is read in bounds: a null pointer with a nonzero
  length and a length above \<open>isize::MAX\<close> are refused, length zero is the empty input even for a
  null pointer, and otherwise exactly \<open>len\<close> bytes are seen.
\<close>

definition refused_input :: "foreign_ptr \<Rightarrow> nat \<Rightarrow> bool" where
  "refused_input p len \<longleftrightarrow> len \<noteq> 0 \<and> (p = NullPtr \<or> isize_max < len)"

lemma input_buffer_refused:
  "refused_input p len \<Longrightarrow> input_buffer p len = Some (Inl (invalid ''invalid input buffer''))"
  by (auto simp: input_buffer_def refused_input_def)

lemma input_buffer_accepted:
  "caller_contract p len \<Longrightarrow> \<not> refused_input p len \<Longrightarrow>
     \<exists>bs. input_buffer p len = Some (Inr bs) \<and> length bs = len"
  by (cases p) (auto simp: input_buffer_def caller_contract_def refused_input_def)

end
