(* ===== verification/Bridge_Runtime.thy ===== *)
theory Bridge_Runtime
  imports Bridge_Ffi
begin

text \<open>
  The shared Tokio runtime (\<open>rust/src/runtime.rs\<close>): built once per process, its worker threads
  with SIGPIPE blocked, and \<open>run\<close>, which waits on the calling thread for a task of a worker. The
  outcome of building a runtime and of joining a task are inputs; a select between a
  cancellation token and a body is modelled here too, since every task of the bridge is one.
\<close>

subsection \<open>The runtime cell\<close>

text \<open>The \<open>OnceLock\<close>: empty, or what the first \<open>build()\<close> gave, an error as its text.\<close>

type_synonym runtime_cell = "(string + unit) option"

definition runtime :: "string + unit \<Rightarrow> runtime_cell \<Rightarrow> (bridge_error + unit) \<times> runtime_cell" where
  "runtime build cell =
     (let r = (case cell of None \<Rightarrow> build | Some r \<Rightarrow> r)
      in (map_err (\<lambda>e. bridge_error_new ''internal'' e) r, Some r))"

text \<open>The outcome of a spawned task: its value, or Tokio's \<open>JoinError\<close>.\<close>

datatype 'a task = Finished 'a | TaskPanicked | TaskCancelled

definition join_error :: "'a task \<Rightarrow> bridge_error" where
  "join_error t =
     bridge_error_new (if t = TaskPanicked then ''panic'' else ''internal'')
       ''Rust request task terminated''"

text \<open>
  \<open>run\<close>: the future is a state transformer of the world \<open>'w\<close>; it runs only if the runtime is
  there, and never on the calling thread.
\<close>

definition run ::
  "string + unit \<Rightarrow> ('w \<Rightarrow> call_result task \<times> 'w) \<Rightarrow> runtime_cell \<Rightarrow> 'w \<Rightarrow>
     call_result \<times> runtime_cell \<times> 'w" where
  "run build future cell w =
     (case runtime build cell of
        (Inl e, cell') \<Rightarrow> (Inl e, cell', w)
      | (Inr _, cell') \<Rightarrow>
          (case future w of
             (Finished r, w') \<Rightarrow> (r, cell', w')
           | (t, w') \<Rightarrow> (Inl (join_error t), cell', w')))"

lemma runtime_once:
  "runtime build (Some r) = (map_err (\<lambda>e. bridge_error_new ''internal'' e) r, Some r)"
  by (simp add: runtime_def)

lemma runtime_ready: "cell = Some (Inr ()) \<Longrightarrow> runtime build cell = (Inr (), cell)"
  by (simp add: runtime_def)

lemma runtime_cell_set: "\<exists>r. snd (runtime build cell) = Some r"
  by (simp add: runtime_def Let_def)

subsection \<open>Worker threads and SIGPIPE\<close>

datatype signal = SIGPIPE | OtherSignal nat

text \<open>The libc calls: each returns its status and what it wrote through its pointer.\<close>

record libc_api =
  sigemptyset :: "int \<times> signal set"
  sigaddset :: "signal set \<Rightarrow> signal \<Rightarrow> int \<times> signal set"
  sigmask_block :: "signal set \<Rightarrow> signal set \<Rightarrow> int \<times> signal set"

text \<open>\<open>initialize_thread\<close> on the mask of the calling thread; \<open>None\<close> is a failed assertion.\<close>

definition initialize_thread :: "libc_api \<Rightarrow> signal set \<Rightarrow> signal set option" where
  "initialize_thread libc msk =
     (let (rc1, signals) = sigemptyset libc
      in if rc1 \<noteq> 0 then None
         else (let (rc2, signals') = sigaddset libc signals SIGPIPE
               in if rc2 \<noteq> 0 then None
                  else (let (rc3, msk') = sigmask_block libc msk signals'
                        in if rc3 \<noteq> 0 then None else Some msk')))"

text \<open>POSIX: \<open>sigemptyset\<close> and \<open>sigaddset\<close> build a set, \<open>SIG_BLOCK\<close> adds it to the mask.\<close>

definition posix_signals :: "libc_api \<Rightarrow> bool" where
  "posix_signals libc \<longleftrightarrow>
     sigemptyset libc = (0, {}) \<and>
     (\<forall>s x. sigaddset libc s x = (0, insert x s)) \<and>
     (\<forall>m s. sigmask_block libc m s = (0, m \<union> s))"

text \<open>The masks of the process's threads; starting a worker runs the hook on the new thread,
  which starts with the mask of the thread that builds the runtime.\<close>

definition start_worker ::
  "libc_api \<Rightarrow> nat \<Rightarrow> nat \<Rightarrow> (nat \<Rightarrow> signal set) \<Rightarrow> (nat \<Rightarrow> signal set) option" where
  "start_worker libc parent worker masks =
     map_option (\<lambda>m. masks(worker := m)) (initialize_thread libc (masks parent))"

lemma initialize_thread_posix:
  "posix_signals libc \<Longrightarrow> initialize_thread libc msk = Some (insert SIGPIPE msk)"
  by (simp add: initialize_thread_def posix_signals_def)

text \<open>Starting a worker thread blocks SIGPIPE in that thread's mask only, on top of what the mask it
  inherited blocks, and never fails its assertions where libc behaves as POSIX says.\<close>

lemma start_worker_posix:
  "posix_signals libc \<Longrightarrow>
     start_worker libc parent worker masks = Some (masks(worker := insert SIGPIPE (masks parent)))"
  by (simp add: start_worker_def initialize_thread_posix)

subsection \<open>select! biased between cancellation and a body\<close>

text \<open>
  Every task is \<open>select! { biased; cancelled => Err(e), result = body => result }\<close>. The first
  poll looks at the token first: a cancelled call never starts its body. Otherwise the body runs;
  when the token fires while the body waits, the body is dropped where it waits, which the body
  models itself by taking the point at which it is dropped as an argument.
\<close>

definition select_cancelled ::
  "bool \<Rightarrow> bridge_error \<Rightarrow> ('w \<Rightarrow> call_result task \<times> 'w) \<Rightarrow> 'w \<Rightarrow> call_result task \<times> 'w" where
  "select_cancelled fired e body w = (if fired then (Finished (Inl e), w) else body w)"

subsection \<open>Properties of the runtime\<close>

text \<open>
  A task's result is the call's result; a panicking task becomes a \<open>panic\<close> error and a
  cancelled one an \<open>internal\<close> error with the state the task left; and once the runtime could not
  be built, no future ever runs: every later call reports the same \<open>internal\<close> error and leaves
  the world as it was, even if building would succeed by then.
\<close>

theorem run_outcomes:
  assumes "run build future cell w = (r, cell', w')"
  shows "(\<forall>e. runtime build cell = (Inl e, cell') \<longrightarrow>
            r = Inl e \<and> err_kind e = ''internal'' \<and> w' = w \<and>
            (\<forall>build' future'. run build' future' cell' w = (Inl e, cell', w)))
       \<and> (fst (runtime build cell) = Inr () \<longrightarrow> w' = snd (future w) \<and>
            (case fst (future w) of
               Finished r' \<Rightarrow> r = r'
             | TaskPanicked \<Rightarrow> r = Inl (bridge_error_new ''panic'' ''Rust request task terminated'')
             | TaskCancelled \<Rightarrow>
                 r = Inl (bridge_error_new ''internal'' ''Rust request task terminated'')))"
proof (intro conjI allI impI)
  fix e
  assume rt: "runtime build cell = (Inl e, cell')"
  then show "r = Inl e" "w' = w"
    using assms by (simp_all add: run_def)
  from rt show "err_kind e = ''internal''"
    by (auto simp: runtime_def Let_def result_simps)
  fix build' and future' :: "'a \<Rightarrow> call_result task \<times> 'a"
  have "runtime build' cell' = (Inl e, cell')"
    using rt by (auto simp: runtime_def Let_def)
  then show "run build' future' cell' w = (Inl e, cell', w)"
    by (simp add: run_def)
next
  assume ok: "fst (runtime build cell) = Inr ()"
  obtain t w1 where f: "future w = (t, w1)" by (cases "future w")
  obtain c where c: "runtime build cell = (Inr (), c)"
    using ok by (cases "runtime build cell") simp
  show "w' = snd (future w)"
    using assms f c by (cases t) (simp_all add: run_def)
  show "case fst (future w) of
               Finished r' \<Rightarrow> r = r'
             | TaskPanicked \<Rightarrow> r = Inl (bridge_error_new ''panic'' ''Rust request task terminated'')
             | TaskCancelled \<Rightarrow>
                 r = Inl (bridge_error_new ''internal'' ''Rust request task terminated'')"
    using assms f c by (cases t) (simp_all add: run_def join_error_def)
qed

theorem run_outcomes_witness:
  "err_kind (projl (fst (run (Inl ''no threads'') (\<lambda>w. (TaskPanicked, Suc w)) None 0))) = ''internal''
   \<and> snd (snd (run (Inl ''no threads'') (\<lambda>w. (TaskPanicked, Suc w)) None 0)) = 0"
proof -
  let ?r = "run (Inl ''no threads'') (\<lambda>w. (TaskPanicked, Suc w)) None 0"
  have "?r = (fst ?r, fst (snd ?r), snd (snd ?r))" by simp
  from run_outcomes [OF this] show ?thesis
    by (simp add: runtime_def run_def)
qed

end
