(* ===== verification/Rust_Std.thy ===== *)
theory Rust_Std
  imports Bridge_Prelude
begin

text \<open>
  The parts of Rust's standard library that the bridge's own logic rests on, over byte strings:
  \<open>str::from_utf8\<close>, \<open>str::split\<close>, \<open>str::trim\<close> (Unicode white space, on the UTF-8 bytes),
  \<open>eq_ignore_ascii_case\<close>, \<open>usize::from_str_radix\<close> and \<open>str::parse::<usize>\<close>,
  \<open>str::matches\<close> and \<open>str::replace\<close>, \<open>u16::to_be_bytes\<close>.
  A \<open>&str\<close> is the list of its UTF-8 bytes.
\<close>

subsection \<open>str::from_utf8\<close>

definition in_range :: "u8 \<Rightarrow> u8 \<Rightarrow> u8 \<Rightarrow> bool" where
  "in_range lo hi b \<longleftrightarrow> lo \<le> b \<and> b \<le> hi"

abbreviation is_cont :: "u8 \<Rightarrow> bool" where
  "is_cont \<equiv> in_range 0x80 0xBF"

text \<open>What may follow a lead byte: the ranges of \<open>core::str::validations\<close>, no overlong
  forms, no surrogates, nothing above U+10FFFF.\<close>

definition utf8_tail :: "u8 \<Rightarrow> (u8 \<Rightarrow> bool) list option" where
  "utf8_tail b =
     (if b < 0x80 then Some []
      else if in_range 0xC2 0xDF b then Some [is_cont]
      else if b = 0xE0 then Some [in_range 0xA0 0xBF, is_cont]
      else if in_range 0xE1 0xEC b then Some [is_cont, is_cont]
      else if b = 0xED then Some [in_range 0x80 0x9F, is_cont]
      else if in_range 0xEE 0xEF b then Some [is_cont, is_cont]
      else if b = 0xF0 then Some [in_range 0x90 0xBF, is_cont, is_cont]
      else if in_range 0xF1 0xF3 b then Some [is_cont, is_cont, is_cont]
      else if b = 0xF4 then Some [in_range 0x80 0x8F, is_cont, is_cont]
      else None)"

text \<open>\<open>pending\<close> holds the tests the next continuation bytes must pass.\<close>

fun utf8_scan :: "(u8 \<Rightarrow> bool) list \<Rightarrow> bytes \<Rightarrow> bool" where
  "utf8_scan pending [] = (pending = [])"
| "utf8_scan [] (b # bs) =
     (case utf8_tail b of None \<Rightarrow> False | Some tests \<Rightarrow> utf8_scan tests bs)"
| "utf8_scan (t # ts) (b # bs) = (t b \<and> utf8_scan ts bs)"

definition utf8_valid :: "bytes \<Rightarrow> bool" where
  "utf8_valid bs = utf8_scan [] bs"

definition from_utf8 :: "bytes \<Rightarrow> bytes option" where
  "from_utf8 bs = (if utf8_valid bs then Some bs else None)"

lemma utf8_valid_Nil [simp]: "utf8_valid []"
  by (simp add: utf8_valid_def)

lemma utf8_scan_append: "utf8_scan p xs \<Longrightarrow> utf8_scan [] ys \<Longrightarrow> utf8_scan p (xs @ ys)"
  by (induction p xs rule: utf8_scan.induct) (auto split: option.splits)

lemma utf8_valid_append: "utf8_valid xs \<Longrightarrow> utf8_valid ys \<Longrightarrow> utf8_valid (xs @ ys)"
  by (simp add: utf8_valid_def utf8_scan_append)

lemma utf8_valid_ascii_Cons: "b < 0x80 \<Longrightarrow> utf8_valid (b # bs) \<longleftrightarrow> utf8_valid bs"
  by (simp add: utf8_valid_def utf8_tail_def)

lemma utf8_valid_ascii: "(\<forall>b \<in> set bs. b < 0x80) \<Longrightarrow> utf8_valid bs"
  by (induction bs) (auto simp: utf8_valid_ascii_Cons)

lemma from_utf8_Some_iff [result_simps]: "from_utf8 bs = Some s \<longleftrightarrow> utf8_valid bs \<and> s = bs"
  by (auto simp: from_utf8_def)

subsection \<open>str::split, str::trim, eq_ignore_ascii_case\<close>

text \<open>\<open>s.split(c)\<close> for an ASCII separator: never empty.\<close>

fun split_on :: "'a \<Rightarrow> 'a list \<Rightarrow> 'a list list" where
  "split_on c [] = [[]]"
| "split_on c (x # xs) =
     (if x = c then [] # split_on c xs
      else (case split_on c xs of [] \<Rightarrow> [[x]] | p # ps \<Rightarrow> (x # p) # ps))"

lemma split_on_not_Nil [simp]: "split_on c xs \<noteq> []"
  by (cases xs) (auto split: list.splits)

lemma hd_split_on: "hd (split_on c xs) = takeWhile (\<lambda>x. x \<noteq> c) xs"
proof (induction xs)
  case (Cons x xs)
  then show ?case
    by (cases "split_on c xs") auto
qed simp

text \<open>The UTF-8 encodings of the characters with the \<open>White_Space\<close> property.\<close>

definition white_space :: "bytes list" where
  "white_space =
     [[0x09], [0x0A], [0x0B], [0x0C], [0x0D], [0x20], [0xC2, 0x85], [0xC2, 0xA0],
      [0xE1, 0x9A, 0x80],
      [0xE2, 0x80, 0x80], [0xE2, 0x80, 0x81], [0xE2, 0x80, 0x82], [0xE2, 0x80, 0x83],
      [0xE2, 0x80, 0x84], [0xE2, 0x80, 0x85], [0xE2, 0x80, 0x86], [0xE2, 0x80, 0x87],
      [0xE2, 0x80, 0x88], [0xE2, 0x80, 0x89], [0xE2, 0x80, 0x8A], [0xE2, 0x80, 0xA8],
      [0xE2, 0x80, 0xA9], [0xE2, 0x80, 0xAF], [0xE2, 0x81, 0x9F], [0xE3, 0x80, 0x80]]"

text \<open>Drops the first of the patterns that is a prefix; \<open>None\<close> when none is.\<close>

fun strip_any :: "bytes list \<Rightarrow> bytes \<Rightarrow> bytes option" where
  "strip_any [] s = None"
| "strip_any (p # ps) s =
     (if p \<noteq> [] \<and> starts_with p s then Some (drop (length p) s) else strip_any ps s)"

lemma strip_any_shorter: "strip_any ps s = Some r \<Longrightarrow> length r < length s"
proof (induction ps)
  case (Cons p ps)
  then show ?case
    by (cases "p \<noteq> [] \<and> starts_with p s")
       (auto simp: starts_with_iff_prefix prefix_def)
qed simp

function trim_left :: "bytes list \<Rightarrow> bytes \<Rightarrow> bytes" where
  "trim_left ps s = (case strip_any ps s of None \<Rightarrow> s | Some r \<Rightarrow> trim_left ps r)"
  by pat_completeness auto
termination
  by (relation "measure (\<lambda>(ps, s). length s)") (auto dest: strip_any_shorter)

declare trim_left.simps [simp del]

text \<open>\<open>str::trim\<close>. Trimming the end is trimming the start of the reversed bytes: UTF-8 is
  self-synchronising, so a suffix that is the encoding of a character starts one.\<close>

definition trim :: "bytes \<Rightarrow> bytes" where
  "trim s = rev (trim_left (map rev white_space) (rev (trim_left white_space s)))"

lemma trim_left_id: "strip_any ps s = None \<Longrightarrow> trim_left ps s = s"
  by (simp add: trim_left.simps)

lemma length_trim_left: "length (trim_left ps s) \<le> length s"
proof (induction ps s rule: trim_left.induct)
  case (1 ps s)
  show ?case
  proof (cases "strip_any ps s")
    case None
    then show ?thesis by (simp add: trim_left_id)
  next
    case (Some r)
    then have "trim_left ps s = trim_left ps r"
      by (simp add: trim_left.simps [of ps s])
    with "1.IH" [OF Some] strip_any_shorter [OF Some] show ?thesis by simp
  qed
qed

definition ascii_lower :: "u8 \<Rightarrow> u8" where
  "ascii_lower b = (if in_range 0x41 0x5A b then b + 0x20 else b)"

definition eq_ignore_ascii_case :: "bytes \<Rightarrow> bytes \<Rightarrow> bool" where
  "eq_ignore_ascii_case s t \<longleftrightarrow> map ascii_lower s = map ascii_lower t"

subsection \<open>usize::from_str_radix and str::parse\<close>

text \<open>\<open>(b as char).to_digit(radix)\<close>.\<close>

definition to_digit :: "nat \<Rightarrow> u8 \<Rightarrow> nat option" where
  "to_digit radix b =
     (let v = (if in_range 0x30 0x39 b then unat b - 0x30
               else if in_range 0x61 0x7A b then unat b - 0x61 + 10
               else if in_range 0x41 0x5A b then unat b - 0x41 + 10
               else radix)
      in if v < radix then Some v else None)"

text \<open>The accumulation with \<open>checked_mul\<close> and \<open>checked_add\<close> after each digit.\<close>

fun radix_digits :: "nat \<Rightarrow> nat \<Rightarrow> bytes \<Rightarrow> nat option" where
  "radix_digits radix acc [] = Some acc"
| "radix_digits radix acc (b # bs) =
     (case to_digit radix b of None \<Rightarrow> None
      | Some d \<Rightarrow> (if acc * radix + d \<le> usize_max
                   then radix_digits radix (acc * radix + d) bs else None))"

text \<open>An optional leading plus sign is accepted, as the library does; a sign alone or an empty
  string is not a number.\<close>

definition usize_from_str_radix :: "nat \<Rightarrow> bytes \<Rightarrow> nat option" where
  "usize_from_str_radix radix s =
     (let ds = (if s \<noteq> [] \<and> hd s = 0x2B then tl s else s)
      in if ds = [] then None else radix_digits radix 0 ds)"

definition parse_usize :: "bytes \<Rightarrow> nat option" where
  "parse_usize s = usize_from_str_radix 10 s"

text \<open>The value of a digit string, without the machine bound.\<close>

fun digits_value :: "nat \<Rightarrow> nat \<Rightarrow> bytes \<Rightarrow> nat option" where
  "digits_value radix acc [] = Some acc"
| "digits_value radix acc (b # bs) =
     (case to_digit radix b of None \<Rightarrow> None
      | Some d \<Rightarrow> digits_value radix (acc * radix + d) bs)"

lemma digits_value_ge: "0 < radix \<Longrightarrow> digits_value radix acc bs = Some n \<Longrightarrow> acc \<le> n"
proof (induction bs arbitrary: acc)
  case (Cons b bs)
  then obtain d where "digits_value radix (acc * radix + d) bs = Some n"
    by (auto split: option.splits)
  with Cons have "acc * radix + d \<le> n" by blast
  with \<open>0 < radix\<close> show ?case
    by (metis add_leE le_trans mult_le_mono2 mult.right_neutral Suc_leI One_nat_def)
qed simp

text \<open>Checking at every digit is checking the final value: the value never shrinks.\<close>

lemma radix_digits_eq_value:
  "0 < radix \<Longrightarrow> acc \<le> usize_max \<Longrightarrow>
     radix_digits radix acc bs =
       (case digits_value radix acc bs of None \<Rightarrow> None
        | Some n \<Rightarrow> if n \<le> usize_max then Some n else None)"
proof (induction bs arbitrary: acc)
  case (Cons b bs)
  show ?case
  proof (cases "to_digit radix b")
    case (Some d)
    show ?thesis
    proof (cases "acc * radix + d \<le> usize_max")
      case True
      with Some Cons show ?thesis by simp
    next
      case False
      then have "digits_value radix (acc * radix + d) bs = Some n \<Longrightarrow> \<not> n \<le> usize_max" for n
        using digits_value_ge [OF Cons.prems(1)] by (meson le_trans)
      with Some False show ?thesis by (auto split: option.splits)
    qed
  qed simp
qed simp

subsection \<open>u16 in network byte order\<close>

definition u16_from_be_bytes :: "u8 \<Rightarrow> u8 \<Rightarrow> u16" where
  "u16_from_be_bytes hi lo = of_nat (256 * unat hi + unat lo)"

definition u16_to_be_bytes :: "u16 \<Rightarrow> bytes" where
  "u16_to_be_bytes w = [of_nat (unat w div 256), of_nat (unat w mod 256)]"

lemma unat_of_nat_u16: "n < 65536 \<Longrightarrow> unat (of_nat n :: u16) = n"
  by (simp add: unat_of_nat)

lemma u16_be_roundtrip: "u16_to_be_bytes (u16_from_be_bytes hi lo) = [hi, lo]"
proof -
  have h: "unat hi < 256" "unat lo < 256"
    using unsigned_less [of hi] unsigned_less [of lo] by simp_all
  then have "unat (of_nat (256 * unat hi + unat lo) :: u16) = 256 * unat hi + unat lo"
    by (intro unat_of_nat_u16) simp
  with h show ?thesis
    by (simp only: u16_to_be_bytes_def u16_from_be_bytes_def) simp
qed

lemma u16_be_parse:
  "u16_to_be_bytes w = [hi, lo] \<Longrightarrow> u16_from_be_bytes hi lo = w"
proof -
  assume a: "u16_to_be_bytes w = [hi, lo]"
  have "unat w < 65536"
    using unsigned_less [of w] by simp
  then have d: "unat w div 256 < 256" by auto
  from a have "hi = of_nat (unat w div 256)" and "lo = of_nat (unat w mod 256)"
    by (auto simp: u16_to_be_bytes_def)
  with d have "unat hi = unat w div 256" and "unat lo = unat w mod 256"
    by (simp_all add: unat_of_nat)
  then have "256 * unat hi + unat lo = unat w"
    by simp
  then show ?thesis
    by (simp add: u16_from_be_bytes_def)
qed

lemma length_u16_to_be_bytes [simp]: "length (u16_to_be_bytes w) = 2"
  by (simp add: u16_to_be_bytes_def)

end
