(* ===== verification/Ws_Handshake.thy ===== *)
theory Ws_Handshake
  imports Rust_Std
begin

text \<open>
  The body of a rejected WebSocket upgrade: \<open>handshake_body\<close> of
  \<open>rust/src/websocket_client.rs\<close>. Tungstenite keeps the bytes it read past the response's
  headers; the function takes chunk framing off them, cuts them at a limit, and says whether
  the result may be less than the whole entity. \<open>None\<close> is a panic of the Rust code (an index out
  of range, an arithmetic overflow), so the first theorem is that no input gives it.
\<close>

subsection \<open>The response, as the accessors of the http crate show it\<close>

record hs_response =
  hs_status :: nat
  hs_headers :: headers
  hs_captured :: "bytes option"

text \<open>
  What the code calls of the http crate: \<open>StatusCode::is_informational\<close>, \<open>HeaderMap::get\<close> (by
  lower-case name) and \<open>HeaderValue::to_str\<close>.
\<close>

record http_api =
  status_is_informational :: "nat \<Rightarrow> bool"
  header_get :: "headers \<Rightarrow> string \<Rightarrow> bytes option"
  header_to_str :: "bytes \<Rightarrow> bytes option"

definition header_str :: "http_api \<Rightarrow> hs_response \<Rightarrow> string \<Rightarrow> bytes option" where
  "header_str api resp name =
     Option.bind (header_get api (hs_headers resp) name) (header_to_str api)"

subsection \<open>The function\<close>

abbreviation crlf :: bytes where
  "crlf \<equiv> [0x0D, 0x0A]"

abbreviation crlf_crlf :: bytes where
  "crlf_crlf \<equiv> [0x0D, 0x0A, 0x0D, 0x0A]"

definition is_chunked :: "http_api \<Rightarrow> hs_response \<Rightarrow> bool" where
  "is_chunked api resp =
     (case header_str api resp ''transfer-encoding'' of
        None \<Rightarrow> False
      | Some value \<Rightarrow>
          list_ex (\<lambda>part. eq_ignore_ascii_case (trim part) (ascii ''chunked''))
            (split_on 0x2C value))"

text \<open>The size on a chunk's first line: up to a semicolon, trimmed, in hexadecimal.\<close>

definition chunk_size :: "bytes \<Rightarrow> nat option" where
  "chunk_size line =
     Option.bind (from_utf8 line)
       (\<lambda>l. usize_from_str_radix 16 (trim (hd (split_on 0x3B l))))"

definition trailers_complete :: "bytes \<Rightarrow> bool" where
  "trailers_complete rest \<longleftrightarrow> starts_with crlf rest \<or> window_exists crlf_crlf rest"

function chunk_loop :: "nat \<Rightarrow> bytes \<Rightarrow> bytes \<Rightarrow> (bytes \<times> bool) option" where
  "chunk_loop limit remaining decoded =
     (case position_window crlf remaining of
        None \<Rightarrow> Some (decoded, True)
      | Some line_end \<Rightarrow>
          (case chunk_size (take line_end remaining) of
             None \<Rightarrow> Some (decoded, True)
           | Some n \<Rightarrow>
               (case slice_from (line_end + 2) remaining of
                  None \<Rightarrow> None
                | Some rest \<Rightarrow>
                    if n = 0 then Some (decoded, \<not> trailers_complete rest)
                    else
                      (case usize_sub limit (length decoded) of
                         None \<Rightarrow> None
                       | Some room \<Rightarrow>
                           (let taken = min (min n (length rest)) room;
                                decoded' = decoded @ take taken rest
                            in if taken < n
                                  \<or> get_range n (saturating_add n 2) rest \<noteq> Some crlf
                               then Some (decoded', True)
                               else
                                 (case Option.bind (usize_add n 2) (\<lambda>k. slice_from k rest) of
                                    None \<Rightarrow> None
                                  | Some remaining' \<Rightarrow> chunk_loop limit remaining' decoded'))))))"
  by pat_completeness auto
termination
  by (relation "measure (\<lambda>(limit, remaining, decoded). length remaining)")
     (auto simp: slice_from_Some_iff usize_add_def split: if_splits bind_splits
           dest: position_window_Some)

declare chunk_loop.simps [simp del]

definition handshake_body :: "http_api \<Rightarrow> hs_response \<Rightarrow> nat \<Rightarrow> (bytes \<times> bool) option" where
  "handshake_body api resp limit =
     (if status_is_informational api (hs_status resp) \<or> hs_status resp \<in> {204, 304}
      then Some ([], False)
      else
        (let body = (case hs_captured resp of None \<Rightarrow> [] | Some b \<Rightarrow> b)
         in if is_chunked api resp then chunk_loop limit body []
            else
              (let expected = Option.bind (header_str api resp ''content-length'') parse_usize;
                   len = (case expected of None \<Rightarrow> length body | Some e \<Rightarrow> e);
                   taken = min (min (length body) len) limit
               in Some (take taken body, expected = None \<or> taken < len))))"


subsection \<open>What a complete chunked entity is\<close>

text \<open>
  \<open>chunked_entity wire entity\<close>: the bytes \<open>wire\<close> are a chunked encoding of \<open>entity\<close>, complete
  up to the end of its trailers. The definition never mentions the decoder's loop.
\<close>

definition first_line :: "bytes \<Rightarrow> bool" where
  "first_line l \<longleftrightarrow> position_window crlf (l @ crlf) = Some (length l)"

text \<open>A size line: the text before the first semicolon, trimmed, is a hexadecimal numeral (a
  plus sign may precede it) whose value fits \<open>usize\<close>.\<close>

definition size_line :: "bytes \<Rightarrow> nat \<Rightarrow> bool" where
  "size_line l n \<longleftrightarrow> utf8_valid l \<and> n \<le> usize_max \<and>
     (\<exists>ds. ds \<noteq> [] \<and> digits_value 16 0 ds = Some n \<and>
           trim (takeWhile (\<lambda>b. b \<noteq> 0x3B) l) \<in> {ds, 0x2B # ds})"

text \<open>The trailers have ended: an empty section, or lines up to an empty one.\<close>

definition trailer_section :: "bytes \<Rightarrow> bool" where
  "trailer_section t \<longleftrightarrow> (\<exists>u. t = crlf @ u) \<or> (\<exists>lines u. t = lines @ crlf @ crlf @ u)"

inductive chunked_entity :: "bytes \<Rightarrow> bytes \<Rightarrow> bool" where
  last_chunk: "first_line l \<Longrightarrow> size_line l 0 \<Longrightarrow> trailer_section t \<Longrightarrow>
     chunked_entity (l @ crlf @ t) []"
| data_chunk: "first_line l \<Longrightarrow> size_line l (length d) \<Longrightarrow> d \<noteq> [] \<Longrightarrow>
     chunked_entity w e \<Longrightarrow> chunked_entity (l @ crlf @ d @ crlf @ w) (d @ e)"

text \<open>The code's test of a line and of the trailers against the grammar's.\<close>

lemma chunk_size_iff: "chunk_size l = Some n \<longleftrightarrow> size_line l n"
proof -
  let ?s = "trim (takeWhile (\<lambda>b. b \<noteq> 0x3B) l)"
  have "usize_from_str_radix 16 ?s = Some n \<longleftrightarrow>
      n \<le> usize_max \<and> (\<exists>ds. ds \<noteq> [] \<and> digits_value 16 0 ds = Some n \<and> ?s \<in> {ds, 0x2B # ds})"
  proof (cases ?s)
    case Nil
    then show ?thesis by (simp add: usize_from_str_radix_def)
  next
    case (Cons c cs)
    have plus: "digits_value 16 0 (0x2B # cs) = None"
      by (simp add: to_digit_def in_range_def)
    have bounded: "radix_digits 16 0 ds = Some n \<longleftrightarrow> digits_value 16 0 ds = Some n \<and> n \<le> usize_max"
      for ds
      by (auto simp: radix_digits_eq_value split: option.split)
    show ?thesis
      using Cons plus
      by (cases "c = 0x2B")
         (auto simp: usize_from_str_radix_def bounded Let_def
               simp del: radix_digits.simps digits_value.simps)
  qed
  then show ?thesis
    by (auto simp: chunk_size_def size_line_def from_utf8_def hd_split_on)
qed

lemma trailers_complete_iff: "trailers_complete t \<longleftrightarrow> trailer_section t"
  by (auto simp: trailers_complete_def trailer_section_def window_exists_iff
        starts_with_iff_prefix prefix_def)

lemma first_line_position:
  "first_line l \<Longrightarrow> position_window crlf (l @ 0x0D # 0x0A # w) = Some (length l)"
  using position_window_append [of crlf "l @ crlf" "length l" w]
  by (simp add: first_line_def)

lemma position_first_line:
  assumes "position_window crlf w = Some i"
  shows "first_line (take i w)"
proof -
  have split: "w = take i w @ crlf @ drop (i + 2) w"
    using position_window_split [OF assms] by simp
  have len: "length (take i w) = i"
    using position_window_Some [OF assms] by simp
  have None_before: "position_window crlf (take i w @ crlf) \<noteq> None"
  proof
    assume n: "position_window crlf (take i w @ crlf) = None"
    have "position_window pat (xs @ pat) \<noteq> None" for pat xs :: bytes
      by (induction xs) (auto simp: starts_with_def split: list.splits; cases pat; simp add: starts_with_def)+
    with n show False by blast
  qed
  then obtain j where j: "position_window crlf (take i w @ crlf) = Some j"
    by auto
  from position_window_append [OF j, of "drop (i + 2) w"] split
  have "position_window crlf w = Some j" by simp
  with assms j len show ?thesis
    by (simp add: first_line_def)
qed

lemma no_cr_first_line: "0x0D \<notin> set l \<Longrightarrow> first_line l"
proof -
  assume "0x0D \<notin> set l"
  then have "position_window crlf (l @ crlf) = Some (length l)"
    by (induction l) (auto simp: starts_with_def)
  then show ?thesis by (simp add: first_line_def)
qed

subsection \<open>One turn of the loop\<close>

lemma chunk_loop_no_line:
  "position_window crlf w = None \<Longrightarrow> chunk_loop limit w decoded = Some (decoded, True)"
  by (simp add: chunk_loop.simps)

lemma chunk_loop_bad_size:
  "position_window crlf w = Some i \<Longrightarrow> chunk_size (take i w) = None \<Longrightarrow>
     chunk_loop limit w decoded = Some (decoded, True)"
  by (simp add: chunk_loop.simps)

lemma chunk_loop_last:
  "first_line l \<Longrightarrow> chunk_size l = Some 0 \<Longrightarrow>
     chunk_loop limit (l @ crlf @ t) decoded = Some (decoded, \<not> trailers_complete t)"
  by (subst chunk_loop.simps) (simp add: first_line_position slice_from_def)

text \<open>A chunk with \<open>n > 0\<close>: the loop goes on exactly when the limit leaves room for the whole
  chunk and its CRLF has arrived.\<close>

lemma chunk_loop_cut:
  assumes "first_line l" "chunk_size l = Some n" "0 < n" "length decoded \<le> limit"
    and "limit < length decoded + n \<or> take 2 (drop n rest) \<noteq> crlf \<or> usize_max < n + 2"
  shows "chunk_loop limit (l @ crlf @ rest) decoded =
           Some (decoded @ take (min n (limit - length decoded)) rest, True)"
proof -
  let ?taken = "min (min n (length rest)) (limit - length decoded)"
  have eq: "take ?taken rest = take (min n (limit - length decoded)) rest"
    by (metis min.commute min.left_commute take_all_iff nat_le_linear min.absorb1 min.absorb2 take_take)
  have stop: "?taken < n \<or> get_range n (saturating_add n 2) rest \<noteq> Some crlf"
  proof (cases "limit < length decoded + n")
    case True
    with assms(3,4) show ?thesis by linarith
  next
    case False
    with assms(5) have d: "take 2 (drop n rest) \<noteq> crlf \<or> usize_max < n + 2" by simp
    have "get_range n (saturating_add n 2) rest \<noteq> Some crlf"
    proof
      assume "get_range n (saturating_add n 2) rest = Some crlf"
      then have *: "take (saturating_add n 2 - n) (drop n rest) = crlf"
        by (simp add: get_range_Some_iff)
      then have "2 \<le> saturating_add n 2 - n"
        by (metis length_take length_Cons list.size(3) min.cobounded2 One_nat_def numeral_2_eq_2)
      moreover have "saturating_add n 2 - n \<le> 2"
        using saturating_add_bounds(2) [of n 2] by linarith
      ultimately have two: "saturating_add n 2 - n = 2" by simp
      then have "n + 2 \<le> usize_max"
        using saturating_add_bounds(1) [of n 2] by linarith
      with * d two show False by simp
    qed
    then show ?thesis ..
  qed
  show ?thesis
    using assms(1-4) stop eq
    by (subst chunk_loop.simps)
       (simp add: first_line_position slice_from_def usize_sub_def Let_def)
qed

lemma chunk_loop_data:
  assumes "first_line l" "chunk_size l = Some (length d)" "d \<noteq> []"
    and "length decoded + length d \<le> limit" "length d + 2 \<le> usize_max"
  shows "chunk_loop limit (l @ crlf @ d @ crlf @ w) decoded = chunk_loop limit w (decoded @ d)"
proof -
  have "saturating_add (length d) 2 = length d + 2"
    using assms(5) by (simp add: saturating_add_def)
  then have g: "get_range (length d) (saturating_add (length d) 2) (d @ crlf @ w) = Some crlf"
    by (simp add: get_range_def)
  have m: "min (min (length d) (length (d @ crlf @ w))) (limit - length decoded) = length d"
    using assms(4) by simp
  show ?thesis
    using assms g m
    by (subst chunk_loop.simps)
       (simp add: first_line_position slice_from_def usize_sub_def usize_add_def Let_def)
qed

text \<open>Case analysis on one turn: what the loop's input can look like.\<close>

lemma chunk_loop_cases:
  assumes "length decoded \<le> limit"
  obtains (stop) "chunk_loop limit w decoded = Some (decoded, True)"
    | (last) l t where "w = l @ crlf @ t" "first_line l" "chunk_size l = Some 0"
    | (cut) l n rest where "w = l @ crlf @ rest" "first_line l" "chunk_size l = Some n" "0 < n"
        "limit < length decoded + n \<or> take 2 (drop n rest) \<noteq> crlf \<or> usize_max < n + 2"
    | (data) l d w' where "w = l @ crlf @ d @ crlf @ w'" "first_line l"
        "chunk_size l = Some (length d)" "d \<noteq> []" "length decoded + length d \<le> limit"
        "length d + 2 \<le> usize_max"
proof (cases "position_window crlf w")
  case None
  then show ?thesis by (intro stop chunk_loop_no_line)
next
  case (Some i)
  show ?thesis
  proof (cases "chunk_size (take i w)")
    case None
    with Some show ?thesis by (intro stop chunk_loop_bad_size)
  next
    case (Some n)
    note size = this
    let ?l = "take i w" and ?rest = "drop (i + 2) w"
    have w: "w = ?l @ crlf @ ?rest"
      using position_window_split [OF \<open>position_window crlf w = Some i\<close>] by simp
    have fl: "first_line ?l"
      by (rule position_first_line [OF \<open>position_window crlf w = Some i\<close>])
    consider "n = 0"
      | "0 < n" "limit < length decoded + n \<or> take 2 (drop n ?rest) \<noteq> crlf \<or> usize_max < n + 2"
      | "0 < n" "length decoded + n \<le> limit" "take 2 (drop n ?rest) = crlf" "n + 2 \<le> usize_max"
      by linarith
    then show ?thesis
    proof cases
      case 1
      with size fl show ?thesis by (intro last [OF w]) simp_all
    next
      case 2
      with size fl show ?thesis by (intro cut [OF w]) simp_all
    next
      case 3
      have "length (drop n ?rest) \<ge> 2"
        using 3(3) by (metis length_take length_Cons list.size(3) min.cobounded1 One_nat_def numeral_2_eq_2)
      then have n: "length (take n ?rest) = n" by simp
      have "?rest = take n ?rest @ crlf @ drop (n + 2) ?rest"
        using 3(3) by (metis append_take_drop_id drop_drop add.commute)
      with w have "w = ?l @ crlf @ take n ?rest @ crlf @ drop (n + 2) ?rest" by simp
      moreover have "take n ?rest \<noteq> []" using n 3(1) by auto
      ultimately show ?thesis
        using fl size n 3 by (intro data [of ?l "take n ?rest" "drop (n + 2) ?rest"]) simp_all
    qed
  qed
qed


subsection \<open>The decoder against the specification\<close>

lemma chunk_loop_total:
  assumes "length decoded \<le> limit"
  shows "\<exists>b f. chunk_loop limit w decoded = Some (decoded @ b, f) \<and> length (decoded @ b) \<le> limit"
  using assms
proof (induction w arbitrary: decoded rule: length_induct)
  case (1 w)
  from "1.prems" show ?case
  proof (cases rule: chunk_loop_cases [where w = w])
    case stop
    with "1.prems" show ?thesis by auto
  next
    case (last l t)
    with "1.prems" show ?thesis by (simp add: chunk_loop_last del: append.simps append_Cons)
  next
    case (cut l n rest)
    have "length (decoded @ take (min n (limit - length decoded)) rest) \<le> limit"
      using "1.prems" by simp
    with chunk_loop_cut [OF cut(2-4) "1.prems" cut(5)] cut(1) show ?thesis by blast
  next
    case (data l d w')
    have "length w' < length w" using data(1) by simp
    moreover have "length (decoded @ d) \<le> limit" using data(5) by simp
    ultimately obtain b f where
      "chunk_loop limit w' (decoded @ d) = Some ((decoded @ d) @ b, f)"
      "length ((decoded @ d) @ b) \<le> limit"
      using "1.IH" by blast
    moreover have "chunk_loop limit w decoded = chunk_loop limit w' (decoded @ d)"
      unfolding data(1) by (rule chunk_loop_data [OF data(2-6)])
    ultimately show ?thesis by auto
  qed
qed

text \<open>A complete encoding is decoded to its entity, cut at the limit, and flagged exactly when
  the limit cut it.\<close>

lemma chunk_loop_entity:
  assumes "chunked_entity w e" "length w \<le> isize_max" "length decoded \<le> limit"
  shows "chunk_loop limit w decoded =
           Some (decoded @ take (limit - length decoded) e, limit < length decoded + length e)"
  using assms
proof (induction arbitrary: decoded rule: chunked_entity.induct)
  case (last_chunk l t)
  then show ?case
    by (simp add: chunk_loop_last chunk_size_iff trailers_complete_iff del: append_Cons)
next
  case (data_chunk l d w e)
  note line = data_chunk.hyps(1,2) [folded chunk_size_iff]
  show ?case
  proof (cases "limit < length decoded + length d")
    case True
    with data_chunk.hyps data_chunk.prems
      chunk_loop_cut [OF line _ data_chunk.prems(2), of "d @ crlf @ w"]
    show ?thesis by (simp del: append_Cons)
  next
    case False
    have "length d + 2 \<le> usize_max"
      using data_chunk.prems(1) by (simp add: isize_max_def usize_max_def)
    with False line data_chunk.hyps(3)
    have "chunk_loop limit (l @ crlf @ d @ crlf @ w) decoded = chunk_loop limit w (decoded @ d)"
      by (intro chunk_loop_data) simp_all
    also have "\<dots> = Some ((decoded @ d) @ take (limit - length (decoded @ d)) e,
                       limit < length (decoded @ d) + length e)"
      using data_chunk.prems False by (intro data_chunk.IH) simp_all
    finally show ?thesis
      using False by (simp add: add.assoc del: append_Cons)
  qed
qed

text \<open>Whatever is returned unflagged is the whole entity of the wire bytes.\<close>

lemma chunk_loop_sound:
  assumes "chunk_loop limit w decoded = Some (b, False)" "length decoded \<le> limit"
  shows "\<exists>e. b = decoded @ e \<and> chunked_entity w e"
  using assms
proof (induction w arbitrary: decoded rule: length_induct)
  case (1 w)
  from "1.prems"(2) show ?case
  proof (cases rule: chunk_loop_cases [where w = w])
    case stop
    with "1.prems" show ?thesis by simp
  next
    case (last l t)
    have "chunk_loop limit w decoded = Some (decoded, \<not> trailers_complete t)"
      unfolding last(1) by (rule chunk_loop_last [OF last(2,3)])
    with "1.prems"(1) have "b = decoded" "trailers_complete t" by simp_all
    moreover have "chunked_entity w []"
      unfolding last(1)
      using last(2,3) \<open>trailers_complete t\<close>
      by (intro last_chunk) (simp_all add: chunk_size_iff trailers_complete_iff)
    ultimately show ?thesis by simp
  next
    case (cut l n rest)
    from chunk_loop_cut [OF cut(2-4) "1.prems"(2) cut(5)] "1.prems"(1) cut(1)
    show ?thesis by simp
  next
    case (data l d w')
    have "length w' < length w" using data(1) by simp
    moreover have "chunk_loop limit w' (decoded @ d) = Some (b, False)"
      using "1.prems"(1) chunk_loop_data [OF data(2-6)] data(1) by simp
    moreover have "length (decoded @ d) \<le> limit" using data(5) by simp
    ultimately obtain e where "b = (decoded @ d) @ e" "chunked_entity w' e"
      using "1.IH" by blast
    moreover from this have "chunked_entity w (d @ e)"
      unfolding data(1) by (intro data_chunk data(2,4) data(3) [unfolded chunk_size_iff])
    ultimately show ?thesis by auto
  qed
qed

text \<open>The bytes captured so far of a longer response decode to a prefix of its entity, and to
  all of it when unflagged.\<close>

lemma chunked_entity_split:
  assumes "chunked_entity w e" "position_window crlf w = Some i" "chunk_size (take i w) = Some n"
  shows "\<exists>t. w = take i w @ crlf @ t \<and> n \<le> length e \<and> take n t = take n e \<and>
           (0 < n \<longrightarrow> take 2 (drop n t) = crlf \<and> chunked_entity (drop (n + 2) t) (drop n e)) \<and>
           (n = 0 \<longrightarrow> e = [])"
  using assms
proof (cases rule: chunked_entity.cases)
  case (last_chunk l t)
  then have "i = length l"
    using assms(2) first_line_position by auto
  with last_chunk assms(3) show ?thesis by (auto simp flip: chunk_size_iff)
next
  case (data_chunk l d w' e')
  then have "i = length l"
    using assms(2) first_line_position by auto
  with data_chunk assms(3) show ?thesis by (auto simp flip: chunk_size_iff)
qed

lemma chunk_loop_prefix:
  assumes "chunked_entity (w @ x) e" "length decoded \<le> limit"
  shows "\<exists>b f. chunk_loop limit w decoded = Some (decoded @ b, f) \<and> prefix b e \<and> (f \<or> b = e)"
  using assms
proof (induction w arbitrary: decoded e rule: length_induct)
  case (1 w)
  from "1.prems"(2) show ?case
  proof (cases rule: chunk_loop_cases [where w = w])
    case stop
    then show ?thesis by auto
  next
    case (last l t)
    have p: "position_window crlf (w @ x) = Some (length l)" "take (length l) (w @ x) = l"
      using last(1) first_line_position [OF last(2), of "t @ x"] by simp_all
    from chunked_entity_split [OF "1.prems"(1) p(1)] p(2) last(3) have "e = []" by auto
    moreover have "chunk_loop limit w decoded = Some (decoded, \<not> trailers_complete t)"
      unfolding last(1) by (rule chunk_loop_last [OF last(2,3)])
    ultimately show ?thesis by simp
  next
    case (cut l n rest)
    have p: "position_window crlf (w @ x) = Some (length l)" "take (length l) (w @ x) = l"
      using cut(1) first_line_position [OF cut(2), of "rest @ x"] by simp_all
    from chunked_entity_split [OF "1.prems"(1) p(1)] p(2) cut(3)
    have pre: "take n (rest @ x) = take n e" "n \<le> length e"
      using cut(1) by auto
    have "prefix (take (min n (limit - length decoded)) rest) (take n (rest @ x))"
      by (auto simp: take_is_prefix prefix_def)
         (metis append_take_drop_id min.commute take_take append.assoc)
    with pre have "prefix (take (min n (limit - length decoded)) rest) e"
      by (metis prefix_order.trans take_is_prefix)
    with chunk_loop_cut [OF cut(2-4) "1.prems"(2) cut(5)] cut(1) show ?thesis by blast
  next
    case (data l d w')
    have p: "position_window crlf (w @ x) = Some (length l)" "take (length l) (w @ x) = l"
      using data(1) first_line_position [OF data(2), of "d @ crlf @ w' @ x"] by simp_all
    from chunked_entity_split [OF "1.prems"(1) p(1)] p(2) data(1,3,4)
    have e: "d = take (length d) e" "chunked_entity (w' @ x) (drop (length d) e)"
      by auto
    have "length w' < length w" using data(1) by simp
    moreover have "length (decoded @ d) \<le> limit" using data(5) by simp
    ultimately obtain b f where IH:
      "chunk_loop limit w' (decoded @ d) = Some ((decoded @ d) @ b, f)"
      "prefix b (drop (length d) e)" "f \<or> b = drop (length d) e"
      using "1.IH" e(2) by blast
    have "chunk_loop limit w decoded = chunk_loop limit w' (decoded @ d)"
      unfolding data(1) by (rule chunk_loop_data [OF data(2-6)])
    moreover have "prefix (d @ b) e" "f \<or> d @ b = e"
      using IH(2,3) e(1) by (metis append_take_drop_id same_prefix_prefix)+
    ultimately show ?thesis using IH(1) by auto
  qed
qed


subsection \<open>A chunked encoder, as the peer would write it\<close>

definition hex_digit :: "nat \<Rightarrow> u8" where
  "hex_digit d = (if d < 10 then of_nat (0x30 + d) else of_nat (0x57 + d))"

fun to_hex :: "nat \<Rightarrow> bytes" where
  "to_hex n = (if n < 16 then [hex_digit n] else to_hex (n div 16) @ [hex_digit (n mod 16)])"

declare to_hex.simps [simp del]

text \<open>Non-empty chunks, then the last chunk and an empty trailer section.\<close>

fun encode_chunks :: "bytes list \<Rightarrow> bytes" where
  "encode_chunks [] = to_hex 0 @ crlf @ crlf"
| "encode_chunks (d # ds) = to_hex (length d) @ crlf @ d @ crlf @ encode_chunks ds"

lemma hex_digit_cases:
  "d < 16 \<Longrightarrow> hex_digit d \<in> set (ascii ''0123456789abcdef'')
     \<and> to_digit 16 (hex_digit d) = Some d"
proof -
  assume "d < 16"
  then have "d = 0 \<or> d = 1 \<or> d = 2 \<or> d = 3 \<or> d = 4 \<or> d = 5 \<or> d = 6 \<or> d = 7 \<or>
             d = 8 \<or> d = 9 \<or> d = 10 \<or> d = 11 \<or> d = 12 \<or> d = 13 \<or> d = 14 \<or> d = 15"
    by arith
  then show ?thesis
    by (elim disjE) (simp_all add: hex_digit_def to_digit_def in_range_def byte_of_def)
qed

lemma to_hex_chars: "set (to_hex n) \<subseteq> set (ascii ''0123456789abcdef'')"
proof (induction n rule: to_hex.induct)
  case (1 n)
  then show ?case
    using hex_digit_cases [of n] hex_digit_cases [of "n mod 16"]
    by (subst to_hex.simps) (auto simp del: list.map)
qed

lemma to_hex_not_Nil [simp]: "to_hex n \<noteq> []"
  by (subst to_hex.simps) simp

lemma digits_value_append:
  "digits_value r acc (xs @ ys) =
     (case digits_value r acc xs of None \<Rightarrow> None | Some a \<Rightarrow> digits_value r a ys)"
  by (induction xs arbitrary: acc) (auto split: option.splits)

lemma digits_value_to_hex: "digits_value 16 0 (to_hex n) = Some n"
proof (induction n rule: to_hex.induct)
  case (1 n)
  show ?case
  proof (cases "n < 16")
    case True
    then show ?thesis
      using hex_digit_cases [of n] by (subst to_hex.simps) simp
  next
    case False
    then have "digits_value 16 0 (to_hex (n div 16)) = Some (n div 16)"
      by (rule "1.IH")
    with False show ?thesis
      using hex_digit_cases [of "n mod 16"]
      by (subst to_hex.simps) (simp add: digits_value_append)
  qed
qed

lemma strip_any_other: "(\<forall>p \<in> set ps. hd p \<noteq> b) \<Longrightarrow> strip_any ps (b # bs) = None"
  by (induction ps) (auto simp: starts_with_iff_prefix prefix_Cons)

lemma hex_chars_plain:
  assumes "b \<in> set (ascii ''0123456789abcdef'')"
  shows "0x30 \<le> b" "b < 0x80" "b \<noteq> 0x3B" "b \<noteq> 0x0D" "b \<noteq> 0x2B"
  using assms by (auto simp: byte_of_def)

lemma white_space_ends:
  "\<forall>p \<in> set white_space. (hd p < 0x30 \<or> 0x80 \<le> hd p) \<and> (hd (rev p) < 0x30 \<or> 0x80 \<le> hd (rev p))"
  by (simp add: white_space_def)

lemma strip_any_white_space_hex:
  assumes "b \<in> set (ascii ''0123456789abcdef'')"
  shows "strip_any white_space (b # bs) = None"
    and "strip_any (map rev white_space) (b # bs) = None"
  using hex_chars_plain(1,2) [OF assms] white_space_ends
  by (intro strip_any_other; force)+

lemma trim_to_hex: "trim (to_hex n) = to_hex n"
proof -
  have left: "trim_left white_space (to_hex n) = to_hex n"
    using to_hex_chars [of n]
    by (cases "to_hex n") (auto intro!: trim_left_id strip_any_white_space_hex simp del: list.map)
  have "trim_left (map rev white_space) (rev (to_hex n)) = rev (to_hex n)"
  proof (cases "rev (to_hex n)")
    case (Cons b bs)
    then have "b \<in> set (to_hex n)"
      by (metis list.set_intros(1) set_rev)
    with to_hex_chars [of n] have "b \<in> set (ascii ''0123456789abcdef'')" by blast
    with Cons show ?thesis
      by (simp add: trim_left_id strip_any_white_space_hex del: list.map)
  qed simp
  with left show ?thesis
    by (simp add: trim_def)
qed

lemma chunk_size_to_hex: "n \<le> usize_max \<Longrightarrow> chunk_size (to_hex n) = Some n"
proof -
  assume n: "n \<le> usize_max"
  have chars: "b \<in> set (to_hex n) \<Longrightarrow> b \<in> set (ascii ''0123456789abcdef'')" for b
    using to_hex_chars by blast
  have "utf8_valid (to_hex n)"
    by (rule utf8_valid_ascii) (blast dest: chars hex_chars_plain(2))
  moreover have "hd (split_on 0x3B (to_hex n)) = to_hex n"
    by (simp only: hd_split_on takeWhile_eq_all_conv) (blast dest: chars hex_chars_plain(3))
  moreover have "hd (to_hex n) \<noteq> 0x2B"
    using hex_chars_plain(5) [OF chars [OF hd_in_set [OF to_hex_not_Nil]]] .
  moreover have "radix_digits 16 0 (to_hex n) = Some n"
    using n by (simp add: radix_digits_eq_value digits_value_to_hex)
  ultimately show ?thesis
    by (simp add: chunk_size_def from_utf8_def trim_to_hex usize_from_str_radix_def)
qed

lemma size_line_to_hex: "n \<le> usize_max \<Longrightarrow> size_line (to_hex n) n"
  by (simp flip: chunk_size_iff add: chunk_size_to_hex)

lemma first_line_to_hex: "first_line (to_hex n)"
  by (rule no_cr_first_line) (meson hex_chars_plain(4) subsetD to_hex_chars)

lemma chunked_entity_encode:
  "[] \<notin> set ds \<Longrightarrow> length (concat ds) \<le> usize_max \<Longrightarrow> chunked_entity (encode_chunks ds) (concat ds)"
proof (induction ds)
  case Nil
  have "chunked_entity (to_hex 0 @ crlf @ crlf) []"
    by (rule last_chunk [OF first_line_to_hex size_line_to_hex])
       (simp_all add: trailer_section_def)
  then show ?case by simp
next
  case (Cons d ds)
  then have "chunked_entity (to_hex (length d) @ crlf @ d @ crlf @ encode_chunks ds) (d @ concat ds)"
    by (intro data_chunk first_line_to_hex size_line_to_hex) auto
  then show ?case by simp
qed


subsection \<open>Properties of handshake_body\<close>

definition has_entity :: "http_api \<Rightarrow> hs_response \<Rightarrow> bool" where
  "has_entity api resp \<longleftrightarrow>
     \<not> status_is_informational api (hs_status resp) \<and> hs_status resp \<notin> {204, 304}"

lemma handshake_body_chunked:
  "has_entity api resp \<Longrightarrow> is_chunked api resp \<Longrightarrow> hs_captured resp = Some wire \<Longrightarrow>
     handshake_body api resp limit = chunk_loop limit wire []"
  by (simp add: handshake_body_def has_entity_def)

text \<open>A concrete instance of the http crate's accessors and of a rejected upgrade.\<close>

definition sample_http_api :: http_api where
  "sample_http_api =
     \<lparr>status_is_informational = (\<lambda>s. 100 \<le> s \<and> s < 200),
      header_get = map_of,
      header_to_str = (\<lambda>v. if list_all (\<lambda>b. b = 9 \<or> in_range 0x20 0x7E b) v then Some v else None)\<rparr>"

definition sample_rejection :: "bytes \<Rightarrow> hs_response" where
  "sample_rejection wire =
     \<lparr>hs_status = 403,
      hs_headers = [(''transfer-encoding'', ascii ''gzip, Chunked'')],
      hs_captured = Some wire\<rparr>"

lemma sample_rejection_chunked: "is_chunked sample_http_api (sample_rejection wire)"
  by code_simp

lemma sample_rejection_entity: "has_entity sample_http_api (sample_rejection wire)"
  by (simp add: has_entity_def sample_http_api_def sample_rejection_def)

lemma sample_rejection_captured: "hs_captured (sample_rejection wire) = Some wire"
  by (simp add: sample_rejection_def)

abbreviation sample_wire :: bytes where
  "sample_wire \<equiv> encode_chunks [ascii ''ab'', ascii ''cde'']"

lemma sample_wire_entity: "chunked_entity sample_wire (ascii ''abcde'')"
  using chunked_entity_encode [of "[ascii ''ab'', ascii ''cde'']"]
  by (simp add: usize_max_def)

lemma sample_wire_length: "length sample_wire \<le> isize_max"
  by (simp add: to_hex.simps isize_max_def)

lemma handshake_body_bounded:
  "\<exists>b f. handshake_body api resp limit = Some (b, f) \<and> length b \<le> limit"
proof (cases "is_chunked api resp")
  case True
  then show ?thesis
    using chunk_loop_total [of "[]" limit]
    by (auto simp: handshake_body_def Let_def split: option.split)
next
  case False
  then show ?thesis
    by (auto simp: handshake_body_def Let_def)
qed

text \<open>
  C8. For every response and every limit, the function returns: none of its slice ranges is out
  of bounds, neither \<open>limit - decoded.len()\<close> nor \<open>size + 2\<close> leaves \<open>usize\<close>, the loop ends, and
  the body it returns is never longer than the limit.
\<close>

theorem handshake_body_total:
  "\<exists>b f. handshake_body api resp limit = Some (b, f) \<and> length b \<le> limit"
  by (rule handshake_body_bounded)

text \<open>
  C7. For a chunked response, the body comes unflagged exactly when the captured bytes are a
  complete chunked encoding of it and it fits the limit: an incomplete tail is never reported as
  the entire entity, and a complete one always is.
\<close>

theorem handshake_body_unflagged_iff:
  assumes "has_entity api resp" "is_chunked api resp"
    and "hs_captured resp = Some wire" "length wire \<le> isize_max"
  shows "handshake_body api resp limit = Some (b, False) \<longleftrightarrow>
           chunked_entity wire b \<and> length b \<le> limit"
proof
  assume "handshake_body api resp limit = Some (b, False)"
  then have loop: "chunk_loop limit wire [] = Some (b, False)"
    using handshake_body_chunked [OF assms(1-3)] by simp
  then have "chunked_entity wire b"
    using chunk_loop_sound by fastforce
  with loop chunk_loop_total [of "[]" limit wire] show "chunked_entity wire b \<and> length b \<le> limit"
    by auto
next
  assume "chunked_entity wire b \<and> length b \<le> limit"
  then show "handshake_body api resp limit = Some (b, False)"
    using chunk_loop_entity [of wire b "[]" limit] handshake_body_chunked [OF assms(1-3)] assms(4)
    by simp
qed

theorem handshake_body_unflagged_iff_witness:
  "handshake_body sample_http_api (sample_rejection sample_wire) 8 = Some (ascii ''abcde'', False)"
  using handshake_body_unflagged_iff [OF sample_rejection_entity sample_rejection_chunked
      sample_rejection_captured sample_wire_length, of 8 "ascii ''abcde''"] sample_wire_entity
  by simp

text \<open>
  Decoding a complete chunked response gives the first \<open>limit\<close> bytes of the peer's entity,
  flagged truncated exactly when the limit cut something off.
\<close>

theorem handshake_body_limit:
  assumes "has_entity api resp" "is_chunked api resp"
    and "hs_captured resp = Some (encode_chunks chunks)" "[] \<notin> set chunks"
    and "length (encode_chunks chunks) \<le> isize_max" "length (concat chunks) \<le> usize_max"
  shows "handshake_body api resp limit =
           Some (take limit (concat chunks), limit < length (concat chunks))"
  using chunk_loop_entity [OF chunked_entity_encode [OF assms(4,6)] assms(5), of "[]" limit]
    handshake_body_chunked [OF assms(1-3)]
  by simp

theorem handshake_body_limit_witness:
  "handshake_body sample_http_api (sample_rejection sample_wire) 3 = Some (ascii ''abc'', True)"
  using handshake_body_limit [OF sample_rejection_entity sample_rejection_chunked
      sample_rejection_captured _ sample_wire_length, of 3]
  by (simp add: usize_max_def)

text \<open>
  C33. Whatever part of a valid chunked response has been captured, the decoded bytes are a
  prefix of the peer's entity (chunk framing never leaks into them), and all of it if unflagged.
\<close>

theorem handshake_body_captured_prefix:
  assumes "has_entity api resp" "is_chunked api resp"
    and "hs_captured resp = Some wire" "chunked_entity (wire @ unread) entity"
  shows "\<exists>b f. handshake_body api resp limit = Some (b, f) \<and> prefix b entity \<and> (f \<or> b = entity)"
  using chunk_loop_prefix [OF assms(4), of "[]" limit] handshake_body_chunked [OF assms(1-3)]
  by simp

theorem handshake_body_captured_prefix_witness:
  "\<exists>b f. handshake_body sample_http_api (sample_rejection (take 9 sample_wire)) 64 = Some (b, f)
     \<and> prefix b (ascii ''abcde'')"
proof -
  have "chunked_entity (take 9 sample_wire @ drop 9 sample_wire) (ascii ''abcde'')"
    using sample_wire_entity by (simp only: append_take_drop_id)
  from handshake_body_captured_prefix [OF sample_rejection_entity sample_rejection_chunked
      sample_rejection_captured this, of 64]
  show ?thesis by blast
qed

text \<open>
  Without chunk framing the body is what was captured, up to \<open>Content-Length\<close> and the limit;
  it is unflagged exactly when a declared length was known and that many bytes are returned.
\<close>

theorem handshake_body_plain:
  assumes "has_entity api resp" "\<not> is_chunked api resp" "hs_captured resp = Some body"
  shows "\<exists>b f. handshake_body api resp limit = Some (b, f) \<and> prefix b body \<and>
           (\<not> f \<longleftrightarrow> Option.bind (header_str api resp ''content-length'') parse_usize
                       = Some (length b))"
proof (cases "Option.bind (header_str api resp ''content-length'') parse_usize")
  case None
  with assms show ?thesis
    by (auto simp: handshake_body_def has_entity_def Let_def take_is_prefix)
next
  case (Some n)
  then have eq: "handshake_body api resp limit =
      Some (take (min (min (length body) n) limit) body, min (min (length body) n) limit < n)"
    using assms by (simp add: handshake_body_def has_entity_def Let_def)
  moreover have "min (min (length body) n) limit < n \<longleftrightarrow>
      length (take (min (min (length body) n) limit) body) \<noteq> n"
    by simp linarith
  ultimately show ?thesis
    using Some by (auto simp: take_is_prefix)
qed

theorem handshake_body_plain_witness:
  "\<exists>b f. handshake_body sample_http_api
           \<lparr>hs_status = 429, hs_headers = [], hs_captured = Some [0, 255]\<rparr> 4 = Some (b, f)
     \<and> prefix b [0, 255]"
proof -
  let ?r = "\<lparr>hs_status = 429, hs_headers = [], hs_captured = Some [0, 255]\<rparr>"
  have "has_entity sample_http_api ?r" "\<not> is_chunked sample_http_api ?r"
    by (simp_all add: has_entity_def is_chunked_def header_str_def sample_http_api_def)
  from handshake_body_plain [OF this, of "[0, 255]" 4] show ?thesis by auto
qed

end
