(* ===== verification/Http_Types.thy ===== *)
theory Http_Types
  imports Bridge_Runtime
begin

text \<open>
  The values the HTTP client handles (\<open>rust/src/http_client.rs\<close>) and the crates it calls: URLs,
  requests and responses as reqwest and the SDK show them through the accessors the code uses, the
  proxy policy and \<open>parse_proxy\<close>, which the WebSocket client shares. A crate's function is a field
  of an API record, a parameter of every definition that calls it.
\<close>

subsection \<open>URLs and proxies\<close>

text \<open>\<open>url::Url\<close> after parsing: its text and its parts.\<close>

record url =
  url_text :: string
  url_scheme :: string
  url_host :: "string option"
  url_port :: "nat option"
  url_path :: string
  url_query :: "string option"
  url_fragment :: "string option"

text \<open>\<open>reqwest::Proxy\<close>: every request through the URL, and the exceptions from that.\<close>

record proxy =
  proxy_target :: url
  proxy_except :: "string list"

definition http_scheme :: "url \<Rightarrow> bool" where
  "http_scheme u \<longleftrightarrow> url_scheme u = ''http'' \<or> url_scheme u = ''https''"

record url_api =
  url_parse :: "string \<Rightarrow> string + url"
  proxy_all :: "url \<Rightarrow> string + proxy"

definition parse_proxy :: "url_api \<Rightarrow> string \<Rightarrow> bridge_error + proxy" where
  "parse_proxy api v =
     and_then (map_err (\<lambda>_. invalid ''invalid ProxyURL'') (url_parse api v))
       (\<lambda>u. if url_scheme u \<notin> {''http'', ''https'', ''socks5'', ''socks5h''}
            then Inl (invalid ''ProxyURL must use http, https, socks5 or socks5h'')
            else if url_host u = None \<or> url_port u = Some 0 \<or> url_path u \<notin> {'''', ''/''}
                 \<or> url_query u \<noteq> None \<or> url_fragment u \<noteq> None
            then Inl (invalid ''ProxyURL requires a host and valid port, without a path, query or fragment'')
            else map_err (\<lambda>_. invalid ''invalid ProxyURL'')
                   (case proxy_all api u of Inl e \<Rightarrow> Inl e
                    | Inr p \<Rightarrow> Inr (p\<lparr>proxy_except := []\<rparr>)))"

datatype proxy_policy = RespectSystemProxy | ReqwestDefault

definition parse_policy :: "string \<Rightarrow> bridge_error + proxy_policy" where
  "parse_policy s =
     (if s = '''' \<or> s = ''respect_system_proxy'' then Inr RespectSystemProxy
      else if s = ''reqwest_default'' then Inr ReqwestDefault
      else Inl (invalid ''invalid proxy policy''))"

lemma parse_policy_Inr_iff [result_simps]:
  "parse_policy s = Inr p \<longleftrightarrow>
     (s = '''' \<or> s = ''respect_system_proxy'') \<and> p = RespectSystemProxy \<or>
     s = ''reqwest_default'' \<and> p = ReqwestDefault"
  by (auto simp: parse_policy_def)

text \<open>\<open>HttpClientFactory::new(policy).with_chatgpt_cookies(cookies)\<close>, as what it was made from.\<close>

record factory =
  fac_policy :: proxy_policy
  fac_cookies :: "bytes list"

definition make_factory ::
  "(string \<Rightarrow> string + bytes) \<Rightarrow> proxy_policy \<Rightarrow> string list \<Rightarrow> bridge_error + factory" where
  "make_factory from_str policy cookies =
     and_then (collect_results (map (\<lambda>v. map_err invalid (from_str v)) cookies))
       (\<lambda>vs. Inr \<lparr>fac_policy = policy, fac_cookies = vs\<rparr>)"

subsection \<open>Headers in metadata\<close>

text \<open>
  What the code calls of the http crate and of base64 to take headers out of the metadata a caller
  passes, and to put them into the metadata it returns.
\<close>

record header_codec =
  name_from_bytes :: "string \<Rightarrow> string + string"
  value_from_bytes :: "bytes \<Rightarrow> string + bytes"
  value_from_str :: "string \<Rightarrow> string + bytes"
  b64_decode :: "string \<Rightarrow> string + bytes"
  b64_encode :: "bytes \<Rightarrow> string"

fun decode_headers ::
  "header_codec \<Rightarrow> (string \<times> string) list \<Rightarrow> bridge_error + headers" where
  "decode_headers codec [] = Inr []"
| "decode_headers codec ((name, v) # rest) =
     and_then (map_err invalid (name_from_bytes codec name)) (\<lambda>n.
     and_then (map_err invalid (b64_decode codec v)) (\<lambda>raw.
     and_then (map_err invalid (value_from_bytes codec raw)) (\<lambda>v'.
     and_then (decode_headers codec rest) (\<lambda>hs. Inr ((n, v') # hs)))))"

definition encode_headers :: "header_codec \<Rightarrow> headers \<Rightarrow> (string \<times> string) list" where
  "encode_headers codec hs = map (\<lambda>(n, v). (n, b64_encode codec v)) hs"

lemma decode_headers_Inr_iff:
  "decode_headers codec hs = Inr ds \<longleftrightarrow>
     list_all2 (\<lambda>(name, v) (n, v'). name_from_bytes codec name = Inr n \<and>
        (\<exists>raw. b64_decode codec v = Inr raw \<and> value_from_bytes codec raw = Inr v')) hs ds"
proof (induction codec hs arbitrary: ds rule: decode_headers.induct)
  case (2 codec name v rest)
  show ?case
    by (cases ds) (auto simp: result_simps "2.IH")
qed auto

lemma decode_headers_Inl: "decode_headers codec hs = Inl e \<Longrightarrow> err_kind e = ''invalid_input''"
  by (induction codec hs rule: decode_headers.induct) (auto simp: result_simps)

definition sample_codec :: header_codec where
  "sample_codec =
     \<lparr>name_from_bytes = Inr, value_from_bytes = Inr, value_from_str = (\<lambda>s. Inr (ascii s)),
      b64_decode = (\<lambda>s. Inr (ascii s)), b64_encode = (\<lambda>b. ''b64'')\<rparr>"

subsection \<open>Requests and responses\<close>

datatype request_body = Buffered bytes | BodyStream

text \<open>\<open>reqwest::Request\<close>; durations are milliseconds.\<close>

record request =
  rq_method :: string
  rq_url :: url
  rq_headers :: headers
  rq_version :: string
  rq_timeout :: "nat option"
  rq_body :: "request_body option"

text \<open>A response: its head, and the items its body stream will still yield before it ends.\<close>

type_synonym body_item = "http_error + bytes"

record response =
  rs_status :: nat
  rs_url :: url
  rs_version :: string
  rs_headers :: headers
  rs_content_length :: "nat option"
  rs_items :: "body_item list"

text \<open>What \<open>HttpClient::request(..)...send()\<close> puts on the network.\<close>

record exchange =
  ex_method :: string
  ex_url :: url
  ex_headers :: headers
  ex_timeout :: "nat option"
  ex_body :: "bytes option"

text \<open>The network and the clock, with a state of their own: one exchange at a time. \<open>net_timer n d\<close>: in
  state \<open>n\<close> Tokio's timer for the deadline \<open>d\<close> has ended the wait for the exchange. It is not the
  clock that tells: the exchange is polled first, so one that is ready late may still be served.\<close>

record 'n net_api =
  net_send :: "exchange \<Rightarrow> 'n \<Rightarrow> (http_error + response) \<times> 'n"
  net_now :: "'n \<Rightarrow> nat"
  net_timer :: "'n \<Rightarrow> nat \<Rightarrow> bool"

text \<open>A future that a \<open>select!\<close> polls: it is ready, or it was dropped at an await.\<close>

datatype 'a polled = Completed 'a | Dropped

subsection \<open>Properties of parse_proxy\<close>

text \<open>The proxy URLs the bridge accepts.\<close>

definition plain_proxy_url :: "url \<Rightarrow> bool" where
  "plain_proxy_url u \<longleftrightarrow>
     url_scheme u \<in> {''http'', ''https'', ''socks5'', ''socks5h''} \<and> url_host u \<noteq> None \<and>
     url_port u \<noteq> Some 0 \<and> url_path u \<in> {'''', ''/''} \<and> url_query u = None \<and> url_fragment u = None"

lemma parse_proxy_parsed:
  assumes "url_parse api v = Inr u"
  shows "parse_proxy api v =
     (if plain_proxy_url u then
        (case proxy_all api u of
           Inl e \<Rightarrow> Inl (invalid ''invalid ProxyURL'') | Inr p \<Rightarrow> Inr (p\<lparr>proxy_except := []\<rparr>))
      else Inl (invalid
        (if url_scheme u \<notin> {''http'', ''https'', ''socks5'', ''socks5h''}
         then ''ProxyURL must use http, https, socks5 or socks5h''
         else ''ProxyURL requires a host and valid port, without a path, query or fragment'')))"
  using assms
  by (simp add: parse_proxy_def plain_proxy_url_def split: sum.split del: insert_iff)

lemma parse_proxy_Inr_iff [result_simps]:
  "parse_proxy api v = Inr p \<longleftrightarrow>
     (\<exists>u q. url_parse api v = Inr u \<and> plain_proxy_url u \<and> proxy_all api u = Inr q \<and>
            p = q\<lparr>proxy_except := []\<rparr>)"
proof (cases "url_parse api v")
  case (Inr u)
  show ?thesis
  proof (cases "plain_proxy_url u")
    case True
    with Inr show ?thesis
      by (cases "proxy_all api u") (auto simp: parse_proxy_parsed)
  qed (simp add: Inr parse_proxy_parsed)
qed (simp add: parse_proxy_def)

text \<open>
  \<open>parse_proxy\<close> accepts exactly the proxy URLs with a supported scheme, a host, no zero port,
  no path, query or fragment, that reqwest accepts; it always installs an empty exception list;
  and its error is \<open>invalid_input\<close> with one of three constant messages, so nothing of the URL,
  in particular no password, is in it.
\<close>

theorem parse_proxy_spec:
  "case parse_proxy api v of
     Inr p \<Rightarrow> proxy_except p = [] \<and>
       (\<exists>u q. url_parse api v = Inr u \<and> plain_proxy_url u \<and> proxy_all api u = Inr q \<and>
              p = q\<lparr>proxy_except := []\<rparr>)
   | Inl e \<Rightarrow> err_kind e = ''invalid_input'' \<and> err_details e = None \<and>
       err_message e \<in> {''invalid ProxyURL'', ''ProxyURL must use http, https, socks5 or socks5h'',
         ''ProxyURL requires a host and valid port, without a path, query or fragment''} \<and>
       (\<nexists>u q. url_parse api v = Inr u \<and> plain_proxy_url u \<and> proxy_all api u = Inr q)"
proof (cases "url_parse api v")
  case (Inl e)
  then show ?thesis by (simp add: parse_proxy_def)
next
  case (Inr u)
  show ?thesis
  proof (cases "plain_proxy_url u")
    case True
    with Inr show ?thesis
      by (cases "proxy_all api u") (simp_all add: parse_proxy_parsed)
  next
    case False
    with Inr show ?thesis
      by (cases "url_scheme u \<in> {''http'', ''https'', ''socks5'', ''socks5h''}")
         (simp_all only: parse_proxy_parsed if_False if_True sum.case invalid_sel HOL.simp_thms
            list.simps insert_iff, simp_all add: invalid_def)
  qed
qed

end
