(* ===== verification/Http_Redirect.thy ===== *)
theory Http_Redirect
  imports Http_Types
begin

text \<open>
  \<open>send_fixed\<close> of \<open>rust/src/http_client.rs\<close>: a request over a fixed route, following redirects in
  the bridge itself, one fresh SDK send per hop, under one deadline for all hops. The redirect
  rules are the SDK's module \<open>route_aware_redirect\<close> (a submodule), a parameter here.
\<close>

subsection \<open>The loop\<close>

record redirect_api =
  is_redirect :: "nat \<Rightarrow> bool"
  redirect_url :: "response \<Rightarrow> url option"
  redirect_request ::
    "nat \<Rightarrow> string \<Rightarrow> headers \<Rightarrow> string \<Rightarrow> nat option \<Rightarrow> request option \<Rightarrow> url \<Rightarrow> request option"
  remove_sensitive_headers :: "headers \<Rightarrow> url \<Rightarrow> url \<Rightarrow> headers"
  insert_referer :: "headers \<Rightarrow> url \<Rightarrow> url \<Rightarrow> headers"
  max_redirects :: nat
  try_clone :: "request \<Rightarrow> request option"

definition request_timed_out :: bridge_error where
  "request_timed_out = bridge_error_new ''timeout'' ''request timed out''"

text \<open>The builder of one hop: method, URL and headers of the request, what is left of the
  deadline, and the body, which must be in memory.\<close>

definition hop_exchange :: "request \<Rightarrow> nat option \<Rightarrow> bridge_error + exchange" where
  "hop_exchange req remaining =
     (case rq_body req of
        Some BodyStream \<Rightarrow> Inl (bridge_error_new ''internal'' ''unbuffered bridge request'')
      | body \<Rightarrow>
          Inr \<lparr>ex_method = rq_method req, ex_url = rq_url req, ex_headers = rq_headers req,
               ex_timeout = remaining,
               ex_body = (case body of Some (Buffered bs) \<Rightarrow> Some bs | _ \<Rightarrow> None)\<rparr>)"

text \<open>What the code does with a response: return it, fail, or send the next request.\<close>

datatype hop_decision = Deliver response | Refuse bridge_error | Follow request

definition after_hop ::
  "redirect_api \<Rightarrow> bool \<Rightarrow> nat \<Rightarrow> nat option \<Rightarrow> request \<Rightarrow> response \<Rightarrow> hop_decision" where
  "after_hop ra follow hops remaining req resp =
     (if \<not> follow \<or> \<not> is_redirect ra (rs_status resp) then Deliver resp
      else
        (case redirect_url ra resp of
           None \<Rightarrow> Deliver resp
         | Some next_url \<Rightarrow>
             if \<not> http_scheme next_url then
               Refuse (bridge_error_new ''request'' ''redirect target must use http or https'')
             else if max_redirects ra \<le> hops then
               Refuse (bridge_error_new ''request'' ''too many redirects'')
             else
               (case redirect_request ra (rs_status resp) (rq_method req) (rq_headers req)
                       (rq_version req) remaining (try_clone ra req) next_url of
                  None \<Rightarrow> Deliver resp
                | Some next \<Rightarrow>
                    Follow (next\<lparr>rq_headers :=
                      insert_referer ra
                        (remove_sensitive_headers ra (rq_headers next) (rq_url req) (rq_url next))
                        (rq_url req) (rq_url next)\<rparr>))))"

lemma after_hop_Follow_hops: "after_hop ra follow hops remaining req resp = Follow next \<Longrightarrow> hops < max_redirects ra"
  by (auto simp: after_hop_def split: if_splits option.splits)

text \<open>
  The loop under \<open>timeout_at\<close> and \<open>select!\<close>: at the await of an exchange the future is dropped if
  the call is cancelled there (\<open>fire\<close> counts the exchanges), and times out if the timer of the
  deadline is served before the exchange.
\<close>

definition past_deadline :: "'n net_api \<Rightarrow> nat option \<Rightarrow> 'n \<Rightarrow> bool" where
  "past_deadline net deadline n \<longleftrightarrow> (case deadline of None \<Rightarrow> False | Some d \<Rightarrow> net_timer net n d)"

function send_hops ::
  "redirect_api \<Rightarrow> 'n net_api \<Rightarrow> nat option \<Rightarrow> bool \<Rightarrow> nat option \<Rightarrow> nat \<Rightarrow> request \<Rightarrow> 'n \<Rightarrow>
     (bridge_error + response) polled \<times> 'n" where
  "send_hops ra net deadline follow fire hops req n =
     (let remaining = map_option (\<lambda>d. d - net_now net n) deadline in
      case hop_exchange req remaining of
        Inl e \<Rightarrow> (Completed (Inl e), n)
      | Inr ex \<Rightarrow>
          (let (result, n') = net_send net ex n in
           if fire = Some hops then (Dropped, n')
           else if past_deadline net deadline n'
           then (Completed (Inl request_timed_out), n')
           else
             (case result of
                Inl err \<Rightarrow> (Completed (Inl (bridge_error_of_http err)), n')
              | Inr resp \<Rightarrow>
                  (case after_hop ra follow hops remaining req resp of
                     Deliver r \<Rightarrow> (Completed (Inr r), n')
                   | Refuse e \<Rightarrow> (Completed (Inl e), n')
                   | Follow next \<Rightarrow> send_hops ra net deadline follow fire (Suc hops) next n'))))"
  by pat_completeness auto
termination
  by (relation "measure (\<lambda>(ra, net, deadline, follow, fire, hops, req, n). Suc (max_redirects ra) - hops)")
     (auto dest: after_hop_Follow_hops)

declare send_hops.simps [simp del]

definition send_fixed ::
  "redirect_api \<Rightarrow> 'n net_api \<Rightarrow> nat option \<Rightarrow> request \<Rightarrow> bool \<Rightarrow> 'n \<Rightarrow>
     (bridge_error + response) polled \<times> 'n" where
  "send_fixed ra net fire req follow n =
     (let deadline = map_option (\<lambda>t. net_now net n + t) (rq_timeout req)
      in send_hops ra net deadline follow fire 0 req n)"

text \<open>The ways one turn of the loop can go.\<close>

lemma send_hops_unbuffered:
  "hop_exchange req (map_option (\<lambda>d. d - net_now net n) deadline) = Inl e \<Longrightarrow>
     send_hops ra net deadline follow fire hops req n = (Completed (Inl e), n)"
  by (simp add: send_hops.simps)

lemma send_hops_cases [consumes 2]:
  assumes "hop_exchange req (map_option (\<lambda>d. d - net_now net n) deadline) = Inr ex"
    and "net_send net ex n = (result, n')"
  obtains
    (again) resp nxt where "fire \<noteq> Some hops" "\<not> past_deadline net deadline n'"
      "result = Inr resp"
      "after_hop ra follow hops (map_option (\<lambda>d. d - net_now net n) deadline) req resp = Follow nxt"
      "send_hops ra net deadline follow fire hops req n =
         send_hops ra net deadline follow fire (Suc hops) nxt n'"
  | (dropped) "fire = Some hops" "send_hops ra net deadline follow fire hops req n = (Dropped, n')"
  | (late) "past_deadline net deadline n'"
      "send_hops ra net deadline follow fire hops req n = (Completed (Inl request_timed_out), n')"
  | (failed) err where "result = Inl err"
      "send_hops ra net deadline follow fire hops req n = (Completed (Inl (bridge_error_of_http err)), n')"
  | (refused) resp e where "result = Inr resp"
      "after_hop ra follow hops (map_option (\<lambda>d. d - net_now net n) deadline) req resp = Refuse e"
      "send_hops ra net deadline follow fire hops req n = (Completed (Inl e), n')"
  | (delivered) resp r where "\<not> past_deadline net deadline n'" "result = Inr resp"
      "after_hop ra follow hops (map_option (\<lambda>d. d - net_now net n) deadline) req resp = Deliver r"
      "send_hops ra net deadline follow fire hops req n = (Completed (Inr r), n')"
proof -
  note E = send_hops.simps [of ra net deadline follow fire hops req n]
  note eqs = E assms Let_def
  consider (d) "fire = Some hops" | (l) "fire \<noteq> Some hops" "past_deadline net deadline n'"
    | (r) "fire \<noteq> Some hops" "\<not> past_deadline net deadline n'"
    by blast
  then show ?thesis
  proof cases
    case d
    then show ?thesis by (intro dropped d) (subst E, simp add: assms Let_def)
  next
    case l
    then show ?thesis by (intro late) (simp_all add: eqs)
  next
    case r
    show ?thesis
    proof (cases result)
      case (Inl err)
      with r show ?thesis by (intro failed) (simp_all add: eqs)
    next
      case (Inr resp)
      with r show ?thesis
        by (cases "after_hop ra follow hops (map_option (\<lambda>d. d - net_now net n) deadline) req resp")
           (auto simp: eqs intro: delivered refused again)
    qed
  qed
qed

subsection \<open>What goes over the network\<close>

text \<open>A network that also keeps the list of the exchanges, to speak about all of them.\<close>

definition logged :: "'n net_api \<Rightarrow> ('n \<times> exchange list) net_api" where
  "logged net =
     \<lparr>net_send = (\<lambda>ex (n, log). let (r, n') = net_send net ex n in (r, (n', log @ [ex]))),
      net_now = (\<lambda>(n, log). net_now net n), net_timer = (\<lambda>(n, log). net_timer net n)\<rparr>"

lemma logged_now [simp]: "net_now (logged net) (n, log) = net_now net n"
  by (simp add: logged_def)

lemma logged_timer [simp]: "past_deadline (logged net) deadline (n, log) = past_deadline net deadline n"
  by (simp add: past_deadline_def logged_def split: option.split)

lemma logged_send [simp]:
  "net_send (logged net) ex (n, log) = (fst (net_send net ex n), (snd (net_send net ex n), log @ [ex]))"
  by (simp add: logged_def split_beta)

text \<open>The log changes nothing.\<close>

lemma send_hops_logged:
  "send_hops ra net deadline follow fire hops req n =
     map_prod id fst (send_hops ra (logged net) deadline follow fire hops req (n, log))"
proof (induction ra net deadline follow fire hops req n arbitrary: log rule: send_hops.induct)
  case (1 ra net deadline follow fire hops req n)
  let ?rem = "map_option (\<lambda>d. d - net_now net n) deadline"
  note S = send_hops.simps [of ra "logged net" deadline follow fire hops req "(n, log)"]
  show ?case
  proof (cases "hop_exchange req ?rem")
    case (Inl e)
    then show ?thesis by (simp add: send_hops_unbuffered)
  next
    case (Inr ex)
    obtain result n' where send: "net_send net ex n = (result, n')"
      by (cases "net_send net ex n")
    from Inr send show ?thesis
    proof (cases rule: send_hops_cases [where fire = fire and hops = hops and ra = ra and follow = follow])
      case (again resp nxt)
      have "send_hops ra net deadline follow fire (Suc hops) nxt n' =
        map_prod id fst (send_hops ra (logged net) deadline follow fire (Suc hops) nxt (n', log @ [ex]))"
        using "1.IH" [OF refl Inr send [symmetric] refl again(1-4)] .
      with again Inr send show ?thesis by (simp add: S id_def)
    qed (use Inr send in \<open>auto simp: send_hops.simps split: hop_decision.splits\<close>)
  qed
qed

text \<open>Where an exchange comes from: the induction over the log the properties below share.\<close>

definition linked :: "(exchange \<Rightarrow> exchange \<Rightarrow> bool) \<Rightarrow> exchange list \<Rightarrow> bool" where
  "linked R exs \<longleftrightarrow> (\<forall>i. Suc i < length exs \<longrightarrow> R (exs ! i) (exs ! Suc i))"

lemma linked_Cons: "linked R (a # xs) \<longleftrightarrow> linked R xs \<and> (xs \<noteq> [] \<longrightarrow> R a (hd xs))"
  by (cases xs) (auto simp: linked_def nth_Cons split: nat.splits)

text \<open>One hop of the loop, as a relation between a request and the next.\<close>

definition hop_of :: "redirect_api \<Rightarrow> request \<Rightarrow> request \<Rightarrow> bool" where
  "hop_of ra req nxt \<longleftrightarrow>
     (\<exists>hops remaining resp. after_hop ra True hops remaining req resp = Follow nxt)"

text \<open>\<open>sends ra req exs\<close>: the exchanges of a run that starts with \<open>req\<close>.\<close>

inductive sends :: "redirect_api \<Rightarrow> request \<Rightarrow> exchange list \<Rightarrow> bool" for ra where
  no_send: "sends ra req []"
| last_send: "hop_exchange req remaining = Inr ex \<Longrightarrow> sends ra req [ex]"
| next_send: "hop_exchange req remaining = Inr ex \<Longrightarrow> hop_of ra req nxt \<Longrightarrow> sends ra nxt exs \<Longrightarrow>
     sends ra req (ex # exs)"

lemma after_hop_no_follow: "after_hop ra False hops remaining req resp = Deliver resp"
  by (simp add: after_hop_def)

lemma send_hops_sends:
  assumes "send_hops ra (logged net) deadline follow fire hops req (n, log) = (res, (n', log'))"
    and "hops \<le> max_redirects ra"
  shows "\<exists>exs. log' = log @ exs \<and> sends ra req exs \<and> hops + length exs \<le> Suc (max_redirects ra)
           \<and> (follow \<or> length exs \<le> 1)"
  using assms
proof (induction ra "logged net" deadline follow fire hops req "(n, log)" arbitrary: n log
    rule: send_hops.induct)
  case (1 ra deadline follow fire hops req n log)
  let ?rem = "map_option (\<lambda>d. d - net_now net n) deadline"
  show ?case
  proof (cases "hop_exchange req ?rem")
    case (Inl e)
    with 1(2,3) show ?thesis
      by (auto simp: send_hops.simps [of ra] intro: sends.intros)
  next
    case (Inr ex)
    let ?n1 = "snd (net_send net ex n)"
    have ex: "hop_exchange req (map_option (\<lambda>d. d - net_now (logged net) (n, log)) deadline) = Inr ex"
      using Inr by simp
    have send: "net_send (logged net) ex (n, log) = (fst (net_send net ex n), (?n1, log @ [ex]))"
      by simp
    have one: ?thesis if "send_hops ra (logged net) deadline follow fire hops req (n, log) = (x, (?n1, log @ [ex]))"
      for x
      using that Inr 1(2,3) by (intro exI [of _ "[ex]"]) (auto intro: sends.intros)
    from ex send show ?thesis
    proof (cases rule: send_hops_cases [where fire = fire and hops = hops and ra = ra and follow = follow])
      case (again resp nxt)
      have f: follow using again(4) by (cases follow) (simp_all add: after_hop_no_follow)
      have hops: "Suc hops \<le> max_redirects ra"
        using after_hop_Follow_hops [OF again(4)] by simp
      obtain exs where exs: "log' = (log @ [ex]) @ exs" "sends ra nxt exs"
        "Suc hops + length exs \<le> Suc (max_redirects ra)"
        using "1.hyps" [OF refl ex send [symmetric] refl again(1-4)] 1(2) again(5) hops by auto
      have "hop_of ra req nxt"
        using again(4) f unfolding hop_of_def by auto
      with Inr exs have "sends ra req (ex # exs)" by (auto intro: sends.intros)
      with exs f show ?thesis by (intro exI [of _ "ex # exs"]) simp
    qed (rule one, assumption)+
  qed
qed

subsection \<open>What the redirect rules promise\<close>

definition header_names :: "headers \<Rightarrow> string set" where
  "header_names hs = fst ` set hs"

text \<open>
  The documented behaviour of the SDK's rules, for a set of credential-carrying headers and a
  notion of same origin: the next request goes to the redirect's target with no new credential;
  leaving the origin removes every credential; the referer is not one.
\<close>

definition redirect_laws :: "redirect_api \<Rightarrow> string set \<Rightarrow> (url \<Rightarrow> url \<Rightarrow> bool) \<Rightarrow> bool" where
  "redirect_laws ra sensitive same_origin \<longleftrightarrow>
     (\<forall>st m hs v rem c u nxt. redirect_request ra st m hs v rem c u = Some nxt \<longrightarrow>
        rq_url nxt = u \<and>
        (\<forall>h \<in> sensitive. h \<in> header_names (rq_headers nxt) \<longrightarrow> h \<in> header_names hs)) \<and>
     (\<forall>hs a b. \<forall>h \<in> sensitive. h \<in> header_names (remove_sensitive_headers ra hs a b) \<longrightarrow>
        h \<in> header_names hs \<and> same_origin a b) \<and>
     (\<forall>hs a b. \<forall>h \<in> sensitive. h \<in> header_names (insert_referer ra hs a b) \<longrightarrow> h \<in> header_names hs)"

lemma redirect_lawsD:
  assumes "redirect_laws ra sensitive same_origin"
  shows "redirect_request ra st m hs v rem c u = Some nxt \<Longrightarrow> rq_url nxt = u"
    and "redirect_request ra st m hs v rem c u = Some nxt \<Longrightarrow> h \<in> sensitive \<Longrightarrow>
           h \<in> header_names (rq_headers nxt) \<Longrightarrow> h \<in> header_names hs"
    and "h \<in> sensitive \<Longrightarrow> h \<in> header_names (remove_sensitive_headers ra hs a b) \<Longrightarrow>
           h \<in> header_names hs \<and> same_origin a b"
    and "h \<in> sensitive \<Longrightarrow> h \<in> header_names (insert_referer ra hs a b) \<Longrightarrow> h \<in> header_names hs"
  using assms unfolding redirect_laws_def by metis+

lemma after_hop_FollowD:
  assumes "after_hop ra follow hops rem req resp = Follow nxt"
  shows "\<exists>u nx. http_scheme u \<and>
      redirect_request ra (rs_status resp) (rq_method req) (rq_headers req)
        (rq_version req) rem (try_clone ra req) u = Some nx \<and>
      nxt = nx\<lparr>rq_headers := insert_referer ra
              (remove_sensitive_headers ra (rq_headers nx) (rq_url req) (rq_url nx))
              (rq_url req) (rq_url nx)\<rparr>"
  using assms unfolding after_hop_def
  by (simp split: if_split_asm option.split_asm) blast

lemma hop_of_laws:
  assumes "redirect_laws ra sensitive same_origin" "hop_of ra req nxt"
  shows "http_scheme (rq_url nxt)"
    and "h \<in> sensitive \<Longrightarrow> h \<in> header_names (rq_headers nxt) \<Longrightarrow>
           h \<in> header_names (rq_headers req) \<and> same_origin (rq_url req) (rq_url nxt)"
proof -
  obtain hops rem resp where a: "after_hop ra True hops rem req resp = Follow nxt"
    using assms(2) by (auto simp: hop_of_def)
  from after_hop_FollowD [OF this] obtain u nx where u: "http_scheme u"
    and nx: "redirect_request ra (rs_status resp) (rq_method req) (rq_headers req)
               (rq_version req) rem (try_clone ra req) u = Some nx"
    and nxt: "nxt = nx\<lparr>rq_headers := insert_referer ra
               (remove_sensitive_headers ra (rq_headers nx) (rq_url req) (rq_url nx))
               (rq_url req) (rq_url nx)\<rparr>"
    by (elim exE conjE) (rule that)
  note D = redirect_lawsD [OF assms(1)]
  have url: "rq_url nx = u" by (rule D(1) [OF nx])
  with u nxt show "http_scheme (rq_url nxt)" by simp
  assume h: "h \<in> sensitive" "h \<in> header_names (rq_headers nxt)"
  then have "h \<in> header_names (remove_sensitive_headers ra (rq_headers nx) (rq_url req) (rq_url nx))"
    using nxt by (simp add: D(4))
  from D(3) [OF h(1) this] have "h \<in> header_names (rq_headers nx)" "same_origin (rq_url req) (rq_url nx)"
    by simp_all
  with D(2) [OF nx h(1)] nxt show "h \<in> header_names (rq_headers req) \<and> same_origin (rq_url req) (rq_url nxt)"
    by simp
qed

lemma hop_exchange_of:
  "hop_exchange req rem = Inr ex \<Longrightarrow>
     ex_method ex = rq_method req \<and> ex_url ex = rq_url req \<and> ex_headers ex = rq_headers req \<and>
     ex_timeout ex = rem"
  by (auto simp: hop_exchange_def split: option.splits request_body.splits)

lemma sends_first:
  "sends ra req exs \<Longrightarrow> exs \<noteq> [] \<Longrightarrow>
     ex_method (hd exs) = rq_method req \<and> ex_url (hd exs) = rq_url req \<and>
     ex_headers (hd exs) = rq_headers req"
  by (erule sends.cases) (auto dest: hop_exchange_of)

lemma sends_scheme:
  assumes "sends ra req exs" "redirect_laws ra sensitive same_origin"
    and "http_scheme (rq_url req)"
  shows "\<forall>ex \<in> set exs. http_scheme (ex_url ex)"
  using assms
proof (induction rule: sends.induct)
  case (next_send req remaining ex nxt exs)
  then show ?case
    using hop_of_laws(1) [OF next_send.prems(1) next_send.hyps(2)]
    by (auto dest!: hop_exchange_of)
qed (auto dest!: hop_exchange_of)

text \<open>A credential in a later exchange was in every earlier one, and no hop up to it left the origin.\<close>

lemma sends_sensitive:
  assumes "sends ra req exs" "redirect_laws ra sensitive same_origin" "h \<in> sensitive"
    and "i < length exs" "h \<in> header_names (ex_headers (exs ! i))"
  shows "h \<in> header_names (rq_headers req) \<and>
         (\<forall>j < i. same_origin (ex_url (exs ! j)) (ex_url (exs ! Suc j)))"
  using assms
proof (induction arbitrary: i rule: sends.induct)
  case (next_send req remaining ex nxt exs)
  note ex = hop_exchange_of [OF next_send.hyps(1)]
  show ?case
  proof (cases i)
    case 0
    with next_send.prems ex show ?thesis by simp
  next
    case (Suc k)
    with next_send have IH: "h \<in> header_names (rq_headers nxt)"
      "\<forall>j < k. same_origin (ex_url (exs ! j)) (ex_url (exs ! Suc j))"
      by simp_all
    have "exs \<noteq> []" using next_send.prems(3) Suc by auto
    then have "ex_url (exs ! 0) = rq_url nxt"
      using sends_first [OF next_send.hyps(3)] by (simp add: hd_conv_nth)
    then have "same_origin (ex_url ex) (ex_url (exs ! 0))" "h \<in> header_names (rq_headers req)"
      using hop_of_laws(2) [OF next_send.prems(1) next_send.hyps(2) next_send.prems(2) IH(1)] ex
      by simp_all
    with IH(2) Suc show ?thesis
      by (auto simp: less_Suc_eq_0_disj)
  qed
qed (auto dest!: hop_exchange_of)

lemma send_fixed_sends:
  assumes "send_fixed ra (logged net) fire req follow (n, []) = (res, (n', exs))"
  shows "sends ra req exs" "length exs \<le> Suc (max_redirects ra)" "follow \<or> length exs \<le> 1"
  using send_hops_sends [OF assms [unfolded send_fixed_def Let_def]] by auto

subsection \<open>Redirects, one at a time\<close>

text \<open>
  The rules a delivery is judged by, stated without the loop. A configuration is the number of
  redirects followed, the request to send and the state of the network; \<open>answered\<close>: its exchange
  brought a response in time.
\<close>

definition time_left :: "'n net_api \<Rightarrow> nat option \<Rightarrow> 'n \<Rightarrow> nat option" where
  "time_left net deadline n = map_option (\<lambda>d. d - net_now net n) deadline"

definition answered :: "'n net_api \<Rightarrow> nat option \<Rightarrow> request \<Rightarrow> 'n \<Rightarrow> response \<Rightarrow> 'n \<Rightarrow> bool" where
  "answered net deadline req n resp n' \<longleftrightarrow>
     (\<exists>ex. hop_exchange req (time_left net deadline n) = Inr ex \<and> net_send net ex n = (Inr resp, n')) \<and>
     \<not> past_deadline net deadline n'"

text \<open>The next request, by the SDK's rules and from this very request: \<open>Some None\<close> means that the
  response is no redirect to follow, \<open>None\<close> that following it is an error.\<close>

definition redirect_target ::
  "redirect_api \<Rightarrow> 'n net_api \<Rightarrow> nat option \<Rightarrow> nat \<Rightarrow> request \<Rightarrow> 'n \<Rightarrow> response \<Rightarrow> request option option" where
  "redirect_target ra net deadline k req n resp =
     (case if is_redirect ra (rs_status resp) then redirect_url ra resp else None of
        None \<Rightarrow> Some None
      | Some u \<Rightarrow>
          if http_scheme u \<and> k < max_redirects ra
          then Some (redirect_request ra (rs_status resp) (rq_method req) (rq_headers req) (rq_version req)
                       (time_left net deadline n) (try_clone ra req) u)
          else None)"

text \<open>The request that goes out next: without the credentials it must not carry, with a referer.\<close>

definition dressed :: "redirect_api \<Rightarrow> request \<Rightarrow> request \<Rightarrow> request" where
  "dressed ra req nxt =
     nxt\<lparr>rq_headers :=
       insert_referer ra (remove_sensitive_headers ra (rq_headers nxt) (rq_url req) (rq_url nxt)) (rq_url req) (rq_url nxt)\<rparr>"

inductive follows ::
  "redirect_api \<Rightarrow> 'n net_api \<Rightarrow> nat option \<Rightarrow> nat \<times> request \<times> 'n \<Rightarrow> nat \<times> request \<times> 'n \<Rightarrow> bool"
  for ra net deadline where
  follow: "answered net deadline req n resp n' \<Longrightarrow> redirect_target ra net deadline k req n resp = Some (Some nxt) \<Longrightarrow>
     follows ra net deadline (k, req, n) (Suc k, dressed ra req nxt, n')"

inductive_simps follows_iff: "follows ra net deadline (k, req, n) (k1, req1, n1)"

lemma after_hop_Deliver:
  "after_hop ra follow k (time_left net deadline n) req resp = Deliver r \<longleftrightarrow>
     r = resp \<and> (\<not> follow \<or> redirect_target ra net deadline k req n resp = Some None)"
  by (auto simp: after_hop_def redirect_target_def split: if_splits option.splits)

lemma after_hop_Follow:
  "after_hop ra follow k (time_left net deadline n) req resp = Follow nxt \<longleftrightarrow>
     follow \<and> (\<exists>r. redirect_target ra net deadline k req n resp = Some (Some r) \<and> nxt = dressed ra req r)"
  by (auto simp: after_hop_def redirect_target_def dressed_def split: if_splits option.splits)

text \<open>A configuration whose response is delivered.\<close>

definition delivers ::
  "redirect_api \<Rightarrow> 'n net_api \<Rightarrow> nat option \<Rightarrow> bool \<Rightarrow> nat \<Rightarrow> request \<Rightarrow> 'n \<Rightarrow> response \<Rightarrow> 'n \<Rightarrow> bool" where
  "delivers ra net deadline follow k req n resp n' \<longleftrightarrow> answered net deadline req n resp n' \<and>
     (\<not> follow \<or> redirect_target ra net deadline k req n resp = Some None)"

text \<open>One turn of the loop, in these terms.\<close>

lemma send_hops_answered:
  "send_hops ra net deadline follow fire k req n = (Completed (Inr r), n') \<longleftrightarrow>
     fire \<noteq> Some k \<and> (\<exists>resp m. answered net deadline req n resp m \<and>
       (case after_hop ra follow k (time_left net deadline n) req resp of
          Deliver x \<Rightarrow> x = r \<and> m = n'
        | Refuse e \<Rightarrow> False
        | Follow nxt \<Rightarrow> send_hops ra net deadline follow fire (Suc k) nxt m = (Completed (Inr r), n')))"
  by (subst send_hops.simps)
     (auto simp: answered_def time_left_def Let_def split: sum.splits prod.splits hop_decision.splits)

lemma send_hops_turn:
  "send_hops ra net deadline follow fire k req n = (Completed (Inr r), n') \<longleftrightarrow>
     fire \<noteq> Some k \<and>
     (delivers ra net deadline follow k req n r n' \<or>
      follow \<and> (\<exists>k1 req1 n1. follows ra net deadline (k, req, n) (k1, req1, n1) \<and>
        send_hops ra net deadline follow fire k1 req1 n1 = (Completed (Inr r), n')))"
proof -
  have turn: "(case after_hop ra follow k (time_left net deadline n) req resp of
          Deliver x \<Rightarrow> x = r \<and> m = n'
        | Refuse e \<Rightarrow> False
        | Follow nxt \<Rightarrow> send_hops ra net deadline follow fire (Suc k) nxt m = (Completed (Inr r), n'))
      \<longleftrightarrow> resp = r \<and> m = n' \<and> (\<not> follow \<or> redirect_target ra net deadline k req n resp = Some None) \<or>
        follow \<and> (\<exists>x. redirect_target ra net deadline k req n resp = Some (Some x) \<and>
          send_hops ra net deadline follow fire (Suc k) (dressed ra req x) m = (Completed (Inr r), n'))" for resp m
  proof (cases "after_hop ra follow k (time_left net deadline n) req resp")
    case (Deliver x)
    then show ?thesis using Deliver [unfolded after_hop_Deliver] by auto
  next
    case (Refuse e)
    then show ?thesis
      using after_hop_Deliver [of ra follow k net deadline n req resp resp]
        after_hop_Follow [of ra follow k net deadline n req resp] by auto
  next
    case (Follow nxt)
    then show ?thesis using Follow [unfolded after_hop_Follow] by auto
  qed
  show ?thesis
    unfolding send_hops_answered [of ra net deadline follow fire k req n] turn delivers_def follows_iff by blast
qed

lemma follows_counts: "follows ra net deadline c c' \<Longrightarrow> fst c' = Suc (fst c) \<and> fst c < max_redirects ra"
  by (induction rule: follows.induct) (auto simp: redirect_target_def split: option.splits if_splits)

lemma follows_star_counts: "(follows ra net deadline)\<^sup>*\<^sup>* c c' \<Longrightarrow> fst c \<le> fst c'"
  by (induction rule: rtranclp_induct) (auto dest: follows_counts)

text \<open>So the loop delivers a response exactly if a chain of redirects leads to it.\<close>

lemma send_hops_delivers:
  "send_hops ra net deadline follow fire k req n = (Completed (Inr r), n') \<longleftrightarrow>
     (\<exists>k' req' m. (follows ra net deadline)\<^sup>*\<^sup>* (k, req, n) (k', req', m) \<and> (follow \<or> k' = k) \<and>
        delivers ra net deadline follow k' req' m r n' \<and> fire \<notin> Some ` {k..k'})" (is "_ \<longleftrightarrow> ?chain k req n")
proof
  show "send_hops ra net deadline follow fire k req n = (Completed (Inr r), n') \<Longrightarrow> ?chain k req n"
  proof (induction "Suc (max_redirects ra) - k" arbitrary: k req n rule: less_induct)
    case less
    from less.prems [unfolded send_hops_turn [of ra net deadline follow fire k]] have fire: "fire \<noteq> Some k" and
      "delivers ra net deadline follow k req n r n' \<or>
        follow \<and> (\<exists>k1 req1 n1. follows ra net deadline (k, req, n) (k1, req1, n1) \<and>
          send_hops ra net deadline follow fire k1 req1 n1 = (Completed (Inr r), n'))" by blast+
    then show ?case
    proof (elim disjE exE conjE)
      assume "delivers ra net deadline follow k req n r n'"
      with fire show ?thesis by (intro exI [of _ k] exI [of _ req] exI [of _ n]) auto
    next
      fix k1 req1 n1
      assume step: "follow" "follows ra net deadline (k, req, n) (k1, req1, n1)"
        "send_hops ra net deadline follow fire k1 req1 n1 = (Completed (Inr r), n')"
      note k1 = follows_counts [OF step(2), simplified]
      have "Suc (max_redirects ra) - k1 < Suc (max_redirects ra) - k" using k1 by auto
      from less.hyps [OF this step(3)] obtain k' req' m where "(follows ra net deadline)\<^sup>*\<^sup>* (k1, req1, n1) (k', req', m)"
        "delivers ra net deadline follow k' req' m r n'" "fire \<notin> Some ` {k1..k'}"
        by blast
      moreover from this(3) fire k1 have "fire \<notin> Some ` {k..k'}" by (auto simp: Suc_le_eq)
      ultimately show ?thesis
        using step(1) converse_rtranclp_into_rtranclp [of "follows ra net deadline", OF step(2)] by blast
    qed
  qed
next
  assume "?chain k req n"
  then obtain k' req' m where chain: "(follows ra net deadline)\<^sup>*\<^sup>* (k, req, n) (k', req', m)"
    "follow \<or> k' = k" "delivers ra net deadline follow k' req' m r n'" "fire \<notin> Some ` {k..k'}" by blast
  from chain(1,2,4) show "send_hops ra net deadline follow fire k req n = (Completed (Inr r), n')"
  proof (induction "(k, req, n)" arbitrary: k req n rule: converse_rtranclp_induct)
    case base
    with chain(3) show ?case by (subst send_hops_turn) auto
  next
    case (step c)
    obtain k1 req1 n1 where c: "c = (k1, req1, n1)" by (cases c)
    note k1 = follows_counts [OF step(1) [unfolded c], simplified]
    with follows_star_counts [OF step(2)] c step(4,5) have "follow" "fire \<notin> Some ` {k1..k'}" "fire \<noteq> Some k" by auto
    with step(1,3) c show ?case by (subst send_hops_turn) blast
  qed
qed

subsection \<open>An instance\<close>

text \<open>Status 302 redirects to the host named by the response's first header; the network answers
  from a list of responses, one tick each.\<close>

definition sample_url :: "string \<Rightarrow> url" where
  "sample_url h =
     \<lparr>url_text = ''http://'' @ h @ ''/'', url_scheme = ''http'', url_host = Some h, url_port = None,
      url_path = ''/'', url_query = None, url_fragment = None\<rparr>"

definition sample_redirects :: redirect_api where
  "sample_redirects =
     \<lparr>is_redirect = (\<lambda>st. st = 302),
      redirect_url = (\<lambda>resp. if rs_headers resp = [] then None
         else Some (sample_url (fst (hd (rs_headers resp))))),
      redirect_request = (\<lambda>st m hs v rem c u. map_option (\<lambda>r. r\<lparr>rq_url := u, rq_headers := hs\<rparr>) c),
      remove_sensitive_headers = (\<lambda>hs a b.
         if url_host a = url_host b then hs else [(n, v) \<leftarrow> hs. n \<noteq> ''authorization'']),
      insert_referer = (\<lambda>hs a b. hs @ [(''referer'', ascii (url_text a))]),
      max_redirects = 2,
      try_clone = Some\<rparr>"

definition sample_response :: "nat \<Rightarrow> string \<Rightarrow> response" where
  "sample_response st location =
     \<lparr>rs_status = st, rs_url = sample_url ''a'', rs_version = ''HTTP/1.1'',
      rs_headers = (if location = '''' then [] else [(location, [])]),
      rs_content_length = None, rs_items = []\<rparr>"

definition sample_request :: request where
  "sample_request =
     \<lparr>rq_method = ''GET'', rq_url = sample_url ''a'', rq_headers = [(''authorization'', [1])],
      rq_version = ''HTTP/1.1'', rq_timeout = Some 9, rq_body = None\<rparr>"

definition list_net :: "(nat \<times> response list) net_api" where
  "list_net =
     \<lparr>net_send = (\<lambda>ex (t, rs). case rs of
         [] \<Rightarrow> (Inr (sample_response 200 ''''), (Suc t, []))
       | r # rs' \<Rightarrow> (Inr r, (Suc t, rs'))),
      net_now = fst, net_timer = (\<lambda>n d. d < fst n)\<rparr>"

lemma sample_redirect_laws:
  "redirect_laws sample_redirects {''authorization''} (\<lambda>a b. url_host a = url_host b)"
  by (auto simp: redirect_laws_def sample_redirects_def header_names_def)

text \<open>From a to b (leaving the origin), to b again, then a redirect too many.\<close>

abbreviation sample_run ::
  "(bridge_error + response) polled \<times> (nat \<times> response list) \<times> exchange list" where
  "sample_run \<equiv>
     send_fixed sample_redirects (logged list_net) None sample_request True
       ((0, [sample_response 302 ''b'', sample_response 302 ''b'', sample_response 302 ''c'']), [])"

lemma sample_run_split: "sample_run = (fst sample_run, (fst (snd sample_run), snd (snd sample_run)))"
  by simp

subsection \<open>Properties of the redirect loop\<close>

text \<open>
  C29. A send makes at most one exchange more than the redirect limit, and only one if redirects
  are not followed; the first is the request itself; and every one of them goes to an http or
  https URL, whatever the servers answer.
\<close>

theorem send_fixed_exchanges:
  assumes "redirect_laws ra sensitive same_origin" "http_scheme (rq_url req)"
    and "send_fixed ra (logged net) fire req follow (n, []) = (res, (n', exs))"
  shows "length exs \<le> Suc (max_redirects ra) \<and> (follow \<or> length exs \<le> 1)
       \<and> (exs = [] \<or> ex_method (hd exs) = rq_method req \<and> ex_url (hd exs) = rq_url req \<and>
            ex_headers (hd exs) = rq_headers req)
       \<and> list_all (\<lambda>ex. http_scheme (ex_url ex)) exs"
  using send_fixed_sends [OF assms(3)] sends_first sends_scheme [OF _ assms(1,2)]
  by (auto simp: list_all_iff)

theorem send_fixed_exchanges_witness:
  "length (snd (snd sample_run)) = 3 \<and> list_all (\<lambda>ex. http_scheme (ex_url ex)) (snd (snd sample_run))"
proof -
  have "http_scheme (rq_url sample_request)"
    by (simp add: sample_request_def sample_url_def http_scheme_def)
  from send_fixed_exchanges [OF sample_redirect_laws this sample_run_split]
  have "list_all (\<lambda>ex. http_scheme (ex_url ex)) (snd (snd sample_run))" by blast
  moreover have "length (snd (snd sample_run)) = 3" by code_simp
  ultimately show ?thesis by blast
qed

text \<open>
  C10. A credential header that a later exchange still carries was in the original request, and
  none of the hops up to that exchange left the origin: once a redirect crosses origins, no later
  exchange carries the credential, not even back at the first origin.
\<close>

theorem send_fixed_credentials:
  assumes "redirect_laws ra sensitive same_origin" "h \<in> sensitive"
    and "send_fixed ra (logged net) fire req follow (n, []) = (res, (n', exs))"
    and "i < length exs" "h \<in> header_names (ex_headers (exs ! i))"
  shows "h \<in> header_names (rq_headers req) \<and>
         (\<forall>j < i. same_origin (ex_url (exs ! j)) (ex_url (exs ! Suc j)))"
  by (rule sends_sensitive [OF send_fixed_sends(1) [OF assms(3)] assms(1,2,4,5)])

theorem send_fixed_credentials_witness:
  "''authorization'' \<in> header_names (ex_headers (snd (snd sample_run) ! 0)) \<and>
   ''authorization'' \<notin> header_names (ex_headers (snd (snd sample_run) ! 2))"
proof -
  have len: "2 < length (snd (snd sample_run))" by code_simp
  have hop: "url_host (ex_url (snd (snd sample_run) ! 0)) \<noteq> url_host (ex_url (snd (snd sample_run) ! Suc 0))"
    by code_simp
  have auth: "''authorization'' \<in> {''authorization''}" by simp
  have "''authorization'' \<notin> header_names (ex_headers (snd (snd sample_run) ! 2))"
  proof
    assume "''authorization'' \<in> header_names (ex_headers (snd (snd sample_run) ! 2))"
    from send_fixed_credentials [OF sample_redirect_laws auth sample_run_split len this] hop
    show False by simp
  qed
  moreover have "''authorization'' \<in> header_names (ex_headers (snd (snd sample_run) ! 0))" by code_simp
  ultimately show ?thesis by blast
qed

text \<open>
  C30. Which response a send delivers. With redirects followed, it is exactly the last of a chain of
  exchanges, each in time: from the request itself every response that is a redirect to an http or
  https URL, within the limit, for which the SDK's rules give a next request, is followed with that
  request, built from the one just sent; and the response delivered is the first that is none.
  Without, it is the answer to the request itself. A cancellation on the way delivers nothing.
\<close>

theorem send_fixed_delivers:
  "send_fixed ra net fire req follow n = (Completed (Inr resp), n') \<longleftrightarrow>
     (\<exists>k last m deadline. deadline = map_option (\<lambda>t. net_now net n + t) (rq_timeout req) \<and>
        (follows ra net deadline)\<^sup>*\<^sup>* (0, req, n) (k, last, m) \<and> (follow \<or> k = 0) \<and>
        answered net deadline last m resp n' \<and>
        (\<not> follow \<or> redirect_target ra net deadline k last m resp = Some None) \<and>
        fire \<notin> Some ` {0..k})"
  unfolding send_fixed_def Let_def send_hops_delivers delivers_def by blast

theorem send_fixed_delivers_witness:
  "\<exists>k last m. (follows sample_redirects list_net (Some 9))\<^sup>*\<^sup>*
     (0, sample_request, (0, [sample_response 302 ''b''])) (k, last, m) \<and>
     answered list_net (Some 9) last m (sample_response 200 '''') (2, [])"
proof -
  have run: "send_fixed sample_redirects list_net None sample_request True (0, [sample_response 302 ''b''])
      = (Completed (Inr (sample_response 200 '''')), (2, []))"
    by code_simp
  have "map_option (\<lambda>t. net_now list_net (0, [sample_response 302 ''b'']) + t) (rq_timeout sample_request) = Some 9"
    by (simp add: list_net_def sample_request_def)
  with run [unfolded send_fixed_delivers] show ?thesis by auto
qed

end
