(* ===== verification/Cancel_Tokens.thy ===== *)
theory Cancel_Tokens
  imports Bridge_Prelude
begin

text \<open>
  \<open>tokio_util::sync::CancellationToken\<close>, which is not part of the repository: its operations are
  a parameter of the model (\<open>token_api\<close>), and what the bridge relies on is \<open>token_laws\<close>, the
  documented behaviour. A child token made by \<open>child_token\<close> is cancelled with its parent (at once
  if the parent already is); cancelling a child leaves its parent and its siblings alone.
  The last three fields are for specification only: which states of the token store occur, which
  tokens have been issued, and which token was derived from which.
\<close>

record ('t, 'h) token_api =
  tok_new :: "'t \<Rightarrow> 'h \<times> 't"
  tok_child :: "'h \<Rightarrow> 't \<Rightarrow> 'h \<times> 't"
  tok_cancel :: "'h \<Rightarrow> 't \<Rightarrow> 't"
  is_cancelled :: "'t \<Rightarrow> 'h \<Rightarrow> bool"
  tok_ok :: "'t \<Rightarrow> bool"
  issued :: "'t \<Rightarrow> 'h \<Rightarrow> bool"
  descends :: "'t \<Rightarrow> 'h \<Rightarrow> 'h \<Rightarrow> bool"

definition new_law :: "('t, 'h) token_api \<Rightarrow> bool" where
  "new_law api \<longleftrightarrow>
     (\<forall>t h t'. tok_ok api t \<and> tok_new api t = (h, t') \<longrightarrow>
        tok_ok api t' \<and> \<not> issued api t h \<and> \<not> is_cancelled api t' h \<and>
        (\<forall>x. issued api t' x \<longleftrightarrow> issued api t x \<or> x = h) \<and>
        (\<forall>x. issued api t x \<longrightarrow> is_cancelled api t' x = is_cancelled api t x) \<and>
        (\<forall>a b. descends api t' a b \<longleftrightarrow> descends api t a b \<or> a = h \<and> b = h))"

definition child_law :: "('t, 'h) token_api \<Rightarrow> bool" where
  "child_law api \<longleftrightarrow>
     (\<forall>t p h t'. tok_ok api t \<and> issued api t p \<and> tok_child api p t = (h, t') \<longrightarrow>
        tok_ok api t' \<and> \<not> issued api t h \<and> is_cancelled api t' h = is_cancelled api t p \<and>
        (\<forall>x. issued api t' x \<longleftrightarrow> issued api t x \<or> x = h) \<and>
        (\<forall>x. issued api t x \<longrightarrow> is_cancelled api t' x = is_cancelled api t x) \<and>
        (\<forall>a b. descends api t' a b \<longleftrightarrow>
           descends api t a b \<or> b = h \<and> (a = h \<or> descends api t a p)))"

definition cancel_law :: "('t, 'h) token_api \<Rightarrow> bool" where
  "cancel_law api \<longleftrightarrow>
     (\<forall>t h. tok_ok api t \<and> issued api t h \<longrightarrow>
        tok_ok api (tok_cancel api h t) \<and>
        (\<forall>x. issued api (tok_cancel api h t) x = issued api t x) \<and>
        (\<forall>x. is_cancelled api (tok_cancel api h t) x \<longleftrightarrow>
           is_cancelled api t x \<or> descends api t h x) \<and>
        (\<forall>a b. descends api (tok_cancel api h t) a b = descends api t a b))"

definition tree_law :: "('t, 'h) token_api \<Rightarrow> bool" where
  "tree_law api \<longleftrightarrow>
     (\<forall>t. tok_ok api t \<longrightarrow>
        (\<forall>a b. descends api t a b \<longrightarrow> issued api t a \<and> issued api t b) \<and>
        (\<forall>a. issued api t a \<longrightarrow> descends api t a a))"

definition token_laws :: "('t, 'h) token_api \<Rightarrow> bool" where
  "token_laws api \<longleftrightarrow> new_law api \<and> child_law api \<and> cancel_law api \<and> tree_law api"

lemma token_newD:
  assumes "token_laws api" "tok_ok api t" "tok_new api t = (h, t')"
  shows "tok_ok api t'" "\<not> issued api t h" "\<not> is_cancelled api t' h"
    "issued api t' x \<longleftrightarrow> issued api t x \<or> x = h"
    "issued api t x \<Longrightarrow> is_cancelled api t' x = is_cancelled api t x"
    "descends api t' a b \<longleftrightarrow> descends api t a b \<or> a = h \<and> b = h"
  using assms unfolding token_laws_def new_law_def by blast+

lemma token_childD:
  assumes "token_laws api" "tok_ok api t" "issued api t p" "tok_child api p t = (h, t')"
  shows "tok_ok api t'" "\<not> issued api t h" "is_cancelled api t' h = is_cancelled api t p"
    "issued api t' x \<longleftrightarrow> issued api t x \<or> x = h"
    "issued api t x \<Longrightarrow> is_cancelled api t' x = is_cancelled api t x"
    "descends api t' a b \<longleftrightarrow> descends api t a b \<or> b = h \<and> (a = h \<or> descends api t a p)"
  using assms unfolding token_laws_def child_law_def by blast+

lemma token_cancelD:
  assumes "token_laws api" "tok_ok api t" "issued api t h"
  shows "tok_ok api (tok_cancel api h t)"
    "issued api (tok_cancel api h t) x = issued api t x"
    "is_cancelled api (tok_cancel api h t) x \<longleftrightarrow> is_cancelled api t x \<or> descends api t h x"
    "descends api (tok_cancel api h t) a b = descends api t a b"
  using assms unfolding token_laws_def cancel_law_def by blast+

lemma token_treeD:
  assumes "token_laws api" "tok_ok api t"
  shows "descends api t a b \<Longrightarrow> issued api t a" "descends api t a b \<Longrightarrow> issued api t b"
    "issued api t a \<Longrightarrow> descends api t a a"
  using assms unfolding token_laws_def tree_law_def by blast+

text \<open>Tokens no one derived, and tokens from which no one derived another.\<close>

definition root_token :: "('t, 'h) token_api \<Rightarrow> 't \<Rightarrow> 'h \<Rightarrow> bool" where
  "root_token api t h \<longleftrightarrow> issued api t h \<and> (\<forall>a. descends api t a h \<longrightarrow> a = h)"

definition leaf_token :: "('t, 'h) token_api \<Rightarrow> 't \<Rightarrow> 'h \<Rightarrow> bool" where
  "leaf_token api t h \<longleftrightarrow> issued api t h \<and> (\<forall>b. descends api t h b \<longrightarrow> b = h)"

subsection \<open>An instance\<close>

text \<open>Token \<open>i\<close> is the \<open>i\<close>-th entry of a list: its ancestors, itself included, and its flag.\<close>

type_synonym token_list = "(nat list \<times> bool) list"

definition list_descends :: "token_list \<Rightarrow> nat \<Rightarrow> nat \<Rightarrow> bool" where
  "list_descends t a b \<longleftrightarrow> b < length t \<and> a \<in> set (fst (t ! b))"

definition list_tokens :: "(token_list, nat) token_api" where
  "list_tokens =
     \<lparr>tok_new = (\<lambda>t. (length t, t @ [([length t], False)])),
      tok_child = (\<lambda>p t. (length t,
        t @ [(length t # (if p < length t then fst (t ! p) else []),
              p < length t \<and> snd (t ! p))])),
      tok_cancel = (\<lambda>h t. map (\<lambda>(anc, c). (anc, c \<or> h \<in> set anc)) t),
      is_cancelled = (\<lambda>t h. h < length t \<and> snd (t ! h)),
      tok_ok = (\<lambda>t. \<forall>i < length t. i \<in> set (fst (t ! i)) \<and> (\<forall>a \<in> set (fst (t ! i)). a \<le> i)),
      issued = (\<lambda>t h. h < length t),
      descends = list_descends\<rparr>"

lemma list_tokens_laws: "token_laws list_tokens"
proof -
  have "new_law list_tokens"
    unfolding new_law_def list_tokens_def list_descends_def
    by (auto simp: nth_append less_Suc_eq)
  moreover have "child_law list_tokens"
    unfolding child_law_def list_tokens_def list_descends_def
    by (auto simp: nth_append less_Suc_eq) (meson less_imp_le_nat le_trans)+
  moreover have "cancel_law list_tokens"
    unfolding cancel_law_def list_tokens_def list_descends_def
    by (auto simp: split_beta)
  moreover have "tree_law list_tokens"
    unfolding tree_law_def list_tokens_def list_descends_def
    by (auto intro: le_less_trans)
  ultimately show ?thesis
    by (simp add: token_laws_def)
qed

lemma tok_ok_Nil: "tok_ok list_tokens []"
  by (simp add: list_tokens_def)

end
