(* ===== verification/Http_Client.thy ===== *)
theory Http_Client
  imports Http_Redirect Cancel_Tokens
begin

text \<open>
  The HTTP half of the bridge, \<open>rust/src/http_client.rs\<close>: clients, requests, the phases of a call
  and the registry of handles. One definition per function; those that look at the registry twice
  (\<open>close\<close>, \<open>create_request\<close>) are composed of the critical sections \<open>Http_System\<close> interleaves.
\<close>

subsection \<open>Configuration and metadata\<close>

record http_config =
  hc_timeout_ms :: u64
  hc_proxy_policy :: string
  hc_proxy_url :: string
  hc_no_proxy :: bool
  hc_disable_redirects :: bool
  hc_user_agent :: string
  hc_chatgpt_cookies :: "string list option"
  hc_tls_backend_fallback :: bool

record request_meta =
  rm_method :: string
  rm_url :: string
  rm_headers :: "(string \<times> string) list"
  rm_has_body :: bool
  rm_has_json :: bool
  rm_json :: "bytes option"

record response_meta =
  mt_status :: nat
  mt_url :: string
  mt_protocol :: string
  mt_headers :: "(string \<times> string) list"
  mt_content_length :: "nat option"

subsection \<open>Clients\<close>

text \<open>The SDK's route-aware pool, as the constructor call that makes it.\<close>

record pool =
  pool_factory :: factory
  pool_redirects :: bool
  pool_cookies :: bool
  pool_tls_fallback :: bool

text \<open>The fixed client: a reqwest client without system proxies and without native redirects.\<close>

record fixed_client =
  fx_proxy :: "proxy option"
  fx_cookies :: "factory option"
  fx_follow :: bool

datatype backend = Automatic pool | Fixed fixed_client

record 'h http_client =
  cl_backend :: backend
  cl_timeout_ms :: u64
  cl_user_agent :: "bytes option"
  cl_cancel :: 'h

text \<open>A request builder, before it becomes a request.\<close>

record builder =
  bd_method :: string
  bd_url :: url
  bd_headers :: headers
  bd_timeout :: "nat option"
  bd_body :: "bytes option"

datatype prepared =
    PreparedAutomatic pool builder
  | PreparedFixed fixed_client request bool

text \<open>What the code calls of serde, base64, the http crate, reqwest and the SDK.\<close>

record 'n http_sdk =
  de_config :: "bytes \<Rightarrow> string + http_config"
  de_request :: "bytes \<Rightarrow> string + request_meta"
  sdk_url :: url_api
  sdk_codec :: header_codec
  method_from_bytes :: "string \<Rightarrow> string + string"
  has_cookies :: "factory \<Rightarrow> bool"
  build_fixed :: "proxy option \<Rightarrow> factory option \<Rightarrow> string + unit"
  set_json :: "bytes option \<Rightarrow> builder \<Rightarrow> builder"
  build_request :: "fixed_client \<Rightarrow> builder \<Rightarrow> http_error + request"
  to_json :: "response_meta \<Rightarrow> string + bytes"
  route_send :: "pool \<Rightarrow> builder \<Rightarrow> 'n \<Rightarrow> (route_aware_error + response) \<times> 'n"
  sdk_net :: "'n net_api"
  sdk_redirects :: redirect_api

subsection \<open>create: the configuration\<close>

definition explicit_route :: "http_config \<Rightarrow> bool" where
  "explicit_route cfg \<longleftrightarrow> hc_no_proxy cfg \<or> hc_proxy_url cfg \<noteq> ''''"

text \<open>The checks before the asynchronous block, in order: policy, exclusive options, proxy URL,
  cookies, user agent.\<close>

definition check_config ::
  "'n http_sdk \<Rightarrow> http_config \<Rightarrow> bridge_error + factory \<times> proxy option \<times> bytes option" where
  "check_config sdk cfg =
     and_then (parse_policy (hc_proxy_policy cfg)) (\<lambda>policy.
       if hc_no_proxy cfg \<and> hc_proxy_url cfg \<noteq> '''' then
         Inl (invalid ''proxy_url and no_proxy are mutually exclusive'')
       else if explicit_route cfg \<and> hc_tls_backend_fallback cfg then
         Inl (invalid ''TLSBackendFallback requires automatic proxy routing'')
       else
         and_then (if hc_proxy_url cfg = '''' then Inr None
                   else and_then (parse_proxy (sdk_url sdk) (hc_proxy_url cfg)) (\<lambda>p. Inr (Some p)))
           (\<lambda>proxy.
              and_then (make_factory (value_from_str (sdk_codec sdk)) policy
                          (case hc_chatgpt_cookies cfg of None \<Rightarrow> [] | Some cs \<Rightarrow> cs))
                (\<lambda>fac.
                   and_then (if hc_user_agent cfg = '''' then Inr None
                             else and_then (map_err invalid (value_from_str (sdk_codec sdk) (hc_user_agent cfg)))
                                    (\<lambda>v. Inr (Some v)))
                     (\<lambda>ua. Inr (fac, proxy, ua)))))"

definition read_config ::
  "'n http_sdk \<Rightarrow> bytes \<Rightarrow> bridge_error + http_config \<times> factory \<times> proxy option \<times> bytes option" where
  "read_config sdk data =
     and_then (map_err invalid (de_config sdk data))
       (\<lambda>cfg. and_then (check_config sdk cfg) (\<lambda>x. Inr (cfg, x)))"

text \<open>The backend: a fixed client for an explicit route, else one of the four pools.\<close>

definition make_backend ::
  "'n http_sdk \<Rightarrow> http_config \<Rightarrow> factory \<Rightarrow> proxy option \<Rightarrow> bridge_error + backend" where
  "make_backend sdk cfg fac proxy =
     (if explicit_route cfg then
        (let cookies = (if has_cookies sdk fac then Some fac else None)
         in and_then (map_err (bridge_error_new ''configuration'') (build_fixed sdk proxy cookies))
              (\<lambda>_. Inr (Fixed \<lparr>fx_proxy = proxy, fx_cookies = cookies,
                               fx_follow = \<not> hc_disable_redirects cfg\<rparr>)))
      else
        Inr (Automatic
          \<lparr>pool_factory = fac, pool_redirects = \<not> hc_disable_redirects cfg,
           pool_cookies = has_cookies sdk fac, pool_tls_fallback = hc_tls_backend_fallback cfg\<rparr>))"

subsection \<open>create_request: the request\<close>

text \<open>\<open>headers.entry(USER_AGENT).or_insert(..)\<close>.\<close>

definition default_user_agent :: "bytes option \<Rightarrow> headers \<Rightarrow> headers" where
  "default_user_agent ua hs =
     (case ua of None \<Rightarrow> hs
      | Some v \<Rightarrow> (if ''user-agent'' \<in> fst ` set hs then hs else hs @ [(''user-agent'', v)]))"

text \<open>The macro \<open>prepare!\<close>.\<close>

definition prepare_builder ::
  "'n http_sdk \<Rightarrow> 'h http_client \<Rightarrow> request_meta \<Rightarrow> bytes \<Rightarrow> string \<Rightarrow> url \<Rightarrow> headers \<Rightarrow> builder" where
  "prepare_builder sdk client meta body verb u hs =
     (let b = \<lparr>bd_method = verb, bd_url = u, bd_headers = hs,
               bd_timeout = (if 0 < cl_timeout_ms client then Some (unat (cl_timeout_ms client)) else None),
               bd_body = None\<rparr>
      in if rm_has_json meta then set_json sdk (rm_json meta) b
         else if rm_has_body meta then b\<lparr>bd_body := Some body\<rparr> else b)"

definition prepare_request ::
  "'n http_sdk \<Rightarrow> 'h http_client \<Rightarrow> bytes \<Rightarrow> bytes \<Rightarrow> bridge_error + prepared" where
  "prepare_request sdk client metadata body =
     and_then (map_err invalid (de_request sdk metadata)) (\<lambda>meta.
       if rm_has_json meta \<and> rm_has_body meta then
         Inl (invalid ''body and json are mutually exclusive'')
       else
         and_then (map_err invalid (method_from_bytes sdk (rm_method meta))) (\<lambda>verb.
         and_then (map_err invalid (url_parse (sdk_url sdk) (rm_url meta))) (\<lambda>u.
           if \<not> http_scheme u then Inl (invalid ''URL must use http or https'')
           else
             and_then (decode_headers (sdk_codec sdk) (rm_headers meta)) (\<lambda>hs.
               let b = prepare_builder sdk client meta body verb u
                         (default_user_agent (cl_user_agent client) hs)
               in (case cl_backend client of
                     Automatic pool \<Rightarrow> Inr (PreparedAutomatic pool b)
                   | Fixed fixed \<Rightarrow>
                       and_then (map_err bridge_error_of_http (build_request sdk fixed b))
                         (\<lambda>req. Inr (PreparedFixed fixed req (fx_follow fixed))))))))"

text \<open>\<open>PreparedRequest::send\<close>. \<open>fire\<close> is the exchange during which the call is cancelled, if any;
  the route-aware send is one await.\<close>

definition send_prepared ::
  "'n http_sdk \<Rightarrow> nat option \<Rightarrow> prepared \<Rightarrow> 'n \<Rightarrow> (bridge_error + response) polled \<times> 'n" where
  "send_prepared sdk fire p n =
     (case p of
        PreparedAutomatic pool b \<Rightarrow>
          (let (r, n') = route_send sdk pool b n
           in (if fire = Some 0 then Dropped else Completed (map_err bridge_error_of_route r), n'))
      | PreparedFixed fixed req follow \<Rightarrow>
          send_fixed (sdk_redirects sdk) (sdk_net sdk) fire req follow n)"

text \<open>\<open>SdkCookieStore\<close>: the SDK's scope rules, where the URL is a URI too.\<close>

definition store_set_cookies ::
  "(string \<Rightarrow> 'u option) \<Rightarrow> (factory \<Rightarrow> 'u \<Rightarrow> headers \<Rightarrow> 'w \<Rightarrow> 'w) \<Rightarrow>
     factory \<Rightarrow> bytes list \<Rightarrow> url \<Rightarrow> 'w \<Rightarrow> 'w" where
  "store_set_cookies uri store fac cookies u w =
     (case uri (url_text u) of None \<Rightarrow> w
      | Some x \<Rightarrow> store fac x (map (\<lambda>c. (''set-cookie'', c)) cookies) w)"

definition store_cookies ::
  "(string \<Rightarrow> 'u option) \<Rightarrow> (factory \<Rightarrow> 'u \<Rightarrow> 'w \<Rightarrow> bytes option) \<Rightarrow> factory \<Rightarrow> url \<Rightarrow> 'w \<Rightarrow> bytes option" where
  "store_cookies uri header fac u w = Option.bind (uri (url_text u)) (\<lambda>x. header fac x w)"

subsection \<open>Calls and the registry\<close>

text \<open>The phases of a call. \<open>Streaming\<close> holds what the body stream will still yield, and the rest
  of the chunk that is being handed out.\<close>

datatype phase = Ready prepared | Streaming "body_item list" bytes | Done

record 'h call =
  ca_client :: u64
  ca_cancel :: 'h
  ca_phase :: phase

text \<open>
  The process state behind the HTTP functions: the registry (its \<open>calls\<close> are references into
  \<open>hw_store\<close>, where a call lives on while somebody still holds its \<open>Arc\<close>), the cancellation
  tokens, and the network.
\<close>

record ('t, 'h, 'n) http_world =
  hw_next :: u64
  hw_clients :: "u64 \<Rightarrow> 'h http_client option"
  hw_calls :: "u64 \<Rightarrow> nat option"
  hw_poisoned :: bool
  hw_store :: "nat \<Rightarrow> 'h call option"
  hw_fresh :: nat
  hw_tokens :: 't
  hw_net :: 'n

definition http_empty :: "'t \<Rightarrow> 'n \<Rightarrow> ('t, 'h, 'n) http_world" where
  "http_empty t n =
     \<lparr>hw_next = 0, hw_clients = (\<lambda>_. None), hw_calls = (\<lambda>_. None), hw_poisoned = False,
      hw_store = (\<lambda>_. None), hw_fresh = 0, hw_tokens = t, hw_net = n\<rparr>"

text \<open>\<open>registry()\<close>: the guard, unless a thread has panicked while it held the lock.\<close>

definition http_registry :: "('t, 'h, 'n) http_world \<Rightarrow> bridge_error + unit" where
  "http_registry w =
     (if hw_poisoned w then Inl (bridge_error_new ''internal'' ''handle registry lock poisoned'')
      else Inr ())"

text \<open>\<open>Registry::next\<close>.\<close>

definition http_next :: "('t, 'h, 'n) http_world \<Rightarrow> bridge_error + u64 \<times> ('t, 'h, 'n) http_world" where
  "http_next w =
     (case u64_checked_add (hw_next w) 1 of
        None \<Rightarrow> Inl (bridge_error_new ''internal'' ''handle space exhausted'')
      | Some i \<Rightarrow> Inr (i, w\<lparr>hw_next := i\<rparr>))"

definition client_is_closed :: bridge_error where
  "client_is_closed = bridge_error_new ''closed'' ''client is closed''"

definition request_cancelled :: bridge_error where
  "request_cancelled = bridge_error_new ''cancelled'' ''request cancelled''"

text \<open>The asynchronous block of \<open>create\<close>: backend, token, registration.\<close>

definition http_register ::
  "('t, 'h) token_api \<Rightarrow> backend \<Rightarrow> http_config \<Rightarrow> bytes option \<Rightarrow> ('t, 'h, 'n) http_world \<Rightarrow>
     call_result \<times> ('t, 'h, 'n) http_world" where
  "http_register api inner cfg ua w =
     (let (h, t) = tok_new api (hw_tokens w);
          client = \<lparr>cl_backend = inner, cl_timeout_ms = hc_timeout_ms cfg, cl_user_agent = ua,
                    cl_cancel = h\<rparr>;
          w1 = w\<lparr>hw_tokens := t\<rparr>
      in case http_registry w1 of
           Inl e \<Rightarrow> (Inl e, w1)
         | Inr _ \<Rightarrow>
             (case http_next w1 of
                Inl e \<Rightarrow> (Inl e, w1)
              | Inr (i, w2) \<Rightarrow>
                  (Inr (output_handle i), w2\<lparr>hw_clients := (hw_clients w2)(i \<mapsto> client)\<rparr>)))"

definition http_create_task ::
  "'n http_sdk \<Rightarrow> ('t, 'h) token_api \<Rightarrow> http_config \<Rightarrow> factory \<Rightarrow> proxy option \<Rightarrow> bytes option \<Rightarrow>
     ('t, 'h, 'n) http_world \<Rightarrow> call_result task \<times> ('t, 'h, 'n) http_world" where
  "http_create_task sdk api cfg fac proxy ua w =
     (case make_backend sdk cfg fac proxy of
        Inl e \<Rightarrow> (Finished (Inl e), w)
      | Inr inner \<Rightarrow> (let (r, w') = http_register api inner cfg ua w in (Finished r, w')))"

definition http_create ::
  "'n http_sdk \<Rightarrow> ('t, 'h) token_api \<Rightarrow> string + unit \<Rightarrow> bytes \<Rightarrow> runtime_cell \<Rightarrow>
     ('t, 'h, 'n) http_world \<Rightarrow> call_result \<times> runtime_cell \<times> ('t, 'h, 'n) http_world" where
  "http_create sdk api build data cell w =
     (case read_config sdk data of
        Inl e \<Rightarrow> (Inl e, cell, w)
      | Inr (cfg, fac, proxy, ua) \<Rightarrow> run build (http_create_task sdk api cfg fac proxy ua) cell w)"

text \<open>\<open>close\<close>: under the lock, the client and its calls go; then its token is cancelled.\<close>

definition http_unregister ::
  "u64 \<Rightarrow> ('t, 'h, 'n) http_world \<Rightarrow> 'h http_client option \<times> ('t, 'h, 'n) http_world" where
  "http_unregister i w =
     (hw_clients w i,
      w\<lparr>hw_clients := (hw_clients w)(i := None),
        hw_calls := (\<lambda>j. case hw_calls w j of None \<Rightarrow> None
           | Some r \<Rightarrow> (if map_option ca_client (hw_store w r) = Some i then None else Some r))\<rparr>)"

definition http_cancel ::
  "('t, 'h) token_api \<Rightarrow> 'h \<Rightarrow> ('t, 'h, 'n) http_world \<Rightarrow> ('t, 'h, 'n) http_world" where
  "http_cancel api h w = w\<lparr>hw_tokens := tok_cancel api h (hw_tokens w)\<rparr>"

definition http_close ::
  "('t, 'h) token_api \<Rightarrow> u64 \<Rightarrow> ('t, 'h, 'n) http_world \<Rightarrow> call_result \<times> ('t, 'h, 'n) http_world" where
  "http_close api i w =
     (case http_registry w of
        Inl e \<Rightarrow> (Inl e, w)
      | Inr _ \<Rightarrow>
          (let (client, w') = http_unregister i w
           in (Inr (output_handle 0),
               (case client of None \<Rightarrow> w' | Some c \<Rightarrow> http_cancel api (cl_cancel c) w'))))"

text \<open>The three parts of \<open>create_request\<close>: the client, the call, the registration.\<close>

definition http_find_client :: "u64 \<Rightarrow> ('t, 'h, 'n) http_world \<Rightarrow> bridge_error + 'h http_client" where
  "http_find_client i w =
     and_then (http_registry w) (\<lambda>_. ok_or client_is_closed (hw_clients w i))"

definition http_new_call ::
  "('t, 'h) token_api \<Rightarrow> u64 \<Rightarrow> 'h \<Rightarrow> prepared \<Rightarrow> ('t, 'h, 'n) http_world \<Rightarrow>
     nat \<times> ('t, 'h, 'n) http_world" where
  "http_new_call api i h p w =
     (let (hc, t) = tok_child api h (hw_tokens w)
      in (hw_fresh w,
          w\<lparr>hw_store := (hw_store w)(hw_fresh w \<mapsto>
               \<lparr>ca_client = i, ca_cancel = hc, ca_phase = Ready p\<rparr>),
            hw_fresh := Suc (hw_fresh w), hw_tokens := t\<rparr>))"

definition http_add_call ::
  "u64 \<Rightarrow> nat \<Rightarrow> ('t, 'h, 'n) http_world \<Rightarrow> call_result \<times> ('t, 'h, 'n) http_world" where
  "http_add_call i r w =
     (case http_registry w of
        Inl e \<Rightarrow> (Inl e, w)
      | Inr _ \<Rightarrow>
          if hw_clients w i = None then (Inl client_is_closed, w)
          else
            (case http_next w of
               Inl e \<Rightarrow> (Inl e, w)
             | Inr (j, w') \<Rightarrow>
                 (Inr (output_handle j), w'\<lparr>hw_calls := (hw_calls w')(j \<mapsto> r)\<rparr>)))"

definition http_create_request ::
  "'n http_sdk \<Rightarrow> ('t, 'h) token_api \<Rightarrow> u64 \<Rightarrow> bytes \<Rightarrow> bytes \<Rightarrow> ('t, 'h, 'n) http_world \<Rightarrow>
     call_result \<times> ('t, 'h, 'n) http_world" where
  "http_create_request sdk api i metadata body w =
     (case http_find_client i w of
        Inl e \<Rightarrow> (Inl e, w)
      | Inr client \<Rightarrow>
          (case prepare_request sdk client metadata body of
             Inl e \<Rightarrow> (Inl e, w)
           | Inr p \<Rightarrow>
               (let (r, w') = http_new_call api i (cl_cancel client) p w in http_add_call i r w')))"

definition http_lookup :: "u64 \<Rightarrow> ('t, 'h, 'n) http_world \<Rightarrow> bridge_error + nat" where
  "http_lookup i w =
     and_then (http_registry w)
       (\<lambda>_. ok_or (bridge_error_new ''closed'' ''request is closed'') (hw_calls w i))"

subsection \<open>send and read\<close>

definition set_phase :: "nat \<Rightarrow> phase \<Rightarrow> ('t, 'h, 'n) http_world \<Rightarrow> ('t, 'h, 'n) http_world" where
  "set_phase r ph w = w\<lparr>hw_store := (hw_store w)(r := map_option (\<lambda>c. c\<lparr>ca_phase := ph\<rparr>) (hw_store w r))\<rparr>"

definition response_metadata :: "'n http_sdk \<Rightarrow> response \<Rightarrow> response_meta" where
  "response_metadata sdk resp =
     \<lparr>mt_status = rs_status resp, mt_url = url_text (rs_url resp), mt_protocol = rs_version resp,
      mt_headers = encode_headers (sdk_codec sdk) (rs_headers resp),
      mt_content_length = rs_content_length resp\<rparr>"

text \<open>
  \<open>fire\<close> says at which await of the body the call is cancelled, if at any: 0 is the wait for the
  phase lock, the next ones are the network. A panic of \<open>unreachable!\<close> has no branch here: the
  phase has just been seen to be \<open>Ready\<close>.
\<close>

definition later :: "nat option \<Rightarrow> nat option" where
  "later fire = (case fire of Some (Suc k) \<Rightarrow> Some k | _ \<Rightarrow> None)"

definition http_send_call ::
  "'n http_sdk \<Rightarrow> nat option \<Rightarrow> nat \<Rightarrow> prepared \<Rightarrow> ('t, 'h, 'n) http_world \<Rightarrow>
     call_result \<times> ('t, 'h, 'n) http_world" where
  "http_send_call sdk fire r p w =
     (let w1 = set_phase r Done w;
          (answer, n) = send_prepared sdk fire p (hw_net w1);
          w2 = w1\<lparr>hw_net := n\<rparr>
      in case answer of
           Dropped \<Rightarrow> (Inl request_cancelled, w2)
         | Completed (Inl e) \<Rightarrow> (Inl e, w2)
         | Completed (Inr resp) \<Rightarrow>
             (case to_json sdk (response_metadata sdk resp) of
                Inl e \<Rightarrow> (Inl (bridge_error_new ''internal'' e), w2)
              | Inr data \<Rightarrow> (Inr (output_data data), set_phase r (Streaming (rs_items resp) []) w2)))"

definition http_send_task ::
  "'n http_sdk \<Rightarrow> nat option \<Rightarrow> nat \<Rightarrow> ('t, 'h, 'n) http_world \<Rightarrow>
     call_result task \<times> ('t, 'h, 'n) http_world" where
  "http_send_task sdk fire r w =
     (if fire = Some 0 then (Finished (Inl request_cancelled), w)
      else
        (case map_option ca_phase (hw_store w r) of
           Some (Ready p) \<Rightarrow>
             (let (res, w') = http_send_call sdk (later fire) r p w in (Finished res, w'))
         | _ \<Rightarrow> (Finished (Inl (invalid ''request has already been sent'')), w)))"

text \<open>The loop of \<open>read\<close>: hand out pending bytes, else wait for the stream's next item.\<close>

fun read_loop ::
  "nat \<Rightarrow> nat option \<Rightarrow> body_item list \<Rightarrow> bytes \<Rightarrow> call_result polled \<times> phase" where
  "read_loop max_len fire items pending =
     (if pending \<noteq> [] then
        (let len = min max_len (length pending)
         in (Completed (Inr (output_data (take len pending))), Streaming items (drop len pending)))
      else if fire = Some 0 then (Dropped, Streaming items pending)
      else
        (case items of
           [] \<Rightarrow> (Completed (Inr output_eof), Done)
         | Inl e # rest \<Rightarrow> (Completed (Inl (bridge_error_of_http e)), Done)
         | Inr chunk # rest \<Rightarrow> read_loop max_len (later fire) rest chunk))"

definition http_read_task ::
  "nat \<Rightarrow> nat option \<Rightarrow> nat \<Rightarrow> ('t, 'h, 'n) http_world \<Rightarrow>
     call_result task \<times> ('t, 'h, 'n) http_world" where
  "http_read_task max_len fire r w =
     (if fire = Some 0 then (Finished (Inl request_cancelled), w)
      else
        (case map_option ca_phase (hw_store w r) of
           Some (Streaming items pending) \<Rightarrow>
             (let (res, ph) = read_loop max_len (later fire) items pending
              in (Finished (case res of Dropped \<Rightarrow> Inl request_cancelled | Completed x \<Rightarrow> x),
                  set_phase r ph w))
         | Some Done \<Rightarrow> (Finished (Inr output_eof), w)
         | _ \<Rightarrow> (Finished (Inl (invalid ''request has not been sent'')), w)))"

text \<open>A call's token, and the select around a task.\<close>

definition call_fired :: "('t, 'h) token_api \<Rightarrow> nat \<Rightarrow> ('t, 'h, 'n) http_world \<Rightarrow> bool" where
  "call_fired api r w \<longleftrightarrow>
     (case hw_store w r of None \<Rightarrow> False | Some c \<Rightarrow> is_cancelled api (hw_tokens w) (ca_cancel c))"

definition http_send_on ::
  "'n http_sdk \<Rightarrow> ('t, 'h) token_api \<Rightarrow> string + unit \<Rightarrow> nat option \<Rightarrow> nat \<Rightarrow> runtime_cell \<Rightarrow>
     ('t, 'h, 'n) http_world \<Rightarrow> call_result \<times> runtime_cell \<times> ('t, 'h, 'n) http_world" where
  "http_send_on sdk api build fire r cell w =
     run build (\<lambda>w. select_cancelled (call_fired api r w) request_cancelled
                       (http_send_task sdk fire r) w) cell w"

definition http_send ::
  "'n http_sdk \<Rightarrow> ('t, 'h) token_api \<Rightarrow> string + unit \<Rightarrow> nat option \<Rightarrow> u64 \<Rightarrow> runtime_cell \<Rightarrow>
     ('t, 'h, 'n) http_world \<Rightarrow> call_result \<times> runtime_cell \<times> ('t, 'h, 'n) http_world" where
  "http_send sdk api build fire i cell w =
     (case http_lookup i w of
        Inl e \<Rightarrow> (Inl e, cell, w)
      | Inr r \<Rightarrow> http_send_on sdk api build fire r cell w)"

definition read_cap :: nat where
  "read_cap = 64 * 1024"

definition http_read_on ::
  "('t, 'h) token_api \<Rightarrow> string + unit \<Rightarrow> nat option \<Rightarrow> nat \<Rightarrow> nat \<Rightarrow> runtime_cell \<Rightarrow>
     ('t, 'h, 'n) http_world \<Rightarrow> call_result \<times> runtime_cell \<times> ('t, 'h, 'n) http_world" where
  "http_read_on api build fire max_len r cell w =
     run build (\<lambda>w. select_cancelled (call_fired api r w) request_cancelled
                       (http_read_task max_len fire r) w) cell w"

definition http_read ::
  "('t, 'h) token_api \<Rightarrow> string + unit \<Rightarrow> nat option \<Rightarrow> u64 \<Rightarrow> nat \<Rightarrow> runtime_cell \<Rightarrow>
     ('t, 'h, 'n) http_world \<Rightarrow> call_result \<times> runtime_cell \<times> ('t, 'h, 'n) http_world" where
  "http_read api build fire i max_len cell w =
     (if max_len = 0 then (Inl (invalid ''read buffer must not be empty''), cell, w)
      else
        (case http_lookup i w of
           Inl e \<Rightarrow> (Inl e, cell, w)
         | Inr r \<Rightarrow> http_read_on api build fire (min max_len read_cap) r cell w))"

text \<open>\<open>close_request\<close>: the handle goes under the lock, then the call's token is cancelled.\<close>

definition http_remove_call ::
  "u64 \<Rightarrow> ('t, 'h, 'n) http_world \<Rightarrow> nat option \<times> ('t, 'h, 'n) http_world" where
  "http_remove_call i w = (hw_calls w i, w\<lparr>hw_calls := (hw_calls w)(i := None)\<rparr>)"

definition http_close_request ::
  "('t, 'h) token_api \<Rightarrow> u64 \<Rightarrow> ('t, 'h, 'n) http_world \<Rightarrow> call_result \<times> ('t, 'h, 'n) http_world" where
  "http_close_request api i w =
     (case http_registry w of
        Inl e \<Rightarrow> (Inl e, w)
      | Inr _ \<Rightarrow>
          (let (r, w') = http_remove_call i w
           in (Inr (output_handle 0),
               (case Option.bind r (hw_store w') of
                  None \<Rightarrow> w' | Some c \<Rightarrow> http_cancel api (ca_cancel c) w'))))"

subsection \<open>Facts about the configuration\<close>

text \<open>What the documentation of the options allows.\<close>

definition config_allowed :: "'n http_sdk \<Rightarrow> http_config \<Rightarrow> bool" where
  "config_allowed sdk cfg \<longleftrightarrow>
     (\<exists>policy. parse_policy (hc_proxy_policy cfg) = Inr policy) \<and>
     \<not> (hc_no_proxy cfg \<and> hc_proxy_url cfg \<noteq> '''') \<and>
     \<not> (explicit_route cfg \<and> hc_tls_backend_fallback cfg) \<and>
     (hc_proxy_url cfg = '''' \<or> (\<exists>p. parse_proxy (sdk_url sdk) (hc_proxy_url cfg) = Inr p)) \<and>
     (\<forall>c \<in> set (case hc_chatgpt_cookies cfg of None \<Rightarrow> [] | Some cs \<Rightarrow> cs).
        \<exists>v. value_from_str (sdk_codec sdk) c = Inr v) \<and>
     (hc_user_agent cfg = '''' \<or> (\<exists>v. value_from_str (sdk_codec sdk) (hc_user_agent cfg) = Inr v))"

lemma make_factory_Inr_iff:
  "(\<exists>fac. make_factory f policy cs = Inr fac) \<longleftrightarrow> (\<forall>c \<in> set cs. \<exists>v. f c = Inr v)"
proof -
  have "(\<exists>vs. map (\<lambda>v. map_err invalid (f v)) cs = map Inr vs) \<longleftrightarrow> (\<forall>c \<in> set cs. \<exists>v. f c = Inr v)"
  proof (induction cs)
    case (Cons c cs)
    have "(\<exists>vs. map (\<lambda>v. map_err invalid (f v)) (c # cs) = map Inr vs) \<longleftrightarrow>
        (\<exists>v. f c = Inr v) \<and> (\<exists>vs. map (\<lambda>v. map_err invalid (f v)) cs = map Inr vs)"
      by (auto simp: result_simps Cons_eq_map_conv)
    with Cons.IH show ?case by simp
  qed simp
  then show ?thesis
    by (auto simp: make_factory_def result_simps)
qed

lemma make_factory_Inl: "make_factory f policy cs = Inl e \<Longrightarrow> err_kind e = ''invalid_input''"
proof -
  assume "make_factory f policy cs = Inl e"
  then have "Inl e \<in> set (map (\<lambda>v. map_err invalid (f v)) cs)"
    by (auto simp: make_factory_def result_simps dest: collect_results_Inl simp del: set_map)
  then obtain v where "map_err invalid (f v) = Inl e" by auto
  then show ?thesis by (auto simp: result_simps)
qed

lemma parse_policy_Inl: "parse_policy s = Inl e \<Longrightarrow> err_kind e = ''invalid_input''"
  by (auto simp: parse_policy_def split: if_splits)

lemma parse_proxy_Inl: "parse_proxy api v = Inl e \<Longrightarrow> err_kind e = ''invalid_input''"
proof (cases "url_parse api v")
  case (Inr u)
  show "parse_proxy api v = Inl e \<Longrightarrow> err_kind e = ''invalid_input''"
    unfolding parse_proxy_parsed [OF Inr]
    by (cases "plain_proxy_url u"; cases "proxy_all api u") auto
qed (auto simp: parse_proxy_def)

lemma check_config_Inr_iff: "(\<exists>x. check_config sdk cfg = Inr x) \<longleftrightarrow> config_allowed sdk cfg"
proof -
  let ?cs = "case hc_chatgpt_cookies cfg of None \<Rightarrow> [] | Some cs \<Rightarrow> cs"
  show ?thesis
  proof (cases "parse_policy (hc_proxy_policy cfg)")
    case (Inr policy)
    note fac = make_factory_Inr_iff [of "value_from_str (sdk_codec sdk)" policy ?cs]
    show ?thesis
      by (cases "make_factory (value_from_str (sdk_codec sdk)) policy ?cs";
          cases "parse_proxy (sdk_url sdk) (hc_proxy_url cfg)";
          cases "value_from_str (sdk_codec sdk) (hc_user_agent cfg)")
         (use fac Inr in \<open>simp_all add: check_config_def config_allowed_def\<close>)
  qed (simp add: check_config_def config_allowed_def)
qed

lemma check_config_Inl:
  "check_config sdk cfg = Inl e \<Longrightarrow> err_kind e = ''invalid_input''"
  by (auto simp: check_config_def result_simps split: if_splits
      dest: make_factory_Inl parse_policy_Inl parse_proxy_Inl)

lemma check_config_proxy:
  "check_config sdk cfg = Inr (fac, proxy, ua) \<Longrightarrow>
     (proxy = None \<longleftrightarrow> hc_proxy_url cfg = '''') \<and>
     (\<forall>p. proxy = Some p \<longrightarrow> parse_proxy (sdk_url sdk) (hc_proxy_url cfg) = Inr p) \<and>
     (ua = None \<longleftrightarrow> hc_user_agent cfg = '''')"
  by (auto simp: check_config_def result_simps split: if_splits)

subsection \<open>Facts about registration\<close>

lemma http_next_Inr_iff [result_simps]:
  "http_next w = Inr (i, w') \<longleftrightarrow>
     u64_checked_add (hw_next w) 1 = Some i \<and> w' = w\<lparr>hw_next := i\<rparr>"
  by (auto simp: http_next_def split: option.splits)

lemma http_register_cases:
  assumes "http_register api inner cfg ua w = (r, w')" "tok_new api (hw_tokens w) = (h, t)"
  obtains (added) i where "r = Inr (output_handle i)" "unat i = Suc (unat (hw_next w))"
      "u64_checked_add (hw_next w) 1 = Some i" "\<not> hw_poisoned w"
      "w' = w\<lparr>hw_tokens := t, hw_next := i, hw_clients := (hw_clients w)(i \<mapsto>
         \<lparr>cl_backend = inner, cl_timeout_ms = hc_timeout_ms cfg, cl_user_agent = ua, cl_cancel = h\<rparr>)\<rparr>"
    | (failed) e where "r = Inl e" "err_kind e = ''internal''" "w' = w\<lparr>hw_tokens := t\<rparr>"
proof (cases "hw_poisoned w")
  case True
  with assms show ?thesis
    by (intro failed) (auto simp: http_register_def http_registry_def Let_def)
next
  case False
  show ?thesis
  proof (cases "u64_checked_add (hw_next w) 1")
    case None
    with False assms show ?thesis
      by (intro failed) (auto simp: http_register_def http_registry_def http_next_def Let_def)
  next
    case (Some i)
    with False assms show ?thesis
      by (intro added [of i])
         (auto simp: http_register_def http_registry_def http_next_def Let_def u64_checked_add_Some_iff)
  qed
qed

text \<open>What \<open>make_backend\<close> builds.\<close>

definition backend_matches :: "'n http_sdk \<Rightarrow> http_config \<Rightarrow> factory \<Rightarrow> proxy option \<Rightarrow> backend \<Rightarrow> bool" where
  "backend_matches sdk cfg fac proxy b \<longleftrightarrow>
     (case b of
        Fixed fx \<Rightarrow> explicit_route cfg \<and> fx_proxy fx = proxy \<and>
          fx_follow fx = (\<not> hc_disable_redirects cfg) \<and>
          fx_cookies fx = (if has_cookies sdk fac then Some fac else None)
      | Automatic pool \<Rightarrow> \<not> explicit_route cfg \<and> pool_factory pool = fac \<and>
          pool_redirects pool = (\<not> hc_disable_redirects cfg) \<and>
          pool_cookies pool = has_cookies sdk fac \<and>
          pool_tls_fallback pool = hc_tls_backend_fallback cfg)"

lemma make_backend_matches:
  "make_backend sdk cfg fac proxy = Inr b \<Longrightarrow> backend_matches sdk cfg fac proxy b"
  by (auto simp: make_backend_def backend_matches_def Let_def result_simps split: if_splits)

lemma read_config_Inr_iff:
  "read_config sdk data = Inr (cfg, fac, proxy, ua) \<longleftrightarrow>
     de_config sdk data = Inr cfg \<and> check_config sdk cfg = Inr (fac, proxy, ua)"
  by (auto simp: read_config_def result_simps)

lemma read_config_Inl:
  "read_config sdk data = Inl e \<Longrightarrow> err_kind e = ''invalid_input'' \<and>
     (\<forall>cfg. de_config sdk data = Inr cfg \<longrightarrow> \<not> config_allowed sdk cfg)"
proof -
  assume a: "read_config sdk data = Inl e"
  show ?thesis
  proof (cases "de_config sdk data")
    case (Inr cfg)
    with a have c: "check_config sdk cfg = Inl e"
      by (auto simp: read_config_def result_simps)
    then have "\<not> config_allowed sdk cfg"
      unfolding check_config_Inr_iff [symmetric] by simp
    with Inr c show ?thesis by (auto dest: check_config_Inl)
  qed (use a in \<open>auto simp: read_config_def\<close>)
qed

subsection \<open>Properties of create and create_request\<close>

text \<open>The registry part of the state is as it was.\<close>

definition same_registry :: "('t, 'h, 'n) http_world \<Rightarrow> ('t, 'h, 'n) http_world \<Rightarrow> bool" where
  "same_registry w w' \<longleftrightarrow>
     hw_next w' = hw_next w \<and> hw_clients w' = hw_clients w \<and> hw_calls w' = hw_calls w \<and>
     hw_store w' = hw_store w"

lemma http_create_success:
  assumes "http_create sdk api build data cell w = (Inr out, cell', w')"
    and "tok_new api (hw_tokens w) = (h, t)"
  shows "\<exists>cfg fac proxy ua inner i.
      de_config sdk data = Inr cfg \<and> check_config sdk cfg = Inr (fac, proxy, ua) \<and>
      make_backend sdk cfg fac proxy = Inr inner \<and>
      out = output_handle i \<and> unat i = Suc (unat (hw_next w)) \<and>
      w' = w\<lparr>hw_tokens := t, hw_next := i, hw_clients := (hw_clients w)(i \<mapsto>
         \<lparr>cl_backend = inner, cl_timeout_ms = hc_timeout_ms cfg, cl_user_agent = ua, cl_cancel = h\<rparr>)\<rparr>"
proof -
  obtain cfg fac proxy ua where c: "read_config sdk data = Inr (cfg, fac, proxy, ua)"
    using assms(1) by (cases "read_config sdk data") (auto simp: http_create_def)
  with assms(1) have run: "run build (http_create_task sdk api cfg fac proxy ua) cell w = (Inr out, cell', w')"
    by (simp add: http_create_def)
  then obtain rt where rt: "runtime build cell = (Inr (), rt)"
    by (cases "runtime build cell"; cases "fst (runtime build cell)") (auto simp: run_def)
  obtain inner where b: "make_backend sdk cfg fac proxy = Inr inner"
    using run rt by (cases "make_backend sdk cfg fac proxy") (auto simp: run_def http_create_task_def)
  obtain r w1 where reg: "http_register api inner cfg ua w = (r, w1)"
    by (cases "http_register api inner cfg ua w")
  with run rt b have r: "r = Inr out" "w1 = w'"
    by (simp_all add: run_def http_create_task_def)
  from reg assms(2) show ?thesis
    by (cases rule: http_register_cases) (use r c b in \<open>auto simp: read_config_Inr_iff\<close>)
qed

lemma http_create_failure:
  assumes "http_create sdk api build data cell w = (Inl e, cell', w')"
  shows "w' = w \<or> w' = w\<lparr>hw_tokens := snd (tok_new api (hw_tokens w))\<rparr>"
proof (cases "read_config sdk data")
  case (Inl d)
  with assms show ?thesis by (simp add: http_create_def)
next
  case (Inr x)
  obtain cfg fac proxy ua where x: "x = (cfg, fac, proxy, ua)" by (cases x)
  obtain h t where new: "tok_new api (hw_tokens w) = (h, t)" by (cases "tok_new api (hw_tokens w)")
  have run: "run build (http_create_task sdk api cfg fac proxy ua) cell w = (Inl e, cell', w')"
    using assms Inr x by (simp add: http_create_def)
  show ?thesis
  proof (cases "fst (runtime build cell)")
    case (Inl d)
    with run show ?thesis
      by (cases "runtime build cell") (auto simp: run_def)
  next
    case (Inr u)
    then obtain rt where rt: "runtime build cell = (Inr (), rt)"
      by (cases "runtime build cell") simp
    show ?thesis
    proof (cases "make_backend sdk cfg fac proxy")
      case (Inl d)
      with run rt show ?thesis
        by (simp add: run_def http_create_task_def)
    next
      case (Inr inner)
      obtain r w1 where reg: "http_register api inner cfg ua w = (r, w1)"
        by (cases "http_register api inner cfg ua w")
      with run rt Inr have r: "r = Inl e" "w1 = w'"
        by (simp_all add: run_def http_create_task_def)
      from reg new show ?thesis
        by (cases rule: http_register_cases) (use r in \<open>auto simp: new\<close>)
    qed
  qed
qed

lemma http_create_failure_registry:
  "http_create sdk api build data cell w = (Inl e, cell', w') \<Longrightarrow> same_registry w w'"
  by (drule http_create_failure) (auto simp: same_registry_def)

lemma http_create_rejected:
  assumes "de_config sdk data = Inr cfg" "\<not> config_allowed sdk cfg"
  shows "\<exists>e. http_create sdk api build data cell w = (Inl e, cell, w) \<and> err_kind e = ''invalid_input''"
proof (cases "read_config sdk data")
  case (Inl e)
  then show ?thesis
    using read_config_Inl [OF Inl] by (simp add: http_create_def)
next
  case (Inr x)
  then have "\<exists>x. check_config sdk cfg = Inr x"
    using assms(1) by (auto simp: read_config_def result_simps)
  then have "config_allowed sdk cfg" unfolding check_config_Inr_iff .
  with assms(2) show ?thesis by simp
qed

lemma http_create_accepted:
  assumes "de_config sdk data = Inr cfg" "config_allowed sdk cfg"
    and "\<And>fac proxy. \<exists>b. make_backend sdk cfg fac proxy = Inr b"
    and "fst (runtime build cell) = Inr ()" "\<not> hw_poisoned w" "unat (hw_next w) + 1 < 2 ^ 64"
  shows "\<exists>i cell' w'. http_create sdk api build data cell w = (Inr (output_handle i), cell', w')"
proof -
  obtain fac proxy ua where c: "check_config sdk cfg = Inr (fac, proxy, ua)"
    using assms(2) unfolding check_config_Inr_iff [symmetric] by auto
  obtain b where b: "make_backend sdk cfg fac proxy = Inr b" using assms(3) by blast
  obtain rt where rt: "runtime build cell = (Inr (), rt)"
    using assms(4) by (cases "runtime build cell") simp
  obtain h t where new: "tok_new api (hw_tokens w) = (h, t)" by (cases "tok_new api (hw_tokens w)")
  obtain i where i: "u64_checked_add (hw_next w) 1 = Some i"
    using assms(6) by (cases "u64_checked_add (hw_next w) 1") (auto simp: u64_checked_add_None_iff)
  have "read_config sdk data = Inr (cfg, fac, proxy, ua)"
    using assms(1) c by (simp add: read_config_Inr_iff)
  then show ?thesis
    using rt b new assms(5) i
    by (simp add: http_create_def run_def http_create_task_def http_register_def http_registry_def
        http_next_def)
qed

text \<open>A concrete SDK for the witnesses: the configuration and the request are fixed, and the
  network is the list of responses of \<open>Http_Redirect\<close>.\<close>

definition sample_config :: http_config where
  "sample_config =
     \<lparr>hc_timeout_ms = 5, hc_proxy_policy = '''', hc_proxy_url = '''', hc_no_proxy = True,
      hc_disable_redirects = False, hc_user_agent = ''go'', hc_chatgpt_cookies = None,
      hc_tls_backend_fallback = False\<rparr>"

definition sample_meta :: request_meta where
  "sample_meta =
     \<lparr>rm_method = ''GET'', rm_url = ''a'', rm_headers = [(''accept'', ''x'')], rm_has_body = False,
      rm_has_json = False, rm_json = None\<rparr>"

definition sample_sdk :: "(nat \<times> response list) http_sdk" where
  "sample_sdk =
     \<lparr>de_config = (\<lambda>data. if data = [] then Inl ''eof'' else Inr sample_config),
      de_request = (\<lambda>data. if data = [] then Inl ''eof'' else Inr sample_meta),
      sdk_url = \<lparr>url_parse = (\<lambda>s. Inr (sample_url s)), proxy_all = (\<lambda>u. Inr \<lparr>proxy_target = u, proxy_except = []\<rparr>)\<rparr>,
      sdk_codec = sample_codec, method_from_bytes = Inr,
      has_cookies = (\<lambda>f. fac_cookies f \<noteq> []), build_fixed = (\<lambda>p c. Inr ()),
      set_json = (\<lambda>j b. b), build_request = (\<lambda>fx b. Inr
        \<lparr>rq_method = bd_method b, rq_url = bd_url b, rq_headers = bd_headers b,
         rq_version = ''HTTP/1.1'', rq_timeout = bd_timeout b, rq_body = map_option Buffered (bd_body b)\<rparr>),
      to_json = (\<lambda>m. Inr (ascii (mt_url m))),
      route_send = (\<lambda>p b n. (Inr (sample_response 200 ''''), n)),
      sdk_net = list_net, sdk_redirects = sample_redirects\<rparr>"

text \<open>
  \<open>create\<close> registers a client only for allowed configurations (a known policy, no
  conflicting options, a proxy URL \<open>parse_proxy\<close> accepts, valid cookies and user agent), under the
  next handle, with the backend the options ask for: an explicit route gives the fixed client with
  exactly that proxy and redirects followed unless disabled, and never a system proxy. Any other
  configuration is \<open>invalid_input\<close> and changes nothing; no failure changes the registry; and an
  allowed configuration only fails if the backend or the runtime cannot be built, the registry is
  poisoned or the handles are used up.
\<close>

theorem http_create_spec:
  assumes "http_create sdk api build data cell w = (r, cell', w')"
    and "tok_new api (hw_tokens w) = (h, t)"
  shows "case r of
      Inr out \<Rightarrow>
        (\<exists>cfg fac client i. de_config sdk data = Inr cfg \<and> config_allowed sdk cfg \<and>
           out = output_handle i \<and> unat i = Suc (unat (hw_next w)) \<and>
           w' = w\<lparr>hw_tokens := t, hw_next := i, hw_clients := (hw_clients w)(i \<mapsto> client)\<rparr> \<and>
           cl_cancel client = h \<and> cl_timeout_ms client = hc_timeout_ms cfg \<and>
           (cl_user_agent client = None \<longleftrightarrow> hc_user_agent cfg = '''') \<and>
           (\<exists>proxy. backend_matches sdk cfg fac proxy (cl_backend client) \<and>
              proxy = (if hc_proxy_url cfg = '''' then None
                       else Some (projr (parse_proxy (sdk_url sdk) (hc_proxy_url cfg))))))
    | Inl e \<Rightarrow> same_registry w w' \<and>
        (\<forall>cfg. de_config sdk data = Inr cfg \<and> \<not> config_allowed sdk cfg \<longrightarrow>
           err_kind e = ''invalid_input'' \<and> w' = w) \<and>
        (\<forall>cfg. de_config sdk data = Inr cfg \<and> config_allowed sdk cfg \<longrightarrow>
           (\<exists>fac proxy d. make_backend sdk cfg fac proxy = Inl d) \<or> fst (runtime build cell) \<noteq> Inr () \<or>
           hw_poisoned w \<or> 2 ^ 64 \<le> unat (hw_next w) + 1)"
proof (cases r)
  case (Inl e)
  have "(\<exists>fac proxy d. make_backend sdk cfg fac proxy = Inl d) \<or> fst (runtime build cell) \<noteq> Inr () \<or>
      hw_poisoned w \<or> 2 ^ 64 \<le> unat (hw_next w) + 1"
    if "de_config sdk data = Inr cfg" "config_allowed sdk cfg" for cfg
    using http_create_accepted [OF that, of build cell w api] assms(1) Inl
    by (metis Inl_not_Inr not_le prod.inject sum.exhaust)
  moreover
  have "err_kind e = ''invalid_input'' \<and> w' = w"
    if "de_config sdk data = Inr cfg" "\<not> config_allowed sdk cfg" for cfg
    using http_create_rejected [OF that, of api build cell w] assms(1) Inl by auto
  ultimately show ?thesis using assms(1) Inl by (auto intro: http_create_failure_registry)
next
  case (Inr out)
  from http_create_success [OF assms(1) [unfolded Inr] assms(2)]
  obtain cfg fac proxy ua inner i where c: "de_config sdk data = Inr cfg"
    "check_config sdk cfg = Inr (fac, proxy, ua)" "make_backend sdk cfg fac proxy = Inr inner"
    "out = output_handle i" "unat i = Suc (unat (hw_next w))"
    "w' = w\<lparr>hw_tokens := t, hw_next := i, hw_clients := (hw_clients w)(i \<mapsto>
         \<lparr>cl_backend = inner, cl_timeout_ms = hc_timeout_ms cfg, cl_user_agent = ua, cl_cancel = h\<rparr>)\<rparr>"
    by (elim exE conjE) (rule that)
  have "config_allowed sdk cfg"
    using c(2) check_config_Inr_iff [of sdk cfg] by auto
  moreover have "proxy = (if hc_proxy_url cfg = '''' then None
                       else Some (projr (parse_proxy (sdk_url sdk) (hc_proxy_url cfg))))"
    using check_config_proxy [OF c(2)] by (cases proxy) auto
  ultimately show ?thesis
    unfolding Inr sum.case using c check_config_proxy [OF c(2)] make_backend_matches [OF c(3)]
    by (intro exI [of _ cfg] exI [of _ fac] exI [of _ i]
        exI [of _ "\<lparr>cl_backend = inner, cl_timeout_ms = hc_timeout_ms cfg, cl_user_agent = ua, cl_cancel = h\<rparr>"])
       auto
qed

definition sample_http :: "(token_list, nat, nat \<times> response list) http_world" where
  "sample_http = http_empty [] (0, [])"

lemma sample_create:
  "http_create sample_sdk list_tokens (Inr ()) [1] None sample_http =
     (Inr (output_handle 1), Some (Inr ()),
      sample_http\<lparr>hw_tokens := [([0], False)], hw_next := 1,
        hw_clients := (hw_clients sample_http)(1 \<mapsto>
          \<lparr>cl_backend = Fixed \<lparr>fx_proxy = None, fx_cookies = None, fx_follow = True\<rparr>,
           cl_timeout_ms = 5, cl_user_agent = Some (ascii ''go''), cl_cancel = 0\<rparr>)\<rparr>)"
  by (simp add: http_create_def read_config_def sample_sdk_def check_config_def sample_config_def
      parse_policy_def explicit_route_def make_factory_def run_def runtime_def http_create_task_def
      make_backend_def http_register_def list_tokens_def sample_http_def http_empty_def
      http_registry_def http_next_def u64_checked_add_def sample_codec_def)

theorem http_create_spec_witness:
  "config_allowed sample_sdk sample_config \<and>
   fst (http_create sample_sdk list_tokens (Inr ()) [1] None sample_http) = Inr (output_handle 1)"
proof -
  have new: "tok_new list_tokens (hw_tokens sample_http) = (0, [([0], False)])"
    by (simp add: list_tokens_def sample_http_def http_empty_def)
  have cfg: "de_config sample_sdk [1] = Inr sample_config" by (simp add: sample_sdk_def)
  have "config_allowed sample_sdk sample_config"
    using http_create_spec [OF sample_create new] unfolding sum.case cfg by auto
  then show ?thesis by (simp add: sample_create)
qed

subsection \<open>The request create_request prepares\<close>

text \<open>The builder a client and a request's metadata should give.\<close>

definition wanted_builder ::
  "'n http_sdk \<Rightarrow> 'h http_client \<Rightarrow> request_meta \<Rightarrow> bytes \<Rightarrow> string \<Rightarrow> url \<Rightarrow> headers \<Rightarrow> builder \<Rightarrow> bool" where
  "wanted_builder sdk client meta body verb u hs b \<longleftrightarrow>
     (let b0 = \<lparr>bd_method = verb, bd_url = u,
                bd_headers = hs @ (case cl_user_agent client of None \<Rightarrow> []
                   | Some v \<Rightarrow> if \<exists>w. (''user-agent'', w) \<in> set hs then [] else [(''user-agent'', v)]),
                bd_timeout = (if cl_timeout_ms client = 0 then None else Some (unat (cl_timeout_ms client))),
                bd_body = None\<rparr>
      in b = (if rm_has_json meta then set_json sdk (rm_json meta) b0
              else if rm_has_body meta then b0\<lparr>bd_body := Some body\<rparr> else b0))"

lemma prepare_builder_wanted:
  "wanted_builder sdk client meta body verb u hs
     (prepare_builder sdk client meta body verb u (default_user_agent (cl_user_agent client) hs))"
  by (cases "cl_user_agent client")
     (force simp: wanted_builder_def prepare_builder_def default_user_agent_def Let_def
        word_neq_0_conv)+

text \<open>
  A prepared request is what its metadata and its client say: never both a body and JSON, an
  http or https URL, each header decoded, in order and with duplicates kept, the client's user
  agent only where the request names none, the client's timeout unless it is 0, the body's bytes
  unchanged; and it goes to the client's own backend with the client's redirect setting.
\<close>

theorem prepare_request_spec:
  assumes "prepare_request sdk client metadata body = Inr p"
  shows "\<exists>meta verb u hs b. de_request sdk metadata = Inr meta \<and>
           \<not> (rm_has_json meta \<and> rm_has_body meta) \<and>
           method_from_bytes sdk (rm_method meta) = Inr verb \<and>
           url_parse (sdk_url sdk) (rm_url meta) = Inr u \<and> http_scheme u \<and>
           list_all2 (\<lambda>(name, v) (n, v'). name_from_bytes (sdk_codec sdk) name = Inr n \<and>
             (\<exists>raw. b64_decode (sdk_codec sdk) v = Inr raw \<and> value_from_bytes (sdk_codec sdk) raw = Inr v'))
             (rm_headers meta) hs \<and>
           wanted_builder sdk client meta body verb u hs b \<and>
           (case cl_backend client of
              Automatic pool \<Rightarrow> p = PreparedAutomatic pool b
            | Fixed fx \<Rightarrow> (\<exists>req. build_request sdk fx b = Inr req \<and> p = PreparedFixed fx req (fx_follow fx)))"
proof -
  obtain meta where meta: "de_request sdk metadata = Inr meta"
    using assms by (cases "de_request sdk metadata") (auto simp: prepare_request_def)
  obtain verb where verb: "method_from_bytes sdk (rm_method meta) = Inr verb"
    using assms meta by (auto simp: prepare_request_def result_simps split: if_splits)
  obtain u where u: "url_parse (sdk_url sdk) (rm_url meta) = Inr u" "http_scheme u"
    using assms meta by (auto simp: prepare_request_def result_simps split: if_splits)
  obtain hs where hs: "decode_headers (sdk_codec sdk) (rm_headers meta) = Inr hs"
    using assms meta u by (auto simp: prepare_request_def result_simps split: if_splits)
  let ?b = "prepare_builder sdk client meta body verb u (default_user_agent (cl_user_agent client) hs)"
  have rest: "\<not> (rm_has_json meta \<and> rm_has_body meta)"
    "(case cl_backend client of
        Automatic pool \<Rightarrow> Inr (PreparedAutomatic pool ?b)
      | Fixed fixed \<Rightarrow> and_then (map_err bridge_error_of_http (build_request sdk fixed ?b))
          (\<lambda>req. Inr (PreparedFixed fixed req (fx_follow fixed)))) = Inr p"
    using assms meta verb u hs
    by (simp_all add: prepare_request_def Let_def split: if_split_asm)
  then have "case cl_backend client of
              Automatic pool \<Rightarrow> p = PreparedAutomatic pool ?b
            | Fixed fx \<Rightarrow> (\<exists>req. build_request sdk fx ?b = Inr req \<and> p = PreparedFixed fx req (fx_follow fx))"
    by (auto simp: result_simps split: backend.splits)
  with meta verb u hs rest(1) prepare_builder_wanted show ?thesis
    unfolding decode_headers_Inr_iff by blast
qed

definition sample_client :: "nat http_client" where
  "sample_client =
     \<lparr>cl_backend = Fixed \<lparr>fx_proxy = None, fx_cookies = None, fx_follow = True\<rparr>,
      cl_timeout_ms = 5, cl_user_agent = Some (ascii ''go''), cl_cancel = 0\<rparr>"

definition sample_prepared :: prepared where
  "sample_prepared =
     PreparedFixed \<lparr>fx_proxy = None, fx_cookies = None, fx_follow = True\<rparr>
       \<lparr>rq_method = ''GET'', rq_url = sample_url ''a'',
        rq_headers = [(''accept'', ascii ''x''), (''user-agent'', ascii ''go'')],
        rq_version = ''HTTP/1.1'', rq_timeout = Some 5, rq_body = None\<rparr> True"

lemma sample_prepare: "prepare_request sample_sdk sample_client [1] body = Inr sample_prepared"
  by (simp add: sample_codec_def prepare_request_def sample_sdk_def sample_meta_def sample_client_def
      sample_prepared_def sample_url_def http_scheme_def prepare_builder_def default_user_agent_def)

theorem prepare_request_spec_witness:
  "\<exists>u hs b. url_parse (sdk_url sample_sdk) ''a'' = Inr u \<and> http_scheme u \<and>
     wanted_builder sample_sdk sample_client sample_meta [7] ''GET'' u hs b"
proof -
  have "de_request sample_sdk [1] = Inr sample_meta" "rm_url sample_meta = ''a''"
    "method_from_bytes sample_sdk (rm_method sample_meta) = Inr ''GET''"
    by (simp_all add: sample_sdk_def sample_meta_def)
  with prepare_request_spec [OF sample_prepare [of "[7]"]] show ?thesis by auto
qed

subsection \<open>Reading a body\<close>

text \<open>The bytes a stream still gives before it ends or breaks, and how it ends.\<close>

fun stream_bytes :: "body_item list \<Rightarrow> bytes" where
  "stream_bytes [] = []"
| "stream_bytes (Inr chunk # rest) = chunk @ stream_bytes rest"
| "stream_bytes (Inl e # rest) = []"

fun stream_error :: "body_item list \<Rightarrow> http_error option" where
  "stream_error [] = None"
| "stream_error (Inr chunk # rest) = stream_error rest"
| "stream_error (Inl e # rest) = Some e"

definition stream_end :: "body_item list \<Rightarrow> call_result" where
  "stream_end items =
     (case stream_error items of None \<Rightarrow> Inr output_eof | Some e \<Rightarrow> Inl (bridge_error_of_http e))"

lemma stream_end_Cons [simp]:
  "stream_end [] = Inr output_eof"
  "stream_end (Inr chunk # rest) = stream_end rest"
  "stream_end (Inl e # rest) = Inl (bridge_error_of_http e)"
  by (simp_all add: stream_end_def)

lemma later_None [simp]: "later None = None"
  by (simp add: later_def)

declare read_loop.simps [simp del]

lemma read_loop_pending:
  assumes "0 < max_len" "pending \<noteq> []"
  shows "\<exists>d pending'.
      read_loop max_len fire items pending = (Completed (Inr (output_data d)), Streaming items pending') \<and>
      d \<noteq> [] \<and> length d \<le> max_len \<and> pending = d @ pending'"
  using assms
  by (intro exI [of _ "take (min max_len (length pending)) pending"]
        exI [of _ "drop (min max_len (length pending)) pending"])
     (simp add: read_loop.simps Let_def)

lemma read_loop_next:
  "read_loop max_len None (Inr chunk # items) [] = read_loop max_len None items chunk"
  by (subst read_loop.simps) simp

lemma read_loop_data:
  assumes "0 < max_len" "pending @ stream_bytes items \<noteq> []"
  shows "\<exists>d items' pending'.
      read_loop max_len None items pending = (Completed (Inr (output_data d)), Streaming items' pending') \<and>
      d \<noteq> [] \<and> length d \<le> max_len \<and> stream_end items' = stream_end items \<and>
      pending @ stream_bytes items = d @ pending' @ stream_bytes items'"
  using assms
proof (induction items arbitrary: pending)
  case Nil
  then show ?case
    using read_loop_pending [of max_len pending None "[]"] by auto
next
  case (Cons item items)
  show ?case
  proof (cases "pending = []")
    case True
    with Cons.prems obtain chunk where item: "item = Inr chunk" by (cases item) auto
    with True Cons.prems Cons.IH [of chunk] show ?thesis
      by (simp add: read_loop_next)
  next
    case False
    with read_loop_pending [OF Cons.prems(1), of pending None "item # items"] show ?thesis by auto
  qed
qed

lemma read_loop_end:
  "stream_bytes items = [] \<Longrightarrow> read_loop max_len None items [] = (Completed (stream_end items), Done)"
proof (induction items rule: stream_bytes.induct)
  case (2 chunk rest)
  then show ?case by (simp add: read_loop_next)
qed (simp_all add: read_loop.simps)

text \<open>A call is readable here: its handle is registered and nothing has closed it.\<close>

definition open_call ::
  "('t, 'h) token_api \<Rightarrow> runtime_cell \<Rightarrow> u64 \<Rightarrow> nat \<Rightarrow> phase \<Rightarrow> ('t, 'h, 'n) http_world \<Rightarrow> bool" where
  "open_call api cell i r ph w \<longleftrightarrow>
     cell = Some (Inr ()) \<and> \<not> hw_poisoned w \<and> hw_calls w i = Some r \<and>
     map_option ca_phase (hw_store w r) = Some ph \<and> \<not> call_fired api r w"

lemma set_phase_sel [simp]:
  "hw_poisoned (set_phase r ph w) = hw_poisoned w" "hw_calls (set_phase r ph w) = hw_calls w"
  "hw_clients (set_phase r ph w) = hw_clients w" "hw_next (set_phase r ph w) = hw_next w"
  "hw_tokens (set_phase r ph w) = hw_tokens w" "hw_net (set_phase r ph w) = hw_net w"
  "hw_fresh (set_phase r ph w) = hw_fresh w"
  by (simp_all add: set_phase_def)

lemma set_phase_phase [simp]:
  "map_option ca_phase (hw_store (set_phase r ph w) r) = (if hw_store w r = None then None else Some ph)"
  by (cases "hw_store w r") (simp_all add: set_phase_def)

lemma set_phase_fired [simp]: "call_fired api r (set_phase r' ph w) = call_fired api r w"
  by (cases "hw_store w r") (auto simp: call_fired_def set_phase_def split: option.splits)

lemma run_ready:
  "run build f (Some (Inr ())) w =
     (case f w of (Finished r, w') \<Rightarrow> (r, Some (Inr ()), w')
      | (t, w') \<Rightarrow> (Inl (join_error t), Some (Inr ()), w'))"
  by (auto simp: run_def runtime_ready split: prod.splits task.splits)

lemma http_read_streaming:
  assumes "open_call api cell i r (Streaming items pending) w" "0 < n"
    and "read_loop (min n read_cap) None items pending = (Completed x, ph)"
  shows "http_read api build None i n cell w = (x, cell, set_phase r ph w)"
    and "open_call api cell i r ph (set_phase r ph w)"
  using assms
  by (auto simp: http_read_def http_read_on_def http_lookup_def http_registry_def open_call_def
      run_ready select_cancelled_def http_read_task_def split: if_splits)

lemma http_read_done:
  assumes "open_call api cell i r Done w" "0 < n"
  shows "http_read api build None i n cell w = (Inr output_eof, cell, w)"
  using assms
  by (auto simp: http_read_def http_read_on_def http_lookup_def http_registry_def open_call_def
      run_ready select_cancelled_def http_read_task_def)

text \<open>A sequence of reads with the given buffer sizes.\<close>

fun http_reads ::
  "('t, 'h) token_api \<Rightarrow> string + unit \<Rightarrow> u64 \<Rightarrow> nat list \<Rightarrow> runtime_cell \<Rightarrow>
     ('t, 'h, 'n) http_world \<Rightarrow> call_result list \<times> ('t, 'h, 'n) http_world" where
  "http_reads api build i [] cell w = ([], w)"
| "http_reads api build i (n # ns) cell w =
     (let (r, cell', w') = http_read api build None i n cell w;
          (rs, w'') = http_reads api build i ns cell' w'
      in (r # rs, w''))"

lemma http_reads_done:
  "open_call api cell i r Done w \<Longrightarrow> 0 \<notin> set ns \<Longrightarrow>
     http_reads api build i ns cell w = (replicate (length ns) (Inr output_eof), w)"
  by (induction ns) (simp_all add: http_read_done)

text \<open>What a sequence of reads of a body may answer.\<close>

definition reads_deliver :: "nat list \<Rightarrow> bytes \<Rightarrow> call_result \<Rightarrow> call_result list \<Rightarrow> bool" where
  "reads_deliver ns body final rs \<longleftrightarrow>
     (\<exists>ds tail. rs = map (\<lambda>d. Inr (output_data d)) ds @ tail \<and>
        list_all2 (\<lambda>d n. d \<noteq> [] \<and> length d \<le> min n read_cap) ds (take (length ds) ns) \<and>
        (if tail = [] then prefix (concat ds) body \<and> length ns \<le> length body
         else concat ds = body \<and>
              tail = final # replicate (length tail - 1) (Inr output_eof)))"

lemma http_reads_deliver:
  assumes "open_call api cell i r (Streaming items pending) w" "0 \<notin> set ns"
  shows "reads_deliver ns (pending @ stream_bytes items) (stream_end items)
           (fst (http_reads api build i ns cell w))"
  using assms
proof (induction ns arbitrary: items pending w)
  case Nil
  then show ?case by (simp add: reads_deliver_def)
next
  case (Cons n ns)
  let ?body = "pending @ stream_bytes items"
  have n: "0 < n" "0 < min n read_cap" "0 \<notin> set ns"
    using Cons.prems(2) by (auto simp: read_cap_def)
  show ?case
  proof (cases "?body = []")
    case True
    then have "read_loop (min n read_cap) None items pending = (Completed (stream_end items), Done)"
      using read_loop_end by simp
    note R = http_read_streaming [OF Cons.prems(1) n(1) this]
    have "fst (http_reads api build i (n # ns) cell w) =
        stream_end items # replicate (length ns) (Inr output_eof)"
      using R(1) http_reads_done [OF R(2) n(3)] by simp
    then show ?thesis
      unfolding reads_deliver_def True
      by (intro exI [of _ "[]"] exI [of _ "stream_end items # replicate (length ns) (Inr output_eof)"]) simp
  next
    case False
    obtain d items' pending' where d:
      "read_loop (min n read_cap) None items pending = (Completed (Inr (output_data d)), Streaming items' pending')"
      "d \<noteq> []" "length d \<le> min n read_cap" "stream_end items' = stream_end items"
      "?body = d @ pending' @ stream_bytes items'"
      using read_loop_data [OF n(2) False] by blast
    note R = http_read_streaming [OF Cons.prems(1) n(1) d(1)]
    obtain ds tail where IH: "fst (http_reads api build i ns cell (set_phase r (Streaming items' pending') w))
        = map (\<lambda>d. Inr (output_data d)) ds @ tail"
      "list_all2 (\<lambda>d n. d \<noteq> [] \<and> length d \<le> min n read_cap) ds (take (length ds) ns)"
      "if tail = [] then prefix (concat ds) (pending' @ stream_bytes items') \<and>
          length ns \<le> length (pending' @ stream_bytes items')
       else concat ds = pending' @ stream_bytes items' \<and>
          tail = stream_end items # replicate (length tail - 1) (Inr output_eof)"
      using Cons.IH [OF R(2) n(3)] unfolding reads_deliver_def d(4) by blast
    have "fst (http_reads api build i (n # ns) cell w) = map (\<lambda>d. Inr (output_data d)) (d # ds) @ tail"
      using R(1) IH(1) by (simp add: split_beta)
    moreover have "length ns < length ?body" if "length ns \<le> length (pending' @ stream_bytes items')"
      using that d(2,5) by (cases d) simp_all
    ultimately show ?thesis
      unfolding reads_deliver_def using IH(2,3) d(2,3,5)
      by (intro exI [of _ "d # ds"] exI [of _ tail]) (auto split: if_splits)
  qed
qed

subsection \<open>Properties of send and read\<close>

lemma open_call_lookup: "open_call api cell i r ph w \<Longrightarrow> http_lookup i w = Inr r"
  by (simp add: open_call_def http_lookup_def http_registry_def)

lemma http_send_ready:
  assumes "open_call api cell i r (Ready p) w" "fire \<noteq> Some 0"
  shows "http_send sdk api build fire i cell w =
     (let (res, w') = http_send_call sdk (later fire) r p w in (res, cell, w'))"
  using assms open_call_lookup [OF assms(1)]
  by (auto simp: http_send_def http_send_on_def open_call_def run_ready select_cancelled_def
      http_send_task_def split: prod.splits)

lemma open_call_net [simp]:
  "open_call api cell i r ph (w\<lparr>hw_net := n\<rparr>) = open_call api cell i r ph w"
  "open_call api cell i r ph (set_phase r ph' (w\<lparr>hw_net := n\<rparr>)) = open_call api cell i r ph (set_phase r ph' w)"
  by (cases "hw_store w r"; auto simp: open_call_def call_fired_def set_phase_def)+

lemma open_call_set_phase:
  "open_call api cell i r ph w \<Longrightarrow> open_call api cell i r ph' (set_phase r ph' w)"
  by (auto simp: open_call_def)

lemma http_send_call_phase:
  assumes "open_call api cell i r (Ready p) w" "http_send_call sdk fire r p w = (res, w')"
  shows "\<exists>ph. open_call api cell i r ph w' \<and>
           (case res of Inl e \<Rightarrow> ph = Done | Inr out \<Rightarrow> \<exists>items. ph = Streaming items [])"
proof -
  let ?w1 = "set_phase r Done w"
  obtain answer n where a: "send_prepared sdk fire p (hw_net w) = (answer, n)"
    by (cases "send_prepared sdk fire p (hw_net w)")
  have dn: "open_call api cell i r Done (?w1\<lparr>hw_net := n\<rparr>)"
    using open_call_set_phase [OF assms(1)] by simp
  show ?thesis
  proof (cases answer)
    case Dropped
    with a assms(2) dn show ?thesis by (auto simp: http_send_call_def)
  next
    case (Completed x)
    show ?thesis
    proof (cases x)
      case (Inl e)
      with a assms(2) dn Completed show ?thesis by (auto simp: http_send_call_def)
    next
      case (Inr resp)
      show ?thesis
      proof (cases "to_json sdk (response_metadata sdk resp)")
        case (Inl e)
        with a assms(2) dn Completed Inr show ?thesis by (auto simp: http_send_call_def)
      next
        case (Inr data)
        with a assms(2) Completed \<open>x = Inr resp\<close>
        have "res = Inr (output_data data)" "w' = set_phase r (Streaming (rs_items resp) []) (?w1\<lparr>hw_net := n\<rparr>)"
          by (simp_all add: http_send_call_def)
        then show ?thesis using open_call_set_phase [OF dn] by auto
      qed
    qed
  qed
qed

text \<open>A send that gets a response leaves the call streaming its body.\<close>

lemma http_send_streams:
  assumes "open_call api cell i r (Ready p) w"
    and "send_prepared sdk None p (hw_net w) = (Completed (Inr resp), n)"
    and "to_json sdk (response_metadata sdk resp) = Inr data"
  shows "\<exists>w'. http_send sdk api build None i cell w = (Inr (output_data data), cell, w') \<and>
           open_call api cell i r (Streaming (rs_items resp) []) w'"
proof -
  let ?w' = "set_phase r (Streaming (rs_items resp) []) ((set_phase r Done w)\<lparr>hw_net := n\<rparr>)"
  have "http_send sdk api build None i cell w = (Inr (output_data data), cell, ?w')"
    using http_send_ready [OF assms(1), of None sdk build] assms(2,3) by (simp add: http_send_call_def)
  moreover have "open_call api cell i r (Streaming (rs_items resp) []) ?w'"
    using open_call_set_phase [OF open_call_set_phase [OF assms(1)]] by simp
  ultimately show ?thesis by blast
qed

text \<open>
  C9. After a successful send, any sequence of reads with nonempty buffers hands out the body in
  order: nonempty pieces, each at most the buffer and 64 KiB, that concatenate to a prefix of what
  the stream gave; once a read gives anything else, all of it has been delivered, that answer is
  the stream's end (end of file, or its error), and every later read is end of file; and as many
  reads as there are bytes and one more always get there.
\<close>

theorem http_body_in_order:
  assumes "open_call api cell i r (Ready p) w" "0 \<notin> set ns"
    and "send_prepared sdk None p (hw_net w) = (Completed (Inr resp), n)"
    and "to_json sdk (response_metadata sdk resp) = Inr data"
  shows "\<exists>w'. http_send sdk api build None i cell w = (Inr (output_data data), cell, w') \<and>
           reads_deliver ns (stream_bytes (rs_items resp)) (stream_end (rs_items resp))
             (fst (http_reads api build i ns cell w'))"
proof -
  obtain w' where "http_send sdk api build None i cell w = (Inr (output_data data), cell, w')"
    "open_call api cell i r (Streaming (rs_items resp) []) w'"
    using http_send_streams [OF assms(1,3,4)] by blast
  with http_reads_deliver [OF this(2) assms(2)] show ?thesis by auto
qed

text \<open>A call ready to be sent, whose response is two chunks and then a timeout.\<close>

definition sample_timeout :: http_error where
  "sample_timeout =
     \<lparr>he_timeout = True, he_builder = False, he_connect = False,
      he_error = StdError ''late'' OtherError None, he_without_url = StdError ''late'' OtherError None\<rparr>"

definition sample_stream :: response where
  "sample_stream = (sample_response 200 '''')\<lparr>rs_items := [Inr [1, 2], Inr [], Inr [3], Inl sample_timeout]\<rparr>"

definition sample_ready :: "(token_list, nat, nat \<times> response list) http_world" where
  "sample_ready =
     (http_empty [([0], False), ([1, 0], False)] (0, [sample_stream]))
       \<lparr>hw_next := 2, hw_clients := (\<lambda>_. None)(1 \<mapsto> sample_client), hw_calls := (\<lambda>_. None)(2 \<mapsto> 0),
        hw_store := (\<lambda>_. None)(0 \<mapsto> \<lparr>ca_client = 1, ca_cancel = 1, ca_phase = Ready sample_prepared\<rparr>),
        hw_fresh := 1\<rparr>"

lemma sample_ready_open: "open_call list_tokens (Some (Inr ())) 2 0 (Ready sample_prepared) sample_ready"
  by (simp add: open_call_def sample_ready_def http_empty_def call_fired_def list_tokens_def)

lemma sample_send_prepared:
  "send_prepared sample_sdk None sample_prepared (hw_net sample_ready) = (Completed (Inr sample_stream), (1, []))"
  by code_simp

theorem http_body_in_order_witness:
  "\<exists>w'. http_send sample_sdk list_tokens (Inr ()) None 2 (Some (Inr ())) sample_ready
          = (Inr (output_data (ascii ''http://a/'')), Some (Inr ()), w') \<and>
        reads_deliver [1, 1, 9, 9, 9] [1, 2, 3] (Inl (bridge_error_of_http sample_timeout))
          (fst (http_reads list_tokens (Inr ()) 2 [1, 1, 9, 9, 9] (Some (Inr ())) w'))"
proof -
  have "to_json sample_sdk (response_metadata sample_sdk sample_stream) = Inr (ascii ''http://a/'')"
    by code_simp
  from http_body_in_order [OF sample_ready_open _ sample_send_prepared this,
      of "[1, 1, 9, 9, 9]" "Inr ()"]
  show ?thesis by (simp add: sample_stream_def)
qed

text \<open>
  C27. A request is sent at most once: whatever became of the send (a response, an error, a
  cancellation while it waited), the call is no longer ready, a second send is refused as
  \<open>invalid_input\<close> without touching anything, and if the send failed, every read is end of file.
\<close>

theorem http_send_once:
  assumes "open_call api cell i r (Ready p) w" "fire \<noteq> Some 0"
    and "http_send sdk api build fire i cell w = (res, cell', w')"
  shows "http_send sdk api build None i cell' w' =
           (Inl (invalid ''request has already been sent''), cell', w')
       \<and> (\<forall>n. isl res \<and> 0 < n \<longrightarrow>
            http_read api build None i n cell' w' = (Inr output_eof, cell', w'))"
proof -
  obtain x w1 where call: "http_send_call sdk (later fire) r p w = (x, w1)"
    by (cases "http_send_call sdk (later fire) r p w")
  with http_send_ready [OF assms(1,2), of sdk build] assms(3)
  have eq: "res = x" "cell' = cell" "w' = w1" by simp_all
  obtain ph where ph: "open_call api cell i r ph w'"
    "case res of Inl e \<Rightarrow> ph = Done | Inr out \<Rightarrow> \<exists>items. ph = Streaming items []"
    using http_send_call_phase [OF assms(1) call] eq by auto
  have "case ph of Ready _ \<Rightarrow> False | _ \<Rightarrow> True"
    using ph(2) by (cases res) auto
  then have "http_send sdk api build None i cell' w' =
      (Inl (invalid ''request has already been sent''), cell', w')"
    using ph(1) eq(2) open_call_lookup [OF ph(1)]
    by (cases ph) (auto simp: http_send_def http_send_on_def open_call_def run_ready
        select_cancelled_def http_send_task_def)
  moreover have "http_read api build None i n cell' w' = (Inr output_eof, cell', w')"
    if "isl res" "0 < n" for n
    using ph that eq(2) http_read_done [of api cell i r w' n build] by (cases res) auto
  ultimately show ?thesis by blast
qed

theorem http_send_once_witness:
  "\<exists>w'. http_send sample_sdk list_tokens (Inr ()) None 2 (Some (Inr ())) sample_ready
          = (Inr (output_data (ascii ''http://a/'')), Some (Inr ()), w') \<and>
        fst (http_send sample_sdk list_tokens (Inr ()) None 2 (Some (Inr ())) w')
          = Inl (invalid ''request has already been sent'')"
proof -
  have json: "to_json sample_sdk (response_metadata sample_sdk sample_stream) = Inr (ascii ''http://a/'')"
    by code_simp
  have "\<exists>w'. http_send sample_sdk list_tokens (Inr ()) None 2 (Some (Inr ())) sample_ready
      = (Inr (output_data (ascii ''http://a/'')), Some (Inr ()), w')"
    using http_send_ready [OF sample_ready_open, of None sample_sdk "Inr ()"] json sample_send_prepared
    by (simp add: http_send_call_def)
  then obtain w' where "http_send sample_sdk list_tokens (Inr ()) None 2 (Some (Inr ())) sample_ready
      = (Inr (output_data (ascii ''http://a/'')), Some (Inr ()), w')" ..
  from this http_send_once [OF sample_ready_open _ this] show ?thesis by auto
qed

end
