(* ===== verification/Handle_Registry.thy ===== *)
theory Handle_Registry
  imports Cancel_Tokens
begin

text \<open>
  The contract both handle registries of the bridge keep (HTTP clients and their calls, WebSocket
  clients and their connections): one counter of handles per registry, clients that own children,
  a cancellation token per client and a child token per child. \<open>own_step\<close> is its specification,
  one critical section per step, so threads may interleave anywhere between them; in particular a
  child is prepared, allocated and registered in three steps and its client may be closed between
  any two. The locale \<open>owning_registry\<close> carries the invariants over to an implementation.
\<close>

subsection \<open>The abstract machine\<close>

text \<open>
  \<open>own_objects\<close> are the shared allocations behind child handles (an \<open>Arc\<close> lives on in calls in
  flight after its handle is gone): the owner's handle and the token. \<open>own_prepared\<close> and
  \<open>own_allocated\<close> are the threads inside the creation of a child.
\<close>

record ('t, 'h) ownership =
  own_next :: u64
  own_clients :: "u64 \<Rightarrow> 'h option"
  own_children :: "u64 \<Rightarrow> nat option"
  own_objects :: "nat \<Rightarrow> (u64 \<times> 'h) option"
  own_fresh :: nat
  own_prepared :: "(u64 \<times> 'h) set"
  own_allocated :: "(u64 \<times> nat) set"
  own_closing :: "'h set"
  own_tokens :: 't

definition own_empty :: "'t \<Rightarrow> ('t, 'h) ownership" where
  "own_empty t =
     \<lparr>own_next = 0, own_clients = (\<lambda>_. None), own_children = (\<lambda>_. None),
      own_objects = (\<lambda>_. None), own_fresh = 0, own_prepared = {}, own_allocated = {},
      own_closing = {}, own_tokens = t\<rparr>"

text \<open>
  Removing a client removes every child it owns, at the same instant; the token is cancelled in a
  later step of the closing thread, and until then is in \<open>own_closing\<close>.
\<close>

definition own_close_client :: "u64 \<Rightarrow> ('t, 'h) ownership \<Rightarrow> ('t, 'h) ownership" where
  "own_close_client cid s =
     s\<lparr>own_clients := (own_clients s)(cid := None),
       own_children := (\<lambda>i. case own_children s i of None \<Rightarrow> None
          | Some r \<Rightarrow> (if map_option fst (own_objects s r) = Some cid then None else Some r)),
       own_closing := set_option (own_clients s cid) \<union> own_closing s\<rparr>"

definition own_close_child :: "u64 \<Rightarrow> ('t, 'h) ownership \<Rightarrow> ('t, 'h) ownership" where
  "own_close_child i s =
     s\<lparr>own_children := (own_children s)(i := None),
       own_closing :=
         set_option (map_option snd (Option.bind (own_children s i) (own_objects s)))
           \<union> own_closing s\<rparr>"

inductive own_step ::
  "('t, 'h) token_api \<Rightarrow> ('t, 'h) ownership \<Rightarrow> ('t, 'h) ownership \<Rightarrow> bool" for api where
  open_client: "tok_new api (own_tokens s) = (h, t) \<Longrightarrow> u64_checked_add (own_next s) 1 = Some i \<Longrightarrow>
     own_step api s (s\<lparr>own_next := i, own_clients := (own_clients s)(i \<mapsto> h), own_tokens := t\<rparr>)"
| waste_token: "tok_new api (own_tokens s) = (h, t) \<Longrightarrow> own_step api s (s\<lparr>own_tokens := t\<rparr>)"
| prepare: "own_clients s cid = Some h \<Longrightarrow>
     own_step api s (s\<lparr>own_prepared := insert (cid, h) (own_prepared s)\<rparr>)"
| allocate: "(cid, h) \<in> own_prepared s \<Longrightarrow> tok_child api h (own_tokens s) = (h', t) \<Longrightarrow>
     own_step api s (s\<lparr>own_objects := (own_objects s)(own_fresh s \<mapsto> (cid, h')),
        own_allocated := insert (cid, own_fresh s) (own_allocated s),
        own_fresh := Suc (own_fresh s), own_tokens := t\<rparr>)"
| commit: "(cid, r) \<in> own_allocated s \<Longrightarrow> own_clients s cid \<noteq> None \<Longrightarrow>
     u64_checked_add (own_next s) 1 = Some i \<Longrightarrow>
     own_step api s (s\<lparr>own_next := i, own_children := (own_children s)(i \<mapsto> r),
        own_allocated := own_allocated s - {(cid, r)}\<rparr>)"
| forget: "P \<subseteq> own_prepared s \<Longrightarrow> A \<subseteq> own_allocated s \<Longrightarrow>
     own_step api s (s\<lparr>own_prepared := P, own_allocated := A\<rparr>)"
| close_client: "own_step api s (own_close_client cid s)"
| close_child: "own_step api s (own_close_child i s)"
| cancel: "h \<in> own_closing s \<Longrightarrow>
     own_step api s (s\<lparr>own_closing := own_closing s - {h},
        own_tokens := tok_cancel api h (own_tokens s)\<rparr>)"

subsection \<open>The invariant\<close>

text \<open>Handles are nonzero, at most the counter, and name a client or a child, never both.\<close>

definition ids_ok :: "('t, 'h) ownership \<Rightarrow> bool" where
  "ids_ok s \<longleftrightarrow>
     (\<forall>i. own_clients s i \<noteq> None \<or> own_children s i \<noteq> None \<longrightarrow> 0 < unat i \<and> unat i \<le> unat (own_next s)) \<and>
     (\<forall>i. own_clients s i = None \<or> own_children s i = None)"

text \<open>A handle's object exists, is its own, and belongs to a registered client.\<close>

definition refs_ok :: "('t, 'h) ownership \<Rightarrow> bool" where
  "refs_ok s \<longleftrightarrow>
     (\<forall>r. own_objects s r \<noteq> None \<longrightarrow> r < own_fresh s) \<and>
     (\<forall>i r. own_children s i = Some r \<longrightarrow>
        (\<exists>cid h. own_objects s r = Some (cid, h) \<and> own_clients s cid \<noteq> None)) \<and>
     (\<forall>i j r. own_children s i = Some r \<and> own_children s j = Some r \<longrightarrow> i = j) \<and>
     (\<forall>cid r. (cid, r) \<in> own_allocated s \<longrightarrow>
        (\<exists>h. own_objects s r = Some (cid, h)) \<and> (\<forall>i. own_children s i \<noteq> Some r))"

text \<open>A token that is cancelled, or is below one whose closing thread is about to cancel it.\<close>

definition doomed :: "('t, 'h) token_api \<Rightarrow> 't \<Rightarrow> 'h set \<Rightarrow> 'h \<Rightarrow> bool" where
  "doomed api t D h \<longleftrightarrow> is_cancelled api t h \<or> (\<exists>c \<in> D. descends api t c h)"

text \<open>Clients' tokens: roots, alive and distinct.\<close>

definition clients_ok :: "('t, 'h) token_api \<Rightarrow> ('t, 'h) ownership \<Rightarrow> bool" where
  "clients_ok api s \<longleftrightarrow>
     tok_ok api (own_tokens s) \<and>
     (\<forall>h \<in> own_closing s. issued api (own_tokens s) h) \<and>
     (\<forall>cid h. own_clients s cid = Some h \<longrightarrow>
        root_token api (own_tokens s) h \<and> \<not> doomed api (own_tokens s) (own_closing s) h) \<and>
     (\<forall>c1 c2 h. own_clients s c1 = Some h \<and> own_clients s c2 = Some h \<longrightarrow> c1 = c2)"

text \<open>A thread between the two looks at the registry holds its client's token, which is
  cancelled if the client is gone.\<close>

definition prepared_at ::
  "('t, 'h) token_api \<Rightarrow> 't \<Rightarrow> 'h set \<Rightarrow> u64 \<Rightarrow> (u64 \<Rightarrow> 'h option) \<Rightarrow> u64 \<Rightarrow> 'h \<Rightarrow> bool" where
  "prepared_at api t D n clients cid h \<longleftrightarrow>
     root_token api t h \<and> unat cid \<le> unat n \<and>
     (case clients cid of None \<Rightarrow> doomed api t D h | Some h' \<Rightarrow> h' = h) \<and>
     (\<forall>c2. c2 \<noteq> cid \<longrightarrow> clients c2 \<noteq> Some h)"

definition prepared_ok :: "('t, 'h) token_api \<Rightarrow> ('t, 'h) ownership \<Rightarrow> bool" where
  "prepared_ok api s \<longleftrightarrow>
     (\<forall>cid h. (cid, h) \<in> own_prepared s \<longrightarrow>
        prepared_at api (own_tokens s) (own_closing s) (own_next s) (own_clients s) cid h)"

text \<open>Children's tokens: leaves below their own client's token and below no other client's,
  cancelled if the client is gone.\<close>

definition object_at ::
  "('t, 'h) token_api \<Rightarrow> 't \<Rightarrow> 'h set \<Rightarrow> u64 \<Rightarrow> (u64 \<Rightarrow> 'h option) \<Rightarrow> u64 \<Rightarrow> 'h \<Rightarrow> bool" where
  "object_at api t D n clients cid h \<longleftrightarrow>
     leaf_token api t h \<and> \<not> root_token api t h \<and> unat cid \<le> unat n \<and>
     (clients cid = None \<longrightarrow> doomed api t D h) \<and>
     (\<forall>c2 hc. clients c2 = Some hc \<longrightarrow> (descends api t hc h \<longleftrightarrow> c2 = cid))"

definition objects_ok :: "('t, 'h) token_api \<Rightarrow> ('t, 'h) ownership \<Rightarrow> bool" where
  "objects_ok api s \<longleftrightarrow>
     (\<forall>r cid h. own_objects s r = Some (cid, h) \<longrightarrow>
        object_at api (own_tokens s) (own_closing s) (own_next s) (own_clients s) cid h) \<and>
     (\<forall>r1 r2 c1 c2 h. own_objects s r1 = Some (c1, h) \<and> own_objects s r2 = Some (c2, h) \<longrightarrow> r1 = r2)"

definition own_inv :: "('t, 'h) token_api \<Rightarrow> ('t, 'h) ownership \<Rightarrow> bool" where
  "own_inv api s \<longleftrightarrow> ids_ok s \<and> refs_ok s \<and> clients_ok api s \<and> prepared_ok api s \<and> objects_ok api s"

lemma refs_okD:
  assumes "refs_ok s"
  shows "own_objects s r = Some x \<Longrightarrow> r < own_fresh s"
    and "own_children s i = Some r \<Longrightarrow>
           \<exists>cid h. own_objects s r = Some (cid, h) \<and> own_clients s cid \<noteq> None"
    and "own_children s i = Some r \<Longrightarrow> own_children s j = Some r \<Longrightarrow> i = j"
    and "(cid, r) \<in> own_allocated s \<Longrightarrow> \<exists>h. own_objects s r = Some (cid, h)"
    and "(cid, r) \<in> own_allocated s \<Longrightarrow> own_children s i \<noteq> Some r"
    and "own_objects s (own_fresh s) = None"
  using assms unfolding refs_ok_def by (metis option.distinct(1) less_irrefl)+

lemma own_inv_empty: "tok_ok api t \<Longrightarrow> own_inv api (own_empty t)"
  by (simp add: own_inv_def own_empty_def ids_ok_def refs_ok_def clients_ok_def prepared_ok_def
      objects_ok_def)

lemma own_invD:
  assumes "own_inv api s"
  shows "ids_ok s" "refs_ok s" "clients_ok api s" "prepared_ok api s" "objects_ok api s"
    "tok_ok api (own_tokens s)"
  using assms by (simp_all add: own_inv_def clients_ok_def)

lemma fresh_handle:
  assumes "ids_ok s" "u64_checked_add (own_next s) 1 = Some i"
  shows "unat i = Suc (unat (own_next s))" "own_clients s i = None" "own_children s i = None"
proof -
  show next': "unat i = Suc (unat (own_next s))"
    using assms(2) by (simp add: u64_checked_add_Some_iff)
  then show "own_clients s i = None" "own_children s i = None"
    using assms(1) unfolding ids_ok_def by (metis Suc_n_not_le_n)+
qed

subsection \<open>Growing the token store\<close>

definition tok_extends :: "('t, 'h) token_api \<Rightarrow> 't \<Rightarrow> 't \<Rightarrow> bool" where
  "tok_extends api t t' \<longleftrightarrow>
     tok_ok api t' \<and>
     (\<forall>x. issued api t x \<longrightarrow> issued api t' x \<and> is_cancelled api t' x = is_cancelled api t x \<and>
        (\<forall>a. descends api t' a x \<longleftrightarrow> descends api t a x))"

lemma new_extends:
  assumes "token_laws api" "tok_ok api t" "tok_new api t = (h, t')"
  shows "tok_extends api t t'"
proof -
  note T = token_newD [OF assms]
  show ?thesis
    using T(1,2) by (auto simp: tok_extends_def T(4,5,6))
qed

lemma child_extends:
  assumes "token_laws api" "tok_ok api t" "issued api t p" "tok_child api p t = (h, t')"
  shows "tok_extends api t t'"
proof -
  note T = token_childD [OF assms]
  show ?thesis
    using T(1,2) by (auto simp: tok_extends_def T(4,5,6))
qed

lemma extends_doomed: "tok_extends api t t' \<Longrightarrow> issued api t h \<Longrightarrow> doomed api t' D h = doomed api t D h"
  by (simp add: tok_extends_def doomed_def)

lemma new_not_doomed:
  assumes "token_laws api" "tok_ok api t" "tok_new api t = (h, t')" "\<forall>c \<in> D. issued api t c"
  shows "\<not> doomed api t' D h"
proof -
  note T = token_newD [OF assms(1-3)]
  have "c \<noteq> h \<and> \<not> descends api t c h" if "c \<in> D" for c
    using assms(4) that T(2) token_treeD(2) [OF assms(1,2)] by blast
  then show ?thesis
    by (auto simp: doomed_def T(3,6))
qed

lemma child_doomed:
  assumes "token_laws api" "tok_ok api t" "issued api t p" "tok_child api p t = (h, t')"
    and "\<forall>c \<in> D. issued api t c"
  shows "doomed api t' D h = doomed api t D p"
proof -
  note T = token_childD [OF assms(1-4)]
  have "c \<noteq> h \<and> \<not> descends api t c h" if "c \<in> D" for c
    using assms(5) that T(2) token_treeD(2) [OF assms(1,2)] by blast
  then show ?thesis
    by (auto simp: doomed_def T(3,6))
qed

text \<open>Cancelling a token that was due changes nothing about which tokens are doomed.\<close>

lemma cancel_doomed:
  assumes "token_laws api" "tok_ok api t" "issued api t c" "c \<in> D"
  shows "doomed api (tok_cancel api c t) (D - {c}) h = doomed api t D h"
  using assms(4) token_cancelD(3,4) [OF assms(1-3)] by (auto simp: doomed_def)

lemma extends_root: "tok_extends api t t' \<Longrightarrow> issued api t h \<Longrightarrow> root_token api t' h = root_token api t h"
  unfolding tok_extends_def root_token_def by blast

lemma new_leaf:
  assumes "token_laws api" "tok_ok api t" "tok_new api t = (h, t')" "leaf_token api t x"
  shows "leaf_token api t' x"
proof -
  note T = token_newD [OF assms(1-3)]
  show ?thesis
    using assms(4) by (auto simp: leaf_token_def T(4,6))
qed

lemma child_leaf:
  assumes "token_laws api" "tok_ok api t" "issued api t p" "tok_child api p t = (h, t')"
    and "leaf_token api t x" "x \<noteq> p"
  shows "leaf_token api t' x"
proof -
  note T = token_childD [OF assms(1-4)]
  show ?thesis
    using assms(5,6) by (auto simp: leaf_token_def T(4,6))
qed

lemma prepared_issued: "prepared_at api t D n cl cid h \<Longrightarrow> issued api t h"
  by (simp add: prepared_at_def root_token_def)

lemma object_issued: "object_at api t D n cl cid h \<Longrightarrow> issued api t h"
  by (simp add: object_at_def leaf_token_def)

lemma prepared_at_extends:
  assumes "prepared_at api t D n cl cid h" "tok_extends api t t'" "unat n \<le> unat n'"
  shows "prepared_at api t' D n' cl cid h"
proof -
  have "issued api t h" using assms(1) by (rule prepared_issued)
  then have "root_token api t' h = root_token api t h" "doomed api t' D h = doomed api t D h"
    using assms(2) by (simp_all add: extends_root extends_doomed)
  with assms(1,3) show ?thesis by (cases "cl cid") (simp_all add: prepared_at_def)
qed

lemma object_at_extends:
  assumes "object_at api t D n cl cid h" "tok_extends api t t'" "unat n \<le> unat n'"
    and "leaf_token api t' h"
  shows "object_at api t' D n' cl cid h"
proof -
  have "issued api t h" using assms(1) by (rule object_issued)
  then have "root_token api t' h = root_token api t h" "doomed api t' D h = doomed api t D h"
    "descends api t' x h = descends api t x h" for x
    using assms(2) by (simp_all add: extends_root extends_doomed) (simp add: tok_extends_def)
  with assms(1,3,4) show ?thesis by (simp add: object_at_def)
qed

text \<open>A new client with a fresh handle and a token nobody has seen.\<close>

lemma prepared_at_open:
  assumes "prepared_at api t D n cl cid h" "unat i = Suc (unat n)" "h0 \<noteq> h"
  shows "prepared_at api t D n (cl(i \<mapsto> h0)) cid h"
proof -
  have "cid \<noteq> i" using assms(1,2) by (auto simp: prepared_at_def)
  with assms(1,3) show ?thesis by (simp add: prepared_at_def)
qed

lemma object_at_open:
  assumes "object_at api t D n cl cid h" "unat i = Suc (unat n)" "\<not> descends api t h0 h"
  shows "object_at api t D n (cl(i \<mapsto> h0)) cid h"
proof -
  have "cid \<noteq> i" using assms(1,2) by (auto simp: object_at_def)
  with assms(1,3) show ?thesis by (simp add: object_at_def)
qed

subsection \<open>Every step keeps the invariant\<close>

lemma open_client_inv:
  assumes laws: "token_laws api" and inv: "own_inv api s"
    and new: "tok_new api (own_tokens s) = (h, t)"
    and i: "u64_checked_add (own_next s) 1 = Some i"
  shows "own_inv api (s\<lparr>own_next := i, own_clients := (own_clients s)(i \<mapsto> h), own_tokens := t\<rparr>)"
    (is "own_inv api ?s'")
proof -
  note I = own_invD [OF inv]
  note T = token_newD [OF laws I(6) new]
  note F = fresh_handle [OF I(1) i]
  note ext = new_extends [OF laws I(6) new]
  have n: "unat (own_next s) \<le> unat i" using F(1) by simp
  have "ids_ok ?s'"
    using I(1) F by (auto simp: ids_ok_def le_Suc_eq)
  moreover have "refs_ok ?s'"
    using I(2) unfolding refs_ok_def by fastforce
  moreover have "clients_ok api ?s'"
  proof -
    have old: "root_token api t x \<and> \<not> doomed api t (own_closing s) x \<and> x \<noteq> h"
      if "own_clients s c = Some x" for c x
    proof -
      have x: "root_token api (own_tokens s) x" "\<not> doomed api (own_tokens s) (own_closing s) x"
        using I(3) that by (simp_all add: clients_ok_def)
      then have "issued api (own_tokens s) x" by (simp add: root_token_def)
      with x ext T(2) show ?thesis by (auto simp: extends_root [OF ext] extends_doomed [OF ext])
    qed
    moreover have "root_token api t h"
      using T(2) token_treeD(2) [OF laws I(6), of _ h] by (auto simp: root_token_def T(4,6))
    moreover have "\<not> doomed api t (own_closing s) h"
      using I(3) by (intro new_not_doomed [OF laws I(6) new]) (simp add: clients_ok_def)
    ultimately show ?thesis
      using I(3) T(1) unfolding clients_ok_def by (auto simp: T(4) split: if_splits)
  qed
  moreover have "prepared_ok api ?s'"
  proof -
    have "prepared_at api t (own_closing s) i ((own_clients s)(i \<mapsto> h)) cid x" if "(cid, x) \<in> own_prepared s" for cid x
    proof -
      have p: "prepared_at api (own_tokens s) (own_closing s) (own_next s) (own_clients s) cid x"
        using I(4) that by (simp add: prepared_ok_def)
      moreover have "h \<noteq> x" using prepared_issued [OF p] T(2) by blast
      ultimately have "prepared_at api (own_tokens s) (own_closing s) (own_next s) ((own_clients s)(i \<mapsto> h)) cid x"
        using F(1) by (intro prepared_at_open)
      then show ?thesis using ext n by (rule prepared_at_extends)
    qed
    then show ?thesis by (simp add: prepared_ok_def)
  qed
  moreover have "objects_ok api ?s'"
  proof -
    have "object_at api t (own_closing s) i ((own_clients s)(i \<mapsto> h)) cid x" if "own_objects s r = Some (cid, x)" for r cid x
    proof -
      have o: "object_at api (own_tokens s) (own_closing s) (own_next s) (own_clients s) cid x"
        using I(5) that by (simp add: objects_ok_def)
      moreover have "\<not> descends api (own_tokens s) h x"
        using token_treeD(1) [OF laws I(6)] T(2) by blast
      ultimately have "object_at api (own_tokens s) (own_closing s) (own_next s) ((own_clients s)(i \<mapsto> h)) cid x"
        using F(1) by (intro object_at_open)
      moreover have "leaf_token api t x"
        using o new_leaf [OF laws I(6) new] by (simp add: object_at_def)
      ultimately show ?thesis using object_at_extends [OF _ ext n] by blast
    qed
    then show ?thesis using I(5) by (simp add: objects_ok_def)
  qed
  ultimately show ?thesis
    by (simp add: own_inv_def)
qed

lemma extend_tokens_inv:
  assumes inv: "own_inv api s" and ext: "tok_extends api (own_tokens s) t"
    and leaf: "\<And>x. leaf_token api (own_tokens s) x \<Longrightarrow> \<not> root_token api (own_tokens s) x \<Longrightarrow> leaf_token api t x"
  shows "own_inv api (s\<lparr>own_tokens := t\<rparr>)"
proof -
  note I = own_invD [OF inv]
  have "clients_ok api (s\<lparr>own_tokens := t\<rparr>)"
  proof -
    have "root_token api t x \<and> \<not> doomed api t (own_closing s) x"
      if "own_clients s c = Some x" for c x
    proof -
      have x: "root_token api (own_tokens s) x" "\<not> doomed api (own_tokens s) (own_closing s) x"
        using I(3) that by (simp_all add: clients_ok_def)
      then have "issued api (own_tokens s) x" by (simp add: root_token_def)
      with x ext show ?thesis by (simp add: extends_root [OF ext] extends_doomed [OF ext])
    qed
    with I(3) ext show ?thesis by (auto simp: clients_ok_def tok_extends_def)
  qed
  moreover have "prepared_ok api (s\<lparr>own_tokens := t\<rparr>)"
    using I(4) prepared_at_extends [OF _ ext order.refl] by (simp add: prepared_ok_def)
  moreover have "objects_ok api (s\<lparr>own_tokens := t\<rparr>)"
    using I(5) object_at_extends [OF _ ext order.refl] leaf
    unfolding objects_ok_def by (simp add: object_at_def [of api "own_tokens s"])
  ultimately show ?thesis
    using I(1,2) by (simp add: own_inv_def ids_ok_def refs_ok_def)
qed


lemma waste_token_inv:
  assumes "token_laws api" "own_inv api s" "tok_new api (own_tokens s) = (h, t)"
  shows "own_inv api (s\<lparr>own_tokens := t\<rparr>)"
  using assms own_invD(6) [OF assms(2)]
  by (intro extend_tokens_inv) (auto intro: new_extends new_leaf)

lemma prepare_inv:
  assumes inv: "own_inv api s" and c: "own_clients s cid = Some h"
  shows "own_inv api (s\<lparr>own_prepared := insert (cid, h) (own_prepared s)\<rparr>)"
proof -
  note I = own_invD [OF inv]
  have "prepared_at api (own_tokens s) (own_closing s) (own_next s) (own_clients s) cid h"
    using I(1,3) c by (auto simp: prepared_at_def ids_ok_def clients_ok_def)
  then show ?thesis
    using inv by (auto simp: own_inv_def ids_ok_def refs_ok_def clients_ok_def prepared_ok_def
        objects_ok_def)
qed

lemma forget_inv:
  assumes "own_inv api s" "P \<subseteq> own_prepared s" "A \<subseteq> own_allocated s"
  shows "own_inv api (s\<lparr>own_prepared := P, own_allocated := A\<rparr>)"
proof -
  note I = own_invD [OF assms(1)]
  have "refs_ok (s\<lparr>own_prepared := P, own_allocated := A\<rparr>)"
    using I(2) assms(3) unfolding refs_ok_def by simp blast
  moreover have "prepared_ok api (s\<lparr>own_prepared := P, own_allocated := A\<rparr>)"
    using I(4) assms(2) unfolding prepared_ok_def by simp blast
  ultimately show ?thesis
    using I by (simp add: own_inv_def ids_ok_def clients_ok_def objects_ok_def)
qed

text \<open>Making the child token and the shared object: the token is a new leaf under the
  prepared client's token only, and it is born cancelled if that client has been closed.\<close>

lemma allocate_object_at:
  assumes laws: "token_laws api" and inv: "own_inv api s" and p: "(cid, h) \<in> own_prepared s"
    and child: "tok_child api h (own_tokens s) = (h', t)"
  shows "object_at api t (own_closing s) (own_next s) (own_clients s) cid h'"
proof -
  note I = own_invD [OF inv]
  have pa: "prepared_at api (own_tokens s) (own_closing s) (own_next s) (own_clients s) cid h"
    using I(4) p by (simp add: prepared_ok_def)
  note iss = prepared_issued [OF pa]
  note T = token_childD [OF laws I(6) iss child]
  note tree = token_treeD [OF laws I(6)]
  have "leaf_token api t h'"
    using T(2) tree(1) by (auto simp: leaf_token_def T(4,6))
  moreover have "\<not> root_token api t h'"
    using T(2) iss tree(3) [OF iss] by (auto simp: root_token_def T(4,6))
  moreover have "descends api t hc h' \<longleftrightarrow> c2 = cid" if c2: "own_clients s c2 = Some hc" for c2 hc
  proof -
    have hc: "issued api (own_tokens s) hc"
      using I(3) c2 by (auto simp: clients_ok_def root_token_def)
    then have "descends api t hc h' \<longleftrightarrow> descends api (own_tokens s) hc h"
      using T(2) tree(2) [of hc h'] by (auto simp: T(6))
    also have "\<dots> \<longleftrightarrow> hc = h"
      using pa tree(3) [OF iss] by (auto simp: prepared_at_def root_token_def)
    also have "\<dots> \<longleftrightarrow> c2 = cid"
    proof
      assume "hc = h"
      with pa c2 show "c2 = cid" by (auto simp: prepared_at_def)
    next
      assume "c2 = cid"
      with pa c2 show "hc = h" by (simp add: prepared_at_def)
    qed
    finally show ?thesis .
  qed
  moreover have "own_clients s cid = None \<Longrightarrow> doomed api t (own_closing s) h'"
    using pa I(3) child_doomed [OF laws I(6) iss child]
    by (simp add: prepared_at_def clients_ok_def)
  ultimately show ?thesis
    using pa by (simp add: object_at_def prepared_at_def)
qed

lemma allocate_inv:
  assumes laws: "token_laws api" and inv: "own_inv api s" and p: "(cid, h) \<in> own_prepared s"
    and child: "tok_child api h (own_tokens s) = (h', t)"
  shows "own_inv api (s\<lparr>own_objects := (own_objects s)(own_fresh s \<mapsto> (cid, h')),
        own_allocated := insert (cid, own_fresh s) (own_allocated s),
        own_fresh := Suc (own_fresh s), own_tokens := t\<rparr>)" (is "own_inv api ?s'")
proof -
  note I = own_invD [OF inv]
  have pa: "prepared_at api (own_tokens s) (own_closing s) (own_next s) (own_clients s) cid h"
    using I(4) p by (simp add: prepared_ok_def)
  note iss = prepared_issued [OF pa]
  note T = token_childD [OF laws I(6) iss child]
  have root_h: "root_token api (own_tokens s) h" using pa by (simp add: prepared_at_def)
  have J: "own_inv api (s\<lparr>own_tokens := t\<rparr>)"
  proof (rule extend_tokens_inv [OF inv])
    show "tok_extends api (own_tokens s) t" by (rule child_extends [OF laws I(6) iss child])
    fix x assume "leaf_token api (own_tokens s) x" "\<not> root_token api (own_tokens s) x"
    with root_h show "leaf_token api t x"
      by (metis child_leaf [OF laws I(6) iss child])
  qed
  note J' = own_invD [OF J]
  note none = refs_okD(6) [OF I(2)]
  have "refs_ok ?s'"
  proof -
    have "own_children s i \<noteq> Some (own_fresh s)" for i
      using refs_okD(2) [OF I(2), of i "own_fresh s"] none by auto
    moreover have "(c, own_fresh s) \<notin> own_allocated s" for c
      using refs_okD(4) [OF I(2), of c "own_fresh s"] none by auto
    ultimately show ?thesis
      using I(2) unfolding refs_ok_def by (auto simp: less_Suc_eq)
  qed
  moreover have "objects_ok api ?s'"
  proof -
    have "own_objects s r \<noteq> Some (c, h')" for r c
    proof
      assume "own_objects s r = Some (c, h')"
      then have "object_at api (own_tokens s) (own_closing s) (own_next s) (own_clients s) c h'"
        using I(5) by (simp add: objects_ok_def)
      then have "issued api (own_tokens s) h'" by (rule object_issued)
      with T(2) show False by simp
    qed
    then show ?thesis
      using J'(5) allocate_object_at [OF laws inv p child]
      unfolding objects_ok_def by (auto split: if_splits)
  qed
  moreover have "ids_ok ?s'" "clients_ok api ?s'" "prepared_ok api ?s'"
    using J'(1,3,4) by (simp_all add: ids_ok_def clients_ok_def prepared_ok_def)
  ultimately show ?thesis by (simp add: own_inv_def)
qed

lemma commit_inv:
  assumes inv: "own_inv api s" and a: "(cid, r) \<in> own_allocated s" and c: "own_clients s cid \<noteq> None"
    and i: "u64_checked_add (own_next s) 1 = Some i"
  shows "own_inv api (s\<lparr>own_next := i, own_children := (own_children s)(i \<mapsto> r),
        own_allocated := own_allocated s - {(cid, r)}\<rparr>)" (is "own_inv api ?s'")
proof -
  note I = own_invD [OF inv]
  note F = fresh_handle [OF I(1) i]
  obtain h where r: "own_objects s r = Some (cid, h)" "\<And>j. own_children s j \<noteq> Some r"
    using I(2) a unfolding refs_ok_def by blast
  have "ids_ok ?s'"
    using I(1) F by (auto simp: ids_ok_def le_Suc_eq)
  moreover have "refs_ok ?s'"
  proof -
    have "c' = cid" if "(c', r) \<in> own_allocated s" for c'
      using refs_okD(4) [OF I(2) that] r(1) by simp
    then have "r' \<noteq> r" if "(c', r') \<in> own_allocated s - {(cid, r)}" for c' r'
      using that by blast
    then show ?thesis
      using I(2) r c unfolding refs_ok_def
      by (simp split: if_splits) blast
  qed
  moreover have "clients_ok api ?s'"
    using I(3) by (simp add: clients_ok_def)
  moreover have "prepared_ok api ?s'"
    using I(4) F(1) by (auto simp: prepared_ok_def prepared_at_def intro: le_SucI)
  moreover have "objects_ok api ?s'"
    using I(5) F(1) by (auto simp: objects_ok_def object_at_def intro: le_SucI)
  ultimately show ?thesis by (simp add: own_inv_def)
qed


text \<open>Closing: exactly the tokens below the closed one become doomed.\<close>

lemma insert_doomed: "doomed api t (insert h D) x \<longleftrightarrow> doomed api t D x \<or> descends api t h x"
  by (auto simp: doomed_def)

lemma prepared_at_doomed:
  assumes "prepared_at api t D n cl cid x" "doomed api t D x \<Longrightarrow> doomed api t' D' x"
    and "root_token api t' x = root_token api t x"
  shows "prepared_at api t' D' n cl cid x"
  using assms by (cases "cl cid") (simp_all add: prepared_at_def)

lemma close_client_inv:
  assumes laws: "token_laws api" and inv: "own_inv api s"
  shows "own_inv api (own_close_client cid s)"
proof (cases "own_clients s cid")
  case None
  note I = own_invD [OF inv]
  have "own_children s i = Some r \<Longrightarrow> map_option fst (own_objects s r) \<noteq> Some cid" for i r
    using refs_okD(2) [OF I(2), of i r] None by auto
  then have "own_close_client cid s = s"
    using None by (auto simp: own_close_client_def fun_upd_idem split: option.splits
        intro!: ownership.equality)
  with inv show ?thesis by simp
next
  case (Some h)
  let ?s' = "own_close_client cid s" and ?t = "own_tokens s" and ?D = "insert h (own_closing s)"
  note I = own_invD [OF inv]
  have root_h: "root_token api ?t h"
    using I(3) Some by (simp add: clients_ok_def)
  then have iss: "issued api ?t h" by (simp add: root_token_def)
  have sel: "own_tokens ?s' = ?t" "own_clients ?s' = (own_clients s)(cid := None)"
    "own_next ?s' = own_next s" "own_objects ?s' = own_objects s" "own_fresh ?s' = own_fresh s"
    "own_prepared ?s' = own_prepared s" "own_allocated ?s' = own_allocated s"
    "own_closing ?s' = ?D"
    using Some by (simp_all add: own_close_client_def)
  have child: "own_children ?s' i = Some r \<longleftrightarrow>
      own_children s i = Some r \<and> map_option fst (own_objects s r) \<noteq> Some cid" for i r
    by (auto simp: own_close_client_def split: option.splits if_splits)
  have child_none: "own_children s i = None \<Longrightarrow> own_children ?s' i = None" for i
    by (simp add: own_close_client_def)
  have below: "descends api ?t h x \<Longrightarrow> root_token api ?t x \<Longrightarrow> x = h" for x
    by (auto simp: root_token_def)
  have "ids_ok ?s'"
    using I(1) child child_none unfolding ids_ok_def sel by (metis fun_upd_apply option.exhaust)
  moreover have "refs_ok ?s'"
  proof -
    have live: "\<exists>c x. own_objects s r = Some (c, x) \<and> ((own_clients s)(cid := None)) c \<noteq> None"
      if "own_children ?s' i = Some r" for i r
      using that refs_okD(2) [OF I(2), of i r] by (auto simp: child)
    have sub: "own_children ?s' i = Some r \<Longrightarrow> own_children s i = Some r" for i r
      by (simp add: child)
    show ?thesis
      unfolding refs_ok_def sel
    proof (intro conjI allI impI)
      show "own_objects s r \<noteq> None \<Longrightarrow> r < own_fresh s" for r
        using refs_okD(1) [OF I(2)] by blast
      show "own_children ?s' i = Some r \<Longrightarrow>
          \<exists>c x. own_objects s r = Some (c, x) \<and> ((own_clients s)(cid := None)) c \<noteq> None" for i r
        by (rule live)
      show "own_children ?s' i = Some r \<and> own_children ?s' j = Some r \<Longrightarrow> i = j" for i j r
        using refs_okD(3) [OF I(2)] sub by blast
      show "(c, r) \<in> own_allocated s \<Longrightarrow> \<exists>x. own_objects s r = Some (c, x)" for c r
        using refs_okD(4) [OF I(2)] by blast
      show "(c, r) \<in> own_allocated s \<Longrightarrow> own_children ?s' i \<noteq> Some r" for c r i
        using refs_okD(5) [OF I(2)] sub by blast
    qed
  qed
  moreover have "clients_ok api ?s'"
  proof -
    have "x \<noteq> h" if "own_clients s c = Some x" "c \<noteq> cid" for c x
      using I(3) that Some unfolding clients_ok_def by blast
    then have "\<not> doomed api ?t ?D x" if "own_clients s c = Some x" "c \<noteq> cid" for c x
      using I(3) that below unfolding clients_ok_def insert_doomed by blast
    then show ?thesis
      using I(3) iss unfolding clients_ok_def sel by auto
  qed
  moreover have "prepared_ok api ?s'"
  proof -
    have "prepared_at api ?t ?D (own_next s) ((own_clients s)(cid := None)) c x"
      if p: "(c, x) \<in> own_prepared s" for c x
    proof -
      have pa: "prepared_at api ?t (own_closing s) (own_next s) (own_clients s) c x"
        using I(4) p by (simp add: prepared_ok_def)
      show ?thesis
      proof (cases "c = cid")
        case True
        with pa Some have "x = h" by (simp add: prepared_at_def)
        with pa True token_treeD(3) [OF laws I(6) iss] show ?thesis
          by (simp add: prepared_at_def insert_doomed)
      next
        case False
        with pa show ?thesis
          by (cases "own_clients s c") (simp_all add: prepared_at_def insert_doomed)
      qed
    qed
    then show ?thesis by (simp add: prepared_ok_def sel)
  qed
  moreover have "objects_ok api ?s'"
  proof -
    have "object_at api ?t ?D (own_next s) ((own_clients s)(cid := None)) c x"
      if "own_objects s r = Some (c, x)" for r c x
    proof -
      have oa: "object_at api ?t (own_closing s) (own_next s) (own_clients s) c x"
        using I(5) that by (simp add: objects_ok_def)
      with Some have "descends api ?t h x \<longleftrightarrow> cid = c"
        by (simp add: object_at_def)
      with oa show ?thesis by (auto simp: object_at_def insert_doomed)
    qed
    then show ?thesis
      using I(5) by (simp add: objects_ok_def sel)
  qed
  ultimately show ?thesis by (simp add: own_inv_def)
qed

lemma closing_more_inv:
  assumes inv: "own_inv api s" and leaf: "leaf_token api (own_tokens s) h"
    and root: "\<not> root_token api (own_tokens s) h"
  shows "own_inv api (s\<lparr>own_closing := insert h (own_closing s)\<rparr>)"
proof -
  note I = own_invD [OF inv]
  have "root_token api (own_tokens s) x \<Longrightarrow> \<not> descends api (own_tokens s) h x" for x
    using leaf root by (auto simp: leaf_token_def)
  then have "clients_ok api (s\<lparr>own_closing := insert h (own_closing s)\<rparr>)"
    using I(3) leaf by (auto simp: clients_ok_def insert_doomed leaf_token_def)
  moreover have "prepared_ok api (s\<lparr>own_closing := insert h (own_closing s)\<rparr>)"
  proof -
    have "prepared_at api (own_tokens s) (insert h (own_closing s)) (own_next s) (own_clients s) c x"
      if "(c, x) \<in> own_prepared s" for c x
      by (rule prepared_at_doomed [where D = "own_closing s" and t = "own_tokens s"])
         (use I(4) that in \<open>simp_all add: prepared_ok_def insert_doomed\<close>)
    then show ?thesis by (simp add: prepared_ok_def)
  qed
  moreover have "objects_ok api (s\<lparr>own_closing := insert h (own_closing s)\<rparr>)"
    using I(5) by (auto simp: objects_ok_def object_at_def insert_doomed)
  ultimately show ?thesis
    using I(1,2) by (simp add: own_inv_def ids_ok_def refs_ok_def)
qed

lemma close_child_inv:
  assumes inv: "own_inv api s"
  shows "own_inv api (own_close_child i s)"
proof -
  note I = own_invD [OF inv]
  let ?s1 = "s\<lparr>own_children := (own_children s)(i := None)\<rparr>"
  have "refs_ok ?s1"
    using I(2) unfolding refs_ok_def by auto
  then have drop_handle: "own_inv api ?s1"
    using inv by (auto simp: own_inv_def ids_ok_def clients_ok_def prepared_ok_def objects_ok_def)
  show ?thesis
  proof (cases "own_children s i")
    case None
    then show ?thesis using drop_handle by (simp add: own_close_child_def)
  next
    case (Some r)
    obtain cid h where r: "own_objects s r = Some (cid, h)"
      using refs_okD(2) [OF I(2) Some] by blast
    then have "leaf_token api (own_tokens s) h" "\<not> root_token api (own_tokens s) h"
      using I(5) by (auto simp: objects_ok_def object_at_def)
    then have "own_inv api (?s1\<lparr>own_closing := insert h (own_closing ?s1)\<rparr>)"
      by (intro closing_more_inv [OF drop_handle]) simp_all
    then show ?thesis
      using Some r by (simp add: own_close_child_def)
  qed
qed

lemma cancel_inv:
  assumes laws: "token_laws api" and inv: "own_inv api s" and h: "h \<in> own_closing s"
  shows "own_inv api (s\<lparr>own_closing := own_closing s - {h},
        own_tokens := tok_cancel api h (own_tokens s)\<rparr>)" (is "own_inv api ?s'")
proof -
  note I = own_invD [OF inv]
  have iss: "issued api (own_tokens s) h"
    using I(3) h by (simp add: clients_ok_def)
  note C = token_cancelD [OF laws I(6) iss]
  note D = cancel_doomed [OF laws I(6) iss h]
  have roots: "root_token api (tok_cancel api h (own_tokens s)) x = root_token api (own_tokens s) x"
    "leaf_token api (tok_cancel api h (own_tokens s)) x = leaf_token api (own_tokens s) x" for x
    by (simp_all add: root_token_def leaf_token_def C(2,4))
  have "clients_ok api ?s'"
    using I(3) C(1) by (simp add: clients_ok_def roots C(2) D)
  moreover have "prepared_ok api ?s'"
  proof -
    have "prepared_at api (tok_cancel api h (own_tokens s)) (own_closing s - {h}) (own_next s)
        (own_clients s) c x" if "(c, x) \<in> own_prepared s" for c x
      by (rule prepared_at_doomed [where D = "own_closing s" and t = "own_tokens s"])
         (use I(4) that in \<open>simp_all add: prepared_ok_def roots D\<close>)
    then show ?thesis by (simp add: prepared_ok_def)
  qed
  moreover have "objects_ok api ?s'"
    using I(5) by (simp add: objects_ok_def object_at_def roots D C(4))
  ultimately show ?thesis
    using I(1,2) by (simp add: own_inv_def ids_ok_def refs_ok_def)
qed

lemma own_step_inv:
  assumes "own_step api s s'" "token_laws api" "own_inv api s"
  shows "own_inv api s'"
  using assms
  by (induction rule: own_step.induct)
     (blast intro: open_client_inv waste_token_inv prepare_inv allocate_inv commit_inv forget_inv
        close_client_inv close_child_inv cancel_inv)+

subsection \<open>Registered children are live\<close>

definition live_ok :: "('t, 'h) token_api \<Rightarrow> ('t, 'h) ownership \<Rightarrow> bool" where
  "live_ok api s \<longleftrightarrow>
     (\<forall>r cid h. own_objects s r = Some (cid, h) \<and> own_clients s cid \<noteq> None \<and>
        ((\<exists>i. own_children s i = Some r) \<or> (cid, r) \<in> own_allocated s) \<longrightarrow>
        \<not> doomed api (own_tokens s) (own_closing s) h)"

lemma live_okD:
  assumes "live_ok api s" "own_objects s r = Some (cid, h)" "own_clients s cid \<noteq> None"
    and "(\<exists>i. own_children s i = Some r) \<or> (cid, r) \<in> own_allocated s"
  shows "\<not> doomed api (own_tokens s) (own_closing s) h"
  using assms unfolding live_ok_def by blast

lemma live_ok_weaken:
  assumes "live_ok api s"
    and "\<And>r cid h. own_objects s' r = Some (cid, h) \<Longrightarrow> own_clients s' cid \<noteq> None \<Longrightarrow>
           (\<exists>i. own_children s' i = Some r) \<or> (cid, r) \<in> own_allocated s' \<Longrightarrow>
           own_objects s r = Some (cid, h) \<and> own_clients s cid \<noteq> None \<and>
           ((\<exists>i. own_children s i = Some r) \<or> (cid, r) \<in> own_allocated s) \<and>
           (doomed api (own_tokens s') (own_closing s') h \<longrightarrow>
            doomed api (own_tokens s) (own_closing s) h)"
  shows "live_ok api s'"
  unfolding live_ok_def using live_okD [OF assms(1)] assms(2) by blast

lemma object_tokens:
  assumes "own_inv api s" "own_objects s r = Some (cid, h)"
  shows "object_at api (own_tokens s) (own_closing s) (own_next s) (own_clients s) cid h"
    and "issued api (own_tokens s) h"
proof -
  show "object_at api (own_tokens s) (own_closing s) (own_next s) (own_clients s) cid h"
    using assms by (simp add: own_inv_def objects_ok_def)
  then show "issued api (own_tokens s) h" by (rule object_issued)
qed

lemma live_ok_open:
  assumes inv: "own_inv api s" and live: "live_ok api s" and ext: "tok_extends api (own_tokens s) t"
    and next': "unat i = Suc (unat (own_next s))"
  shows "live_ok api (s\<lparr>own_next := i, own_clients := (own_clients s)(i \<mapsto> h), own_tokens := t\<rparr>)"
  unfolding live_ok_def
proof (intro allI impI, elim conjE)
  let ?s' = "s\<lparr>own_next := i, own_clients := (own_clients s)(i \<mapsto> h), own_tokens := t\<rparr>"
  fix r cid x
  assume r: "own_objects ?s' r = Some (cid, x)"
    and a: "own_clients ?s' cid \<noteq> None" "(\<exists>i. own_children ?s' i = Some r) \<or> (cid, r) \<in> own_allocated ?s'"
  have o: "own_objects s r = Some (cid, x)" using r by simp
  have "cid \<noteq> i"
    using object_tokens(1) [OF inv o] next' by (auto simp: object_at_def)
  with a have "\<not> doomed api (own_tokens s) (own_closing s) x"
    by (intro live_okD [OF live o]) simp_all
  then show "\<not> doomed api (own_tokens ?s') (own_closing ?s') x"
    using extends_doomed [OF ext object_tokens(2) [OF inv o]] by simp
qed

lemma live_ok_extend:
  assumes inv: "own_inv api s" and live: "live_ok api s" and ext: "tok_extends api (own_tokens s) t"
  shows "live_ok api (s\<lparr>own_tokens := t\<rparr>)"
proof -
  have "doomed api t D h = doomed api (own_tokens s) D h" if "own_objects s r = Some (c, h)" for r c h D
    by (rule extends_doomed [OF ext object_tokens(2) [OF inv that]])
  then show ?thesis
    using live by (intro live_ok_weaken [OF live]) auto
qed

lemma live_ok_allocate:
  assumes laws: "token_laws api" and inv: "own_inv api s" and live: "live_ok api s"
    and p: "(cid, h) \<in> own_prepared s" and child: "tok_child api h (own_tokens s) = (h', t)"
  shows "live_ok api (s\<lparr>own_objects := (own_objects s)(own_fresh s \<mapsto> (cid, h')),
        own_allocated := insert (cid, own_fresh s) (own_allocated s),
        own_fresh := Suc (own_fresh s), own_tokens := t\<rparr>)" (is "live_ok api ?s'")
  unfolding live_ok_def
proof (intro allI impI, elim conjE)
  fix r c x
  assume r: "own_objects ?s' r = Some (c, x)" and a: "own_clients ?s' c \<noteq> None"
    "(\<exists>i. own_children ?s' i = Some r) \<or> (c, r) \<in> own_allocated ?s'"
  note I = own_invD [OF inv]
  have pa: "prepared_at api (own_tokens s) (own_closing s) (own_next s) (own_clients s) cid h"
    using I(4) p by (simp add: prepared_ok_def)
  note iss = prepared_issued [OF pa]
  note ext = child_extends [OF laws I(6) iss child]
  show "\<not> doomed api (own_tokens ?s') (own_closing ?s') x"
  proof (cases "r = own_fresh s")
    case True
    then have cx: "c = cid" "x = h'" using r by simp_all
    then obtain hc where hc: "own_clients s cid = Some hc" using a by auto
    with pa have "hc = h" by (simp add: prepared_at_def)
    with hc I(3) have "\<not> doomed api (own_tokens s) (own_closing s) h"
      by (simp add: clients_ok_def)
    moreover have "doomed api t (own_closing s) h' = doomed api (own_tokens s) (own_closing s) h"
      using I(3) by (intro child_doomed [OF laws I(6) iss child]) (simp add: clients_ok_def)
    ultimately show ?thesis using cx by simp
  next
    case False
    then have o: "own_objects s r = Some (c, x)" using r by simp
    have "\<not> doomed api (own_tokens s) (own_closing s) x"
      using a False by (intro live_okD [OF live o]) auto
    then show ?thesis
      using extends_doomed [OF ext object_tokens(2) [OF inv o]] by simp
  qed
qed

lemma live_ok_close_client:
  assumes inv: "own_inv api s" and live: "live_ok api s"
  shows "live_ok api (own_close_client cid s)" (is "live_ok api ?s'")
  unfolding live_ok_def
proof (intro allI impI, elim conjE)
  fix r c x
  assume r: "own_objects ?s' r = Some (c, x)" and a: "own_clients ?s' c \<noteq> None"
    "(\<exists>i. own_children ?s' i = Some r) \<or> (c, r) \<in> own_allocated ?s'"
  have o: "own_objects s r = Some (c, x)" using r by (simp add: own_close_client_def)
  have c: "own_clients s c \<noteq> None" "c \<noteq> cid"
    using a(1) by (auto simp: own_close_client_def split: if_splits)
  have "(\<exists>i. own_children s i = Some r) \<or> (c, r) \<in> own_allocated s"
    using a(2) by (auto simp: own_close_client_def split: option.splits if_splits)
  then have "\<not> doomed api (own_tokens s) (own_closing s) x"
    by (intro live_okD [OF live o c(1)])
  moreover have "own_clients s cid = Some h \<Longrightarrow> \<not> descends api (own_tokens s) h x" for h
    using object_tokens(1) [OF inv o] c(2) by (auto simp: object_at_def)
  ultimately show "\<not> doomed api (own_tokens ?s') (own_closing ?s') x"
    by (cases "own_clients s cid") (simp_all add: own_close_client_def insert_doomed)
qed

lemma live_ok_close_child:
  assumes inv: "own_inv api s" and live: "live_ok api s"
  shows "live_ok api (own_close_child i s)" (is "live_ok api ?s'")
proof (cases "own_children s i")
  case None
  then have "own_close_child i s = s"
    by (simp add: own_close_child_def fun_upd_idem)
  with live show ?thesis by simp
next
  case (Some ri)
  note I = own_invD [OF inv]
  obtain ci hi where ri: "own_objects s ri = Some (ci, hi)"
    using refs_okD(2) [OF I(2) Some] by blast
  show ?thesis
    unfolding live_ok_def
  proof (intro allI impI, elim conjE)
    fix r c x
    assume r: "own_objects ?s' r = Some (c, x)" and a: "own_clients ?s' c \<noteq> None"
      "(\<exists>j. own_children ?s' j = Some r) \<or> (c, r) \<in> own_allocated ?s'"
    have o: "own_objects s r = Some (c, x)" using r by (simp add: own_close_child_def)
    have "r \<noteq> ri"
      using a(2) refs_okD(3,5) [OF I(2)] Some
      by (auto simp: own_close_child_def split: if_splits)
    then have "x \<noteq> hi"
      using I(5) o ri unfolding objects_ok_def by blast
    then have "\<not> descends api (own_tokens s) hi x"
      using object_tokens(1) [OF inv ri] by (auto simp: object_at_def leaf_token_def)
    moreover have "\<not> doomed api (own_tokens s) (own_closing s) x"
      using a by (intro live_okD [OF live o]) (auto simp: own_close_child_def split: if_splits)
    ultimately show "\<not> doomed api (own_tokens ?s') (own_closing ?s') x"
      using Some ri by (simp add: own_close_child_def insert_doomed)
  qed
qed

lemma own_step_live:
  assumes "own_step api s s'" "token_laws api" "own_inv api s" "live_ok api s"
  shows "live_ok api s'"
  using assms
proof (induction rule: own_step.induct)
  case (open_client s h t i)
  then show ?case
    using own_invD(6) [OF open_client(4)]
    by (intro live_ok_open new_extends) (auto simp: u64_checked_add_Some_iff)
next
  case (waste_token s h t)
  then show ?case
    using own_invD(6) [OF waste_token(3)] by (intro live_ok_extend new_extends)
next
  case (commit cid r s i)
  obtain h where r: "own_objects s r = Some (cid, h)"
    using refs_okD(4) [OF own_invD(2) [OF commit(5)] commit(1)] by blast
  then have "\<not> doomed api (own_tokens s) (own_closing s) h"
    using commit(1,2) by (intro live_okD [OF commit(6) r]) simp_all
  with r commit(6) show ?case unfolding live_ok_def by auto
next
  case (forget P s A)
  then show ?case by (intro live_ok_weaken [OF forget(5)]) auto
next
  case (cancel h s)
  then have "issued api (own_tokens s) h"
    using own_invD(3) [OF cancel(3)] by (simp add: clients_ok_def)
  with cancel show ?case
    using cancel_doomed [OF cancel(2) own_invD(6) [OF cancel(3)]] by (simp add: live_ok_def)
next
  case (prepare s cid h)
  then show ?case by (simp add: live_ok_def)
qed (simp_all add: live_ok_allocate live_ok_close_client live_ok_close_child)

subsection \<open>What holds along every history\<close>

definition registered :: "('t, 'h) ownership \<Rightarrow> u64 \<Rightarrow> bool" where
  "registered s i \<longleftrightarrow> own_clients s i \<noteq> None \<or> own_children s i \<noteq> None"

lemma reachable_inv:
  assumes "(own_step api)\<^sup>*\<^sup>* (own_empty t0) s" "token_laws api" "tok_ok api t0"
  shows "own_inv api s \<and> live_ok api s"
  using assms(1)
proof (induction rule: rtranclp_induct)
  case base
  show ?case
    using own_inv_empty [OF assms(3)] by (simp add: live_ok_def own_empty_def)
next
  case (step s s')
  then show ?case
    using own_step_inv [OF _ assms(2)] own_step_live [OF _ assms(2)] by blast
qed

text \<open>The counter never goes back, and a step registers only handles above it.\<close>

lemma own_step_handles:
  assumes "own_step api s s'"
  shows "unat (own_next s) \<le> unat (own_next s')"
    and "registered s' i \<Longrightarrow> registered s i \<or> unat (own_next s) < unat i"
  using assms
  by (induction rule: own_step.induct)
     (auto simp: registered_def own_close_client_def own_close_child_def
        u64_checked_add_Some_iff split: if_splits option.splits)

lemma own_steps_handles:
  assumes "(own_step api)\<^sup>*\<^sup>* s s'"
  shows "unat (own_next s) \<le> unat (own_next s')
       \<and> (registered s' i \<longrightarrow> registered s i \<or> unat (own_next s) < unat i)"
  using assms
proof (induction rule: rtranclp_induct)
  case (step s1 s2)
  then show ?case
    using own_step_handles [OF step(2)] by (meson le_less_trans le_trans)
qed simp

text \<open>Shared objects are immutable in what owns them; doomed tokens stay so.\<close>

lemma own_step_objects:
  assumes "own_step api s s'" "refs_ok s" "own_objects s r = Some x"
  shows "own_objects s' r = Some x"
  using assms refs_okD(1) [OF assms(2,3)]
  by (induction rule: own_step.induct) (auto simp: own_close_client_def own_close_child_def)

lemma orphan_doomed:
  assumes "own_inv api s" "own_objects s r = Some (cid, h)" "own_clients s cid = None"
  shows "doomed api (own_tokens s) (own_closing s) h"
  using object_tokens(1) [OF assms(1,2)] assms(3) by (simp add: object_at_def)

lemma registered_child_live:
  assumes "own_inv api s" "live_ok api s" "own_children s i = Some r"
  shows "\<exists>cid h. own_objects s r = Some (cid, h) \<and> own_clients s cid \<noteq> None \<and>
           \<not> is_cancelled api (own_tokens s) h"
proof -
  obtain cid h where r: "own_objects s r = Some (cid, h)" "own_clients s cid \<noteq> None"
    using refs_okD(2) [OF own_invD(2) [OF assms(1)] assms(3)] by blast
  have "\<not> doomed api (own_tokens s) (own_closing s) h"
    using assms(3) by (intro live_okD [OF assms(2) r]) blast
  with r show ?thesis by (auto simp: doomed_def)
qed

subsection \<open>The interface\<close>

text \<open>
  An implementation of the registry: its states, their abstraction, its steps and its initial
  states. One step of it may be several of the abstract machine, or none.
\<close>

locale owning_registry =
  fixes api :: "('t, 'h) token_api"
    and abs :: "'s \<Rightarrow> ('t, 'h) ownership"
    and step :: "'s \<Rightarrow> 's \<Rightarrow> bool"
    and init :: "'t \<Rightarrow> 's"
  assumes init_abs: "abs (init t) = own_empty t"
    and step_abs: "step s s' \<Longrightarrow> (own_step api)\<^sup>*\<^sup>* (abs s) (abs s')"
begin

lemma steps_abs: "step\<^sup>*\<^sup>* s s' \<Longrightarrow> (own_step api)\<^sup>*\<^sup>* (abs s) (abs s')"
proof (induction rule: rtranclp_induct)
  case (step s1 s2)
  then show ?case using step_abs by (meson rtranclp_trans)
qed simp

lemma history_inv:
  assumes "step\<^sup>*\<^sup>* (init t) s" "token_laws api" "tok_ok api t"
  shows "own_inv api (abs s)" "live_ok api (abs s)"
  using reachable_inv [OF _ assms(2,3)] steps_abs [OF assms(1)] by (simp_all add: init_abs)

lemma handle_bounds:
  assumes "step\<^sup>*\<^sup>* (init t) s" "token_laws api" "tok_ok api t" "registered (abs s) i"
  shows "0 < unat i" "unat i \<le> unat (own_next (abs s))"
    "own_clients (abs s) i = None \<or> own_children (abs s) i = None"
  using own_invD(1) [OF history_inv(1) [OF assms(1-3)]] assms(4)
  by (auto simp: ids_ok_def registered_def)

lemma handle_retired:
  assumes "step\<^sup>*\<^sup>* s s'" "unat i \<le> unat (own_next (abs s))" "\<not> registered (abs s) i"
  shows "\<not> registered (abs s') i"
  using own_steps_handles [OF steps_abs [OF assms(1)], of i] assms(2,3) by auto

lemma handle_fresh:
  assumes "step\<^sup>*\<^sup>* s s'" "registered (abs s') i" "\<not> registered (abs s) i"
  shows "unat (own_next (abs s)) < unat i"
  using own_steps_handles [OF steps_abs [OF assms(1)], of i] assms(2,3) by auto

lemma child_live:
  assumes "step\<^sup>*\<^sup>* (init t) s" "token_laws api" "tok_ok api t" "own_children (abs s) i = Some r"
  shows "\<exists>cid h. own_objects (abs s) r = Some (cid, h) \<and> own_clients (abs s) cid \<noteq> None \<and>
           \<not> is_cancelled api (own_tokens (abs s)) h"
  using registered_child_live [OF history_inv [OF assms(1-3)] assms(4)] .

lemma orphan_cancelled:
  assumes "step\<^sup>*\<^sup>* (init t) s" "token_laws api" "tok_ok api t"
    and "own_objects (abs s) r = Some (cid, h)" "own_clients (abs s) cid = None"
    and "own_closing (abs s) = {}"
  shows "is_cancelled api (own_tokens (abs s)) h"
  using orphan_doomed [OF history_inv(1) [OF assms(1-3)] assms(4,5)] assms(6)
  by (simp add: doomed_def)

end

end
