(* ===== verification/Http_System.thy ===== *)
theory Http_System
  imports Http_Client Handle_Registry
begin

text \<open>
  The HTTP half of the bridge as a system of threads: a step relation whose steps are the critical
  sections of \<open>Http_Client\<close>, in any order, and its interpretation as an \<open>owning_registry\<close>. A task
  that holds a call's phase lock (\<open>send\<close>, \<open>read\<close>) is one step: it touches nothing of the registry,
  and other calls on the same phase wait for it.
\<close>

subsection \<open>The system\<close>

text \<open>
  \<open>hs_found\<close>: threads in \<open>create_request\<close> that hold the client's \<open>Arc\<close>; \<open>hs_made\<close>: those that
  have built their call and are about to register it; \<open>hs_cancelling\<close>: tokens of threads in
  \<open>close\<close> or \<open>close_request\<close> that have released the lock and are about to cancel.
\<close>

record ('t, 'h, 'n) http_system =
  hs_world :: "('t, 'h, 'n) http_world"
  hs_runtime :: runtime_cell
  hs_found :: "(u64 \<times> 'h http_client) set"
  hs_made :: "(u64 \<times> nat) set"
  hs_cancelling :: "'h set"

definition http_init :: "'n \<Rightarrow> 't \<Rightarrow> ('t, 'h, 'n) http_system" where
  "http_init n t =
     \<lparr>hs_world = http_empty t n, hs_runtime = None, hs_found = {}, hs_made = {}, hs_cancelling = {}\<rparr>"

inductive http_step ::
  "'n http_sdk \<Rightarrow> ('t, 'h) token_api \<Rightarrow> ('t, 'h, 'n) http_system \<Rightarrow> ('t, 'h, 'n) http_system \<Rightarrow> bool"
  for sdk api where
  step_create: "http_create sdk api build data (hs_runtime s) (hs_world s) = (res, cell, w) \<Longrightarrow>
     http_step sdk api s (s\<lparr>hs_world := w, hs_runtime := cell\<rparr>)"
| step_find: "http_find_client i (hs_world s) = Inr client \<Longrightarrow>
     http_step sdk api s (s\<lparr>hs_found := insert (i, client) (hs_found s)\<rparr>)"
| step_make: "(i, client) \<in> hs_found s \<Longrightarrow> prepare_request sdk client metadata body = Inr p \<Longrightarrow>
     http_new_call api i (cl_cancel client) p (hs_world s) = (r, w) \<Longrightarrow>
     http_step sdk api s (s\<lparr>hs_world := w, hs_made := insert (i, r) (hs_made s)\<rparr>)"
| step_add: "(i, r) \<in> hs_made s \<Longrightarrow> http_add_call i r (hs_world s) = (res, w) \<Longrightarrow>
     http_step sdk api s (s\<lparr>hs_world := w, hs_made := hs_made s - {(i, r)}\<rparr>)"
| step_leave: "F \<subseteq> hs_found s \<Longrightarrow> M \<subseteq> hs_made s \<Longrightarrow>
     http_step sdk api s (s\<lparr>hs_found := F, hs_made := M\<rparr>)"
| step_send: "http_send_on sdk api build fire r (hs_runtime s) (hs_world s) = (res, cell, w) \<Longrightarrow>
     http_step sdk api s (s\<lparr>hs_world := w, hs_runtime := cell\<rparr>)"
| step_read: "http_read_on api build fire n r (hs_runtime s) (hs_world s) = (res, cell, w) \<Longrightarrow>
     http_step sdk api s (s\<lparr>hs_world := w, hs_runtime := cell\<rparr>)"
| step_unregister: "http_registry (hs_world s) = Inr u \<Longrightarrow>
     http_unregister i (hs_world s) = (client, w) \<Longrightarrow>
     http_step sdk api s (s\<lparr>hs_world := w,
        hs_cancelling := set_option (map_option cl_cancel client) \<union> hs_cancelling s\<rparr>)"
| step_remove: "http_registry (hs_world s) = Inr u \<Longrightarrow>
     http_remove_call i (hs_world s) = (r, w) \<Longrightarrow>
     http_step sdk api s (s\<lparr>hs_world := w,
        hs_cancelling := set_option (map_option ca_cancel (Option.bind r (hw_store w))) \<union> hs_cancelling s\<rparr>)"
| step_cancel: "h \<in> hs_cancelling s \<Longrightarrow>
     http_step sdk api s (s\<lparr>hs_world := http_cancel api h (hs_world s),
        hs_cancelling := hs_cancelling s - {h}\<rparr>)"

subsection \<open>Its abstraction\<close>

definition http_abs :: "('t, 'h, 'n) http_system \<Rightarrow> ('t, 'h) ownership" where
  "http_abs s =
     \<lparr>own_next = hw_next (hs_world s),
      own_clients = (\<lambda>i. map_option cl_cancel (hw_clients (hs_world s) i)),
      own_children = hw_calls (hs_world s),
      own_objects = (\<lambda>r. map_option (\<lambda>c. (ca_client c, ca_cancel c)) (hw_store (hs_world s) r)),
      own_fresh = hw_fresh (hs_world s),
      own_prepared = (\<lambda>(i, c). (i, cl_cancel c)) ` hs_found s,
      own_allocated = hs_made s,
      own_closing = hs_cancelling s,
      own_tokens = hw_tokens (hs_world s)\<rparr>"

lemma run_world:
  "run build f cell w = (r, cell', w') \<Longrightarrow> w' = w \<or> w' = snd (f w)"
  by (auto simp: run_def split: prod.splits sum.splits task.splits)

text \<open>Tasks on a call change its phase and the network only.\<close>

definition only_phase :: "nat \<Rightarrow> ('t, 'h, 'n) http_world \<Rightarrow> ('t, 'h, 'n) http_world \<Rightarrow> bool" where
  "only_phase r w w' \<longleftrightarrow>
     hw_next w' = hw_next w \<and> hw_clients w' = hw_clients w \<and> hw_calls w' = hw_calls w \<and>
     hw_poisoned w' = hw_poisoned w \<and> hw_fresh w' = hw_fresh w \<and> hw_tokens w' = hw_tokens w \<and>
     (\<forall>q. q \<noteq> r \<longrightarrow> hw_store w' q = hw_store w q) \<and>
     map_option (\<lambda>c. (ca_client c, ca_cancel c)) (hw_store w' r)
       = map_option (\<lambda>c. (ca_client c, ca_cancel c)) (hw_store w r)"

lemma only_phase_refl: "only_phase r w w"
  by (simp add: only_phase_def)

lemma only_phase_set: "only_phase r w (set_phase r ph w)"
  by (cases "hw_store w r") (simp_all add: only_phase_def set_phase_def)

lemma only_phase_net: "only_phase r w (w\<lparr>hw_net := n\<rparr>)"
  by (simp add: only_phase_def)

lemma only_phase_trans: "only_phase r w w1 \<Longrightarrow> only_phase r w1 w2 \<Longrightarrow> only_phase r w w2"
  by (simp add: only_phase_def)

lemma only_phase_send_call: "http_send_call sdk fire r p w = (res, w') \<Longrightarrow> only_phase r w w'"
  unfolding http_send_call_def Let_def
  by (auto split: prod.splits polled.splits sum.splits
      intro: only_phase_trans [OF only_phase_trans [OF only_phase_set only_phase_net] only_phase_set]
        only_phase_trans [OF only_phase_set only_phase_net])

lemma only_phase_send_task: "only_phase r w (snd (http_send_task sdk fire r w))"
  by (auto simp: http_send_task_def only_phase_refl split: prod.splits phase.splits option.splits
      intro: only_phase_send_call)

lemma only_phase_read_task: "only_phase r w (snd (http_read_task n fire r w))"
  by (auto simp: http_read_task_def only_phase_refl split: prod.splits phase.splits option.splits
      intro: only_phase_set)

lemma only_phase_send_on:
  "http_send_on sdk api build fire r cell w = (res, cell', w') \<Longrightarrow> only_phase r w w'"
  unfolding http_send_on_def
  by (drule run_world) (auto simp: select_cancelled_def only_phase_refl only_phase_send_task)

lemma only_phase_read_on:
  "http_read_on api build fire n r cell w = (res, cell', w') \<Longrightarrow> only_phase r w w'"
  unfolding http_read_on_def
  by (drule run_world) (auto simp: select_cancelled_def only_phase_refl only_phase_read_task)

lemma only_phase_abs:
  assumes "only_phase r (hs_world s) w"
  shows "http_abs (s\<lparr>hs_world := w, hs_runtime := cell\<rparr>) = http_abs s"
proof -
  have "map_option (\<lambda>c. (ca_client c, ca_cancel c)) (hw_store w q)
      = map_option (\<lambda>c. (ca_client c, ca_cancel c)) (hw_store (hs_world s) q)" for q
    using assms by (cases "q = r") (simp_all add: only_phase_def)
  then show ?thesis
    using assms unfolding http_abs_def by (simp add: only_phase_def)
qed

lemma http_abs_create:
  assumes "http_create sdk api build data (hs_runtime s) (hs_world s) = (res, cell, w)"
  shows "(own_step api)\<^sup>*\<^sup>* (http_abs s) (http_abs (s\<lparr>hs_world := w, hs_runtime := cell\<rparr>))"
proof (cases res)
  case (Inr out)
  obtain h t where new: "tok_new api (hw_tokens (hs_world s)) = (h, t)"
    by (cases "tok_new api (hw_tokens (hs_world s))")
  from http_create_success [OF assms [unfolded Inr] new]
  obtain i client where i: "unat i = Suc (unat (hw_next (hs_world s)))" and c: "cl_cancel client = h"
    and w: "w = (hs_world s)\<lparr>hw_tokens := t, hw_next := i,
              hw_clients := (hw_clients (hs_world s))(i \<mapsto> client)\<rparr>"
    by (elim exE conjE) (rule that, assumption, rule http_client.select_convs(4), assumption)
  have next': "u64_checked_add (own_next (http_abs s)) 1 = Some i"
    using i unat_u64_lt [of i] by (simp add: http_abs_def u64_checked_add_Some_iff)
  have "tok_new api (own_tokens (http_abs s)) = (h, t)"
    using new by (simp add: http_abs_def)
  from own_step.open_client [of api "http_abs s", OF this next']
  have "own_step api (http_abs s) (http_abs (s\<lparr>hs_world := w, hs_runtime := cell\<rparr>))"
    unfolding w by (simp add: http_abs_def c fun_upd_def if_distrib cong: if_cong)
  then show ?thesis by blast
next
  case (Inl e)
  obtain h t where new: "tok_new api (own_tokens (http_abs s)) = (h, t)"
    by (cases "tok_new api (own_tokens (http_abs s))")
  from http_create_failure [OF assms [unfolded Inl]] show ?thesis
  proof
    assume "w = hs_world s"
    then show ?thesis by (simp add: http_abs_def)
  next
    assume w: "w = (hs_world s)\<lparr>hw_tokens := snd (tok_new api (hw_tokens (hs_world s)))\<rparr>"
    have "own_step api (http_abs s) ((http_abs s)\<lparr>own_tokens := t\<rparr>)"
      using new by (rule own_step.waste_token)
    moreover have "(http_abs s)\<lparr>own_tokens := t\<rparr> = http_abs (s\<lparr>hs_world := w, hs_runtime := cell\<rparr>)"
      using new unfolding w by (simp add: http_abs_def)
    ultimately show ?thesis by (simp add: r_into_rtranclp)
  qed
qed

lemma http_find_client_Inr_iff:
  "http_find_client i w = Inr client \<longleftrightarrow> \<not> hw_poisoned w \<and> hw_clients w i = Some client"
  by (auto simp: http_find_client_def http_registry_def result_simps)

lemma http_abs_make:
  assumes "(i, client) \<in> hs_found s"
    and "http_new_call api i (cl_cancel client) p (hs_world s) = (r, w)"
  shows "own_step api (http_abs s) (http_abs (s\<lparr>hs_world := w, hs_made := insert (i, r) (hs_made s)\<rparr>))"
proof -
  obtain h t where child: "tok_child api (cl_cancel client) (hw_tokens (hs_world s)) = (h, t)"
    by (cases "tok_child api (cl_cancel client) (hw_tokens (hs_world s))")
  have w: "r = hw_fresh (hs_world s)"
    "w = (hs_world s)\<lparr>hw_store := (hw_store (hs_world s))(r \<mapsto>
       \<lparr>ca_client = i, ca_cancel = h, ca_phase = Ready p\<rparr>),
       hw_fresh := Suc (hw_fresh (hs_world s)), hw_tokens := t\<rparr>"
    using assms(2) child by (auto simp: http_new_call_def)
  have "(i, cl_cancel client) \<in> own_prepared (http_abs s)"
    using assms(1) by (force simp: http_abs_def)
  from own_step.allocate [of i "cl_cancel client" "http_abs s" api h t, OF this]
  have "own_step api (http_abs s) ((http_abs s)\<lparr>
      own_objects := (own_objects (http_abs s))(own_fresh (http_abs s) \<mapsto> (i, h)),
      own_allocated := insert (i, own_fresh (http_abs s)) (own_allocated (http_abs s)),
      own_fresh := Suc (own_fresh (http_abs s)), own_tokens := t\<rparr>)"
    using child by (simp add: http_abs_def)
  moreover have "(http_abs s)\<lparr>
      own_objects := (own_objects (http_abs s))(own_fresh (http_abs s) \<mapsto> (i, h)),
      own_allocated := insert (i, own_fresh (http_abs s)) (own_allocated (http_abs s)),
      own_fresh := Suc (own_fresh (http_abs s)), own_tokens := t\<rparr>
    = http_abs (s\<lparr>hs_world := w, hs_made := insert (i, r) (hs_made s)\<rparr>)"
    unfolding w by (simp add: http_abs_def fun_eq_iff)
  ultimately show ?thesis by simp
qed

lemma http_abs_add:
  assumes "(i, r) \<in> hs_made s" "http_add_call i r (hs_world s) = (res, w)"
  shows "own_step api (http_abs s) (http_abs (s\<lparr>hs_world := w, hs_made := hs_made s - {(i, r)}\<rparr>))"
proof (cases res)
  case (Inl e)
  then have "w = hs_world s"
    using assms(2) by (auto simp: http_add_call_def split: sum.splits if_splits prod.splits)
  then show ?thesis
    using own_step.forget [of "own_prepared (http_abs s)" "http_abs s" "hs_made s - {(i, r)}" api]
    by (simp add: http_abs_def)
next
  case (Inr out)
  then obtain j where j: "hw_clients (hs_world s) i \<noteq> None"
    "u64_checked_add (hw_next (hs_world s)) 1 = Some j"
    "w = (hs_world s)\<lparr>hw_next := j, hw_calls := (hw_calls (hs_world s))(j \<mapsto> r)\<rparr>"
    using assms(2)
    by (auto simp: http_add_call_def http_next_def split: sum.splits if_splits prod.splits option.splits)
  show ?thesis
    using own_step.commit [of i r "http_abs s" j api] assms(1) j(1,2)
    unfolding j(3) by (simp add: http_abs_def)
qed

lemma http_abs_unregister:
  assumes "http_unregister i (hs_world s) = (client, w)"
  shows "own_step api (http_abs s) (http_abs (s\<lparr>hs_world := w,
           hs_cancelling := set_option (map_option cl_cancel client) \<union> hs_cancelling s\<rparr>))"
proof -
  have children: "(case hw_calls (hs_world s) j of None \<Rightarrow> None
      | Some r \<Rightarrow> if map_option ca_client (hw_store (hs_world s) r) = Some i then None else Some r)
    = own_children (own_close_client i (http_abs s)) j" for j
    by (simp add: own_close_client_def http_abs_def option.map_comp comp_def split: option.split)
  have "own_close_client i (http_abs s) = http_abs (s\<lparr>hs_world := w,
           hs_cancelling := set_option (map_option cl_cancel client) \<union> hs_cancelling s\<rparr>)"
    using assms
    by (auto simp: http_unregister_def children http_abs_def own_close_client_def fun_eq_iff
        option.map_comp comp_def split: option.split)
  then show ?thesis using own_step.close_client [of api "http_abs s" i] by simp
qed

lemma http_abs_remove:
  assumes "http_remove_call i (hs_world s) = (r, w)"
  shows "own_step api (http_abs s) (http_abs (s\<lparr>hs_world := w,
           hs_cancelling := set_option (map_option ca_cancel (Option.bind r (hw_store w))) \<union> hs_cancelling s\<rparr>))"
proof -
  have token: "map_option snd (Option.bind (own_children (http_abs s) i) (own_objects (http_abs s)))
      = map_option ca_cancel (Option.bind (hw_calls (hs_world s) i) (hw_store (hs_world s)))"
    by (cases "hw_calls (hs_world s) i")
       (simp_all add: http_abs_def option.map_comp comp_def)
  have "own_close_child i (http_abs s) = http_abs (s\<lparr>hs_world := w,
           hs_cancelling := set_option (map_option ca_cancel (Option.bind r (hw_store w))) \<union> hs_cancelling s\<rparr>)"
    using assms unfolding own_close_child_def token
    by (auto simp: http_remove_call_def http_abs_def)
  then show ?thesis using own_step.close_child [of api "http_abs s" i] by simp
qed

lemma http_step_abs:
  assumes "http_step sdk api s s'"
  shows "(own_step api)\<^sup>*\<^sup>* (http_abs s) (http_abs s')"
  using assms
proof (induction rule: http_step.induct)
  case (step_create build data s res cell w)
  then show ?case by (rule http_abs_create)
next
  case (step_find i s client)
  then have "own_clients (http_abs s) i = Some (cl_cancel client)"
    by (simp add: http_find_client_Inr_iff http_abs_def)
  from own_step.prepare [OF this, of api] show ?case
    by (intro r_into_rtranclp) (simp add: http_abs_def)
next
  case (step_make i client s metadata body p r w)
  then show ?case using http_abs_make by blast
next
  case (step_add i r s res w)
  then show ?case using http_abs_add by blast
next
  case (step_leave F s M)
  then have "(\<lambda>(i, c). (i, cl_cancel c)) ` F \<subseteq> own_prepared (http_abs s)" "M \<subseteq> own_allocated (http_abs s)"
    by (auto simp: http_abs_def)
  from own_step.forget [OF this, of api] show ?case
    by (intro r_into_rtranclp) (simp add: http_abs_def)
next
  case (step_send build fire r s res cell w)
  from only_phase_abs [OF only_phase_send_on [OF this], of cell] show ?case by simp
next
  case (step_read build fire n r s res cell w)
  from only_phase_abs [OF only_phase_read_on [OF this], of cell] show ?case by simp
next
  case (step_unregister s u i client w)
  then show ?case using http_abs_unregister by blast
next
  case (step_remove s u i r w)
  then show ?case using http_abs_remove by blast
next
  case (step_cancel h s)
  then have "h \<in> own_closing (http_abs s)" by (simp add: http_abs_def)
  from own_step.cancel [OF this, of api] show ?case
    by (intro r_into_rtranclp) (simp add: http_abs_def http_cancel_def)
qed

interpretation http_registry_of: owning_registry api http_abs "http_step sdk api" "http_init n"
  for api sdk n
  by unfold_locales (simp_all add: http_step_abs, simp add: http_abs_def http_init_def http_empty_def own_empty_def)

subsection \<open>A history\<close>

text \<open>One client, one call registered in the three steps of \<open>create_request\<close>; then the client is
  closed in the two steps of \<open>close\<close>.\<close>

definition sample_live :: "(token_list, nat, nat \<times> response list) http_system" where
  "sample_live =
     \<lparr>hs_world = \<lparr>hw_next = 2, hw_clients = [1 \<mapsto> sample_client], hw_calls = [2 \<mapsto> 0],
        hw_poisoned = False,
        hw_store = [0 \<mapsto> \<lparr>ca_client = 1, ca_cancel = 1, ca_phase = Ready sample_prepared\<rparr>],
        hw_fresh = 1, hw_tokens = [([0], False), ([1, 0], False)], hw_net = (0, [])\<rparr>,
      hs_runtime = Some (Inr ()), hs_found = {(1, sample_client)}, hs_made = {}, hs_cancelling = {}\<rparr>"

definition sample_shut :: "(token_list, nat, nat \<times> response list) http_system" where
  "sample_shut =
     sample_live\<lparr>hs_world := (hs_world sample_live)\<lparr>hw_clients := (\<lambda>_. None), hw_calls := (\<lambda>_. None),
       hw_tokens := [([0], True), ([1, 0], True)]\<rparr>\<rparr>"

lemma sample_live_history:
  "(http_step sample_sdk list_tokens)\<^sup>*\<^sup>* (http_init (0, []) []) sample_live"
proof -
  let ?s0 = "http_init (0, []) [] :: (token_list, nat, nat \<times> response list) http_system"
  let ?w1 = "sample_http\<lparr>hw_tokens := [([0], False)], hw_next := 1, hw_clients := [1 \<mapsto> sample_client]\<rparr>"
  let ?s1 = "?s0\<lparr>hs_world := ?w1, hs_runtime := Some (Inr ())\<rparr>"
  let ?s2 = "?s1\<lparr>hs_found := {(1, sample_client)}\<rparr>"
  let ?w3 = "?w1\<lparr>hw_store := [0 \<mapsto> \<lparr>ca_client = 1, ca_cancel = 1, ca_phase = Ready sample_prepared\<rparr>],
    hw_fresh := 1, hw_tokens := [([0], False), ([1, 0], False)]\<rparr>"
  let ?s3 = "?s2\<lparr>hs_world := ?w3, hs_made := {(1, 0)}\<rparr>"
  have "http_create sample_sdk list_tokens (Inr ()) [1] (hs_runtime ?s0) (hs_world ?s0)
      = (Inr (output_handle 1), Some (Inr ()), ?w1)"
    using sample_create by (simp add: http_init_def sample_http_def http_empty_def sample_client_def)
  from http_step.step_create [OF this]
  have "http_step sample_sdk list_tokens ?s0 ?s1" by simp
  moreover have "http_step sample_sdk list_tokens ?s1 ?s2"
    using http_step.step_find [of 1 ?s1 sample_client sample_sdk list_tokens]
    by (simp add: http_find_client_Inr_iff sample_http_def http_empty_def http_init_def)
  moreover have "http_step sample_sdk list_tokens ?s2 ?s3"
  proof -
    have "http_new_call list_tokens 1 (cl_cancel sample_client) sample_prepared (hs_world ?s2) = (0, ?w3)"
      by (simp add: http_new_call_def list_tokens_def sample_client_def sample_http_def http_empty_def)
    from http_step.step_make [OF _ sample_prepare this] show ?thesis
      by (simp add: http_init_def)
  qed
  moreover have "http_step sample_sdk list_tokens ?s3 sample_live"
    using http_step.step_add [of 1 0 ?s3 "Inr (output_handle 2)" "hs_world sample_live" sample_sdk list_tokens]
    by (simp add: http_add_call_def http_registry_def http_next_def u64_checked_add_def sample_http_def
        http_empty_def http_init_def sample_live_def)
  ultimately show ?thesis
    by (rule rtranclp.rtrancl_into_rtrancl [OF rtranclp.rtrancl_into_rtrancl
          [OF rtranclp.rtrancl_into_rtrancl [OF r_into_rtranclp]]])
qed

lemma sample_shut_steps: "(http_step sample_sdk list_tokens)\<^sup>*\<^sup>* sample_live sample_shut"
proof -
  let ?w1 = "(hs_world sample_live)\<lparr>hw_clients := (\<lambda>_. None), hw_calls := (\<lambda>_. None)\<rparr>"
  let ?s1 = "sample_live\<lparr>hs_world := ?w1, hs_cancelling := {0}\<rparr>"
  have "http_unregister 1 (hs_world sample_live) = (Some sample_client, ?w1)"
    by (simp add: http_unregister_def sample_live_def fun_eq_iff)
  from http_step.step_unregister [OF _ this, of "()" sample_sdk list_tokens]
  have "http_step sample_sdk list_tokens sample_live ?s1"
    by (simp add: sample_live_def http_registry_def sample_client_def)
  moreover have "http_step sample_sdk list_tokens ?s1 sample_shut"
  proof -
    have "?s1\<lparr>hs_world := http_cancel list_tokens 0 (hs_world ?s1), hs_cancelling := hs_cancelling ?s1 - {0}\<rparr>
        = sample_shut"
      by (simp add: http_cancel_def list_tokens_def sample_shut_def sample_live_def)
    with http_step.step_cancel [of 0 ?s1 sample_sdk list_tokens] show ?thesis by simp
  qed
  ultimately show ?thesis
    by (rule rtranclp.rtrancl_into_rtrancl [OF r_into_rtranclp])
qed

lemma sample_shut_history:
  "(http_step sample_sdk list_tokens)\<^sup>*\<^sup>* (http_init (0, []) []) sample_shut"
  using sample_live_history sample_shut_steps by (rule rtranclp_trans)

subsection \<open>Phases along a history\<close>

text \<open>A call never goes back: not from sent to ready, not from done to anything.\<close>

fun phase_le :: "phase \<Rightarrow> phase \<Rightarrow> bool" where
  "phase_le (Ready p) ph = (case ph of Ready p' \<Rightarrow> p' = p | _ \<Rightarrow> True)"
| "phase_le (Streaming items pending) ph = (case ph of Ready _ \<Rightarrow> False | _ \<Rightarrow> True)"
| "phase_le Done ph = (ph = Done)"

lemma phase_le_refl [simp]: "phase_le ph ph"
  by (cases ph) simp_all

lemma phase_le_trans: "phase_le a b \<Longrightarrow> phase_le b c \<Longrightarrow> phase_le a c"
  by (cases a; cases b; cases c) simp_all

definition call_le :: "'h call option \<Rightarrow> 'h call option \<Rightarrow> bool" where
  "call_le c c' \<longleftrightarrow>
     (case c of None \<Rightarrow> True
      | Some x \<Rightarrow> (\<exists>y. c' = Some y \<and> ca_client y = ca_client x \<and> ca_cancel y = ca_cancel x \<and>
                      phase_le (ca_phase x) (ca_phase y)))"

lemma call_le_refl [simp]: "call_le c c"
  by (cases c) (simp_all add: call_le_def)

lemma call_le_trans: "call_le a b \<Longrightarrow> call_le b c \<Longrightarrow> call_le a c"
  unfolding call_le_def by (cases a; cases b) (auto intro: phase_le_trans)

lemma call_le_set_phase:
  "(\<And>c. hw_store w r = Some c \<Longrightarrow> phase_le (ca_phase c) ph) \<Longrightarrow>
     call_le (hw_store w q) (hw_store (set_phase r ph w) q)"
  by (cases "hw_store w q") (auto simp: call_le_def set_phase_def)

lemma read_loop_phase:
  "read_loop n fire items pending = (res, ph) \<Longrightarrow> phase_le (Streaming items0 pending0) ph"
proof (induction n fire items pending rule: read_loop.induct)
  case (1 n fire items pending)
  show ?case
  proof (cases "pending = [] \<and> fire \<noteq> Some 0")
    case False
    with "1.prems" show ?thesis
      by (subst (asm) read_loop.simps) (auto simp: Let_def split: if_splits)
  next
    case True
    show ?thesis
    proof (cases items)
      case Nil
      with True "1.prems" show ?thesis by (subst (asm) read_loop.simps) auto
    next
      case (Cons item rest)
      show ?thesis
      proof (cases item)
        case (Inl e)
        with True Cons "1.prems" show ?thesis by (subst (asm) read_loop.simps) auto
      next
        case (Inr chunk)
        with True Cons "1.prems" have "read_loop n (later fire) rest chunk = (res, ph)"
          by (subst (asm) read_loop.simps) auto
        then show ?thesis using "1.IH" True Cons Inr by auto
      qed
    qed
  qed
qed

lemma send_call_le:
  assumes "http_send_call sdk fire r p w = (res, w')" "map_option ca_phase (hw_store w r) = Some (Ready p)"
  shows "call_le (hw_store w q) (hw_store w' q)"
proof -
  obtain c where c: "hw_store w r = Some c" "ca_phase c = Ready p"
    using assms(2) by auto
  have dn: "call_le (hw_store w q) (hw_store (set_phase r Done w) q)"
    by (rule call_le_set_phase) (simp add: c)
  have st: "call_le (hw_store w q)
      (hw_store (set_phase r (Streaming items []) ((set_phase r Done w)\<lparr>hw_net := n\<rparr>)) q)" for items n
    using c by (cases "hw_store w q") (auto simp: call_le_def set_phase_def)
  show ?thesis
    using assms(1) dn st unfolding http_send_call_def Let_def
    by (auto split: prod.splits polled.splits sum.splits)
qed

lemma send_on_le:
  assumes "http_send_on sdk api build fire r cell w = (res, cell', w')"
  shows "call_le (hw_store w q) (hw_store w' q)"
proof -
  have "call_le (hw_store w q) (hw_store (snd (http_send_task sdk fire r w)) q)"
    unfolding http_send_task_def by (auto split: option.splits phase.splits prod.splits intro: send_call_le)
  then show ?thesis
    using run_world [OF assms [unfolded http_send_on_def]] by (auto simp: select_cancelled_def)
qed

lemma read_on_le:
  assumes "http_read_on api build fire n r cell w = (res, cell', w')"
  shows "call_le (hw_store w q) (hw_store w' q)"
proof -
  have "call_le (hw_store w q) (hw_store (snd (http_read_task n fire r w)) q)"
    unfolding http_read_task_def
    by (auto split: option.splits phase.splits prod.splits intro!: call_le_set_phase
        dest: read_loop_phase)
  then show ?thesis
    using run_world [OF assms [unfolded http_read_on_def]] by (auto simp: select_cancelled_def)
qed

lemma http_create_store:
  "http_create sdk api build data cell w = (res, cell', w') \<Longrightarrow> hw_store w' = hw_store w"
proof (cases res)
  case (Inr out)
  assume "http_create sdk api build data cell w = (res, cell', w')"
  from http_create_success [OF this [unfolded Inr], of "fst (tok_new api (hw_tokens w))" "snd (tok_new api (hw_tokens w))"]
  show ?thesis by auto
qed (auto dest: http_create_failure)

text \<open>An allocation in the store is used by one call only.\<close>

lemma http_step_call:
  assumes "http_step sdk api s s'" "hw_store (hs_world s) (hw_fresh (hs_world s)) = None"
  shows "call_le (hw_store (hs_world s) q) (hw_store (hs_world s') q)"
  using assms
proof (induction rule: http_step.induct)
  case (step_create build data s res cell w)
  then show ?case by (simp add: http_create_store)
next
  case (step_make i client s metadata body p r w)
  then show ?case
    by (auto simp: http_new_call_def call_le_def split: prod.splits option.splits)
next
  case (step_add i r s res w)
  then have "hw_store w = hw_store (hs_world s)"
    by (auto simp: http_add_call_def http_next_def split: sum.splits if_splits prod.splits option.splits)
  then show ?case by simp
next
  case (step_send build fire r s res cell w)
  then show ?case by (simp add: send_on_le)
next
  case (step_read build fire n r s res cell w)
  then show ?case by (simp add: read_on_le)
qed (auto simp: http_unregister_def http_remove_call_def http_cancel_def)

lemma http_history_fresh:
  assumes "(http_step sdk api)\<^sup>*\<^sup>* (http_init n t) s" "token_laws api" "tok_ok api t"
  shows "hw_store (hs_world s) (hw_fresh (hs_world s)) = None"
proof -
  have "refs_ok (http_abs s)"
    using own_invD(2) [OF http_registry_of.history_inv(1) [OF assms]] .
  from refs_okD(6) [OF this] show ?thesis by (simp add: http_abs_def)
qed

lemma http_history_call:
  assumes "(http_step sdk api)\<^sup>*\<^sup>* (http_init n t) s" "token_laws api" "tok_ok api t"
    and "(http_step sdk api)\<^sup>*\<^sup>* s s'"
  shows "call_le (hw_store (hs_world s) q) (hw_store (hs_world s') q)"
  using assms(4)
proof (induction rule: rtranclp_induct)
  case (step s1 s2)
  then have "(http_step sdk api)\<^sup>*\<^sup>* (http_init n t) s1"
    using assms(1) by (simp add: rtranclp_trans)
  from http_step_call [OF step(2) http_history_fresh [OF this assms(2,3)]] step(3)
  show ?case by (rule call_le_trans [rotated])
qed simp

subsection \<open>Properties of the system\<close>

definition http_handle :: "('t, 'h, 'n) http_system \<Rightarrow> u64 \<Rightarrow> bool" where
  "http_handle s i \<longleftrightarrow> hw_clients (hs_world s) i \<noteq> None \<or> hw_calls (hs_world s) i \<noteq> None"

lemma http_handle_registered: "http_handle s i = registered (http_abs s) i"
  by (simp add: http_handle_def registered_def http_abs_def)

lemma http_abs_next: "own_next (http_abs s) = hw_next (hs_world s)"
  by (simp add: http_abs_def)

text \<open>
  C11. However threads interleave, handles are nonzero and name a client or a call, never both;
  one that is not registered now but was issued is never registered again, and a handle that
  appears later is above every one issued so far: a stale integer never reaches another object.
\<close>

theorem http_handles:
  assumes "(http_step sdk api)\<^sup>*\<^sup>* (http_init n t) s" "token_laws api" "tok_ok api t"
    and "(http_step sdk api)\<^sup>*\<^sup>* s s'"
  shows "(\<not> http_handle s i \<or>
            0 < unat i \<and> unat i \<le> unat (hw_next (hs_world s)) \<and>
            (hw_clients (hs_world s) i = None \<or> hw_calls (hs_world s) i = None))
       \<and> (http_handle s i \<or> unat (hw_next (hs_world s)) < unat i \<or> \<not> http_handle s' i)"
proof
  show "\<not> http_handle s i \<or>
            0 < unat i \<and> unat i \<le> unat (hw_next (hs_world s)) \<and>
            (hw_clients (hs_world s) i = None \<or> hw_calls (hs_world s) i = None)"
    using http_registry_of.handle_bounds [OF assms(1-3), of i]
    by (cases "http_handle s i") (auto simp: http_handle_registered http_abs_def)
  show "http_handle s i \<or> unat (hw_next (hs_world s)) < unat i \<or> \<not> http_handle s' i"
    using http_registry_of.handle_retired [OF assms(4), of i]
    unfolding http_handle_registered http_abs_next by linarith
qed

theorem http_handles_witness:
  "\<not> http_handle sample_shut 2 \<and> http_handle sample_live 2 \<and>
   (\<nexists>s'. (http_step sample_sdk list_tokens)\<^sup>*\<^sup>* sample_shut s' \<and> http_handle s' 2)"
proof -
  have shut: "\<not> http_handle sample_shut 2" "\<not> unat (hw_next (hs_world sample_shut)) < unat (2 :: u64)"
    by (simp_all add: http_handle_def sample_shut_def sample_live_def)
  then have "\<not> http_handle s' 2" if "(http_step sample_sdk list_tokens)\<^sup>*\<^sup>* sample_shut s'" for s'
    using http_handles [OF sample_shut_history list_tokens_laws tok_ok_Nil that, of 2] by blast
  moreover have "http_handle sample_live 2" by (simp add: http_handle_def sample_live_def)
  ultimately show ?thesis using shut(1) by blast
qed

text \<open>
  C2. Closing a client cancels its calls, all of them, also those whose \<open>create_request\<close> was
  still running and those in flight: once no closing thread is about to cancel, every call object
  of an unregistered client has its token fired, so every later \<open>send\<close> or \<open>read\<close> on it, also one
  that looked the handle up before the close, answers \<open>cancelled\<close> and touches nothing.
\<close>

theorem http_closed_calls:
  assumes "(http_step sdk api)\<^sup>*\<^sup>* (http_init n t) s" "token_laws api" "tok_ok api t"
    and "hw_store (hs_world s) r = Some c" "hw_clients (hs_world s) (ca_client c) = None"
    and "hs_cancelling s = {}" "cell = Some (Inr ())"
  shows "is_cancelled api (hw_tokens (hs_world s)) (ca_cancel c)
       \<and> http_send_on sdk api build fire r cell (hs_world s) = (Inl request_cancelled, cell, hs_world s)
       \<and> http_read_on api build fire k r cell (hs_world s) = (Inl request_cancelled, cell, hs_world s)"
proof -
  have "is_cancelled api (own_tokens (http_abs s)) (ca_cancel c)"
    using assms(4-6)
    by (intro http_registry_of.orphan_cancelled [OF assms(1-3), of r "ca_client c"])
       (simp_all add: http_abs_def)
  then have "is_cancelled api (hw_tokens (hs_world s)) (ca_cancel c)"
    by (simp add: http_abs_def)
  with assms(4,7) show ?thesis
    by (simp add: http_send_on_def http_read_on_def run_ready select_cancelled_def call_fired_def)
qed

theorem http_closed_calls_witness:
  "http_send_on sample_sdk list_tokens (Inr ()) None 0 (Some (Inr ())) (hs_world sample_shut)
     = (Inl request_cancelled, Some (Inr ()), hs_world sample_shut)"
proof -
  have "hw_store (hs_world sample_shut) 0 =
      Some \<lparr>ca_client = 1, ca_cancel = 1, ca_phase = Ready sample_prepared\<rparr>"
    "hw_clients (hs_world sample_shut) (ca_client \<lparr>ca_client = 1, ca_cancel = 1, ca_phase = Ready sample_prepared\<rparr>) = None"
    "hs_cancelling sample_shut = {}"
    by (simp_all add: sample_shut_def sample_live_def)
  from http_closed_calls [OF sample_shut_history list_tokens_laws tok_ok_Nil this refl]
  show ?thesis by blast
qed

text \<open>
  C32. Nothing else cancels a call: in every history, a registered call belongs to a registered
  client and its token has not fired, whatever other clients and calls have been closed.
\<close>

theorem http_open_calls:
  assumes "(http_step sdk api)\<^sup>*\<^sup>* (http_init n t) s" "token_laws api" "tok_ok api t"
    and "hw_calls (hs_world s) i = Some r"
  shows "\<exists>c. hw_store (hs_world s) r = Some c \<and> hw_clients (hs_world s) (ca_client c) \<noteq> None \<and>
           \<not> is_cancelled api (hw_tokens (hs_world s)) (ca_cancel c) \<and>
           (\<forall>j. j = i \<or> hw_calls (hs_world s) j \<noteq> Some r)"
proof -
  have "own_children (http_abs s) i = Some r" using assms(4) by (simp add: http_abs_def)
  from http_registry_of.child_live [OF assms(1-3) this]
  have "\<exists>c. hw_store (hs_world s) r = Some c \<and> hw_clients (hs_world s) (ca_client c) \<noteq> None \<and>
           \<not> is_cancelled api (hw_tokens (hs_world s)) (ca_cancel c)"
    by (auto simp: http_abs_def)
  moreover have "j = i \<or> hw_calls (hs_world s) j \<noteq> Some r" for j
    using refs_okD(3) [OF own_invD(2) [OF http_registry_of.history_inv(1) [OF assms(1-3)]], of j r i] assms(4)
    by (auto simp: http_abs_def)
  ultimately show ?thesis by blast
qed

theorem http_open_calls_witness:
  "\<not> is_cancelled list_tokens (hw_tokens (hs_world sample_live)) 1"
proof -
  have "hw_calls (hs_world sample_live) 2 = Some 0" by (simp add: sample_live_def)
  from http_open_calls [OF sample_live_history list_tokens_laws tok_ok_Nil this]
  show ?thesis by (auto simp: sample_live_def)
qed

text \<open>
  A call keeps its client and its token for good, and its phase only moves forward, under
  any interleaving: once sent it is never ready again, and once done it stays done.
\<close>

theorem http_phases_forward:
  assumes "(http_step sdk api)\<^sup>*\<^sup>* (http_init n t) s" "token_laws api" "tok_ok api t"
    and "(http_step sdk api)\<^sup>*\<^sup>* s s'" "hw_store (hs_world s) r = Some c"
  shows "\<exists>c'. hw_store (hs_world s') r = Some c' \<and> ca_client c' = ca_client c \<and>
           ca_cancel c' = ca_cancel c \<and> phase_le (ca_phase c) (ca_phase c')"
  using http_history_call [OF assms(1-4), of r] assms(5) by (simp add: call_le_def)

theorem http_phases_forward_witness:
  "\<exists>c'. hw_store (hs_world sample_shut) 0 = Some c' \<and> ca_client c' = 1 \<and>
     phase_le (Ready sample_prepared) (ca_phase c')"
proof -
  have "hw_store (hs_world sample_live) 0 =
      Some \<lparr>ca_client = 1, ca_cancel = 1, ca_phase = Ready sample_prepared\<rparr>"
    by (simp add: sample_live_def)
  from http_phases_forward [OF sample_live_history list_tokens_laws tok_ok_Nil sample_shut_steps this]
  show ?thesis by auto
qed

subsection \<open>The functions as runs of the system\<close>

definition http_runs_to ::
  "'n http_sdk \<Rightarrow> ('t, 'h) token_api \<Rightarrow> ('t, 'h, 'n) http_system \<Rightarrow> ('t, 'h, 'n) http_world \<Rightarrow> bool" where
  "http_runs_to sdk api s w \<longleftrightarrow> (\<exists>s'. (http_step sdk api)\<^sup>*\<^sup>* s s' \<and> hs_world s' = w)"

lemma http_runs_refl: "http_runs_to sdk api s (hs_world s)"
  unfolding http_runs_to_def by blast

lemma http_runs_step: "http_step sdk api s s' \<Longrightarrow> hs_world s' = w \<Longrightarrow> http_runs_to sdk api s w"
  unfolding http_runs_to_def by blast

lemma http_runs_more:
  "http_step sdk api s s' \<Longrightarrow> http_runs_to sdk api s' w \<Longrightarrow> http_runs_to sdk api s w"
  unfolding http_runs_to_def by (blast intro: converse_rtranclp_into_rtranclp)

lemma http_cancel_runs:
  "http_runs_to sdk api (s\<lparr>hs_world := w, hs_cancelling := insert h C\<rparr>) (http_cancel api h w)"
  by (rule http_runs_step [OF http_step.step_cancel [of h]]) simp_all

lemma http_close_runs: "http_runs_to sdk api s (snd (http_close api i (hs_world s)))"
proof (cases "http_registry (hs_world s)")
  case (Inl e)
  then show ?thesis by (simp add: http_close_def http_runs_refl)
next
  case (Inr u)
  obtain client w where un: "http_unregister i (hs_world s) = (client, w)"
    by (cases "http_unregister i (hs_world s)")
  note step = http_step.step_unregister [OF Inr un, of sdk api]
  show ?thesis
  proof (cases client)
    case None
    with Inr un show ?thesis
      by (auto simp: http_close_def intro: http_runs_step [OF step])
  next
    case (Some c)
    have "http_runs_to sdk api s (http_cancel api (cl_cancel c) w)"
      by (rule http_runs_more [OF step]) (simp add: Some http_cancel_runs)
    with Inr un Some show ?thesis by (simp add: http_close_def)
  qed
qed

lemma http_close_request_runs: "http_runs_to sdk api s (snd (http_close_request api i (hs_world s)))"
proof (cases "http_registry (hs_world s)")
  case (Inl e)
  then show ?thesis by (simp add: http_close_request_def http_runs_refl)
next
  case (Inr u)
  obtain r w where rm: "http_remove_call i (hs_world s) = (r, w)"
    by (cases "http_remove_call i (hs_world s)")
  note step = http_step.step_remove [OF Inr rm, of sdk api]
  show ?thesis
  proof (cases "Option.bind r (hw_store w)")
    case None
    with Inr rm show ?thesis
      by (auto simp: http_close_request_def intro: http_runs_step [OF step])
  next
    case (Some c)
    have "http_runs_to sdk api s (http_cancel api (ca_cancel c) w)"
      by (rule http_runs_more [OF step]) (simp add: Some http_cancel_runs)
    with Inr rm Some show ?thesis by (simp add: http_close_request_def)
  qed
qed

lemma http_create_request_runs:
  "http_runs_to sdk api s (snd (http_create_request sdk api i metadata body (hs_world s)))"
proof (cases "http_find_client i (hs_world s)")
  case (Inl e)
  then show ?thesis by (simp add: http_create_request_def http_runs_refl)
next
  case (Inr client)
  let ?s1 = "s\<lparr>hs_found := insert (i, client) (hs_found s)\<rparr>"
  note found = http_step.step_find [OF Inr, of sdk api]
  show ?thesis
  proof (cases "prepare_request sdk client metadata body")
    case (Inl e)
    with Inr show ?thesis by (simp add: http_create_request_def http_runs_refl)
  next
    case (Inr p)
    obtain r w where new: "http_new_call api i (cl_cancel client) p (hs_world s) = (r, w)"
      by (cases "http_new_call api i (cl_cancel client) p (hs_world s)")
    obtain res w' where add: "http_add_call i r w = (res, w')"
      by (cases "http_add_call i r w")
    let ?s2 = "?s1\<lparr>hs_world := w, hs_made := insert (i, r) (hs_made s)\<rparr>"
    have "http_step sdk api ?s1 ?s2"
      using http_step.step_make [of i client ?s1 sdk metadata body p api r w] Inr new by simp
    moreover have "http_step sdk api ?s2 (?s2\<lparr>hs_world := w', hs_made := hs_made ?s2 - {(i, r)}\<rparr>)"
      by (rule http_step.step_add [of i r ?s2 res w']) (use add in simp_all)
    then have "http_runs_to sdk api ?s2 w'"
      by (rule http_runs_step) simp
    ultimately have "http_runs_to sdk api s w'"
      using http_runs_more found by blast
    then show ?thesis
      using \<open>http_find_client i (hs_world s) = Inr client\<close> Inr new add by (simp add: http_create_request_def)
  qed
qed

lemma http_create_runs:
  "http_runs_to sdk api s (snd (snd (http_create sdk api build data (hs_runtime s) (hs_world s))))"
  by (cases "http_create sdk api build data (hs_runtime s) (hs_world s)")
     (auto intro: http_runs_step [OF http_step.step_create])

lemma http_send_runs:
  "http_runs_to sdk api s (snd (snd (http_send sdk api build fire i (hs_runtime s) (hs_world s))))"
proof (cases "http_lookup i (hs_world s)")
  case (Inr r)
  then show ?thesis
    by (cases "http_send_on sdk api build fire r (hs_runtime s) (hs_world s)")
       (auto simp: http_send_def intro: http_runs_step [OF http_step.step_send])
qed (simp add: http_send_def http_runs_refl)

lemma http_read_runs:
  "http_runs_to sdk api s (snd (snd (http_read api build fire i k (hs_runtime s) (hs_world s))))"
proof (cases "http_lookup i (hs_world s)")
  case (Inr r)
  then show ?thesis
    by (cases "http_read_on api build fire (min k read_cap) r (hs_runtime s) (hs_world s)")
       (auto simp: http_read_def http_runs_refl intro: http_runs_step [OF http_step.step_read])
qed (simp add: http_read_def http_runs_refl)

text \<open>
  What a call of any of the six functions does to the state is a run of the system, so the
  properties above hold whatever sequence of them the Go side makes, from any threads.
\<close>

theorem http_functions_run:
  "http_runs_to sdk api s (snd (snd (http_create sdk api build data (hs_runtime s) (hs_world s))))
 \<and> http_runs_to sdk api s (snd (http_close api i (hs_world s)))
 \<and> http_runs_to sdk api s (snd (http_create_request sdk api i metadata body (hs_world s)))
 \<and> http_runs_to sdk api s (snd (snd (http_send sdk api build fire i (hs_runtime s) (hs_world s))))
 \<and> http_runs_to sdk api s (snd (snd (http_read api build fire i k (hs_runtime s) (hs_world s))))
 \<and> http_runs_to sdk api s (snd (http_close_request api i (hs_world s)))"
  by (intro conjI http_create_runs http_close_runs http_create_request_runs http_send_runs
      http_read_runs http_close_request_runs)

end
