(* ===== verification/Ws_Client.thy ===== *)
theory Ws_Client
  imports Http_Types Cancel_Tokens Ws_Handshake
begin

text \<open>
  The WebSocket half of the bridge, \<open>rust/src/websocket_client.rs\<close>: clients, connections, connect,
  read and write over Tungstenite's split socket. Locks and fragments of concurrent writers are
  the subject of \<open>Ws_Writers\<close>; here a task runs between its first poll and its end or the await at
  which it is dropped.
\<close>

subsection \<open>Configuration, requests, metadata\<close>

record ws_config =
  wc_proxy_policy :: string
  wc_proxy_url :: string
  wc_no_proxy :: bool
  wc_handshake_timeout_ms :: u64
  wc_loopback_direct :: bool
  wc_tcp_nodelay :: bool
  wc_max_message_size :: "nat option"
  wc_max_frame_size :: "nat option"
  wc_chatgpt_cookies :: "string list option"
  wc_write_frame_size :: nat
  wc_max_handshake_body_bytes :: nat

record dial_request =
  dr_url :: string
  dr_headers :: "(string \<times> string) list"

record handshake =
  hk_status :: nat
  hk_headers :: "(string \<times> string) list"
  hk_body :: string
  hk_body_truncated :: bool

subsection \<open>Messages, frames and errors of Tungstenite\<close>

datatype data_opcode = OpContinue | OpText | OpBinary

record frame =
  fr_payload :: bytes
  fr_opcode :: data_opcode
  fr_fin :: bool

text \<open>\<open>'c\<close> is \<open>CloseCode\<close>.\<close>

record 'c close_frame =
  cf_code :: 'c
  cf_reason :: bytes

datatype 'c message =
    TextMessage bytes
  | BinaryMessage bytes
  | Ping bytes
  | Pong bytes
  | Close "'c close_frame option"
  | RawFrame frame

text \<open>The variants of \<open>tungstenite::Error\<close> the code tells apart, with the error's text.\<close>

datatype ws_error_class =
    ConnectionClosed
  | HandshakeIncomplete
  | SendAfterClosing
  | WsIo io_error_kind
  | WsHttp hs_response
  | OtherWs

record ws_error =
  we_class :: ws_error_class
  we_display :: string

text \<open>\<open>From<WsError>\<close>.\<close>

definition bridge_error_of_ws :: "ws_error \<Rightarrow> bridge_error" where
  "bridge_error_of_ws e =
     (if we_class e = HandshakeIncomplete then bridge_error_new ''unexpected_eof'' (we_display e)
      else if we_class e = SendAfterClosing then
        bridge_error_new ''closing'' ''WebSocket closing handshake has started''
      else bridge_error_new ''websocket'' (we_display e))"

definition write_error :: "bool \<Rightarrow> ws_error \<Rightarrow> bridge_error" where
  "write_error peer_close_received e =
     (if peer_close_received then
        bridge_error_new ''closing'' ''WebSocket peer close has been received''
      else if we_class e \<in> WsIo ` {BrokenPipe, ConnectionReset, ConnectionAborted, NotConnected} then
        bridge_error_new ''closing'' (we_display e)
      else bridge_error_of_ws e)"

text \<open>The upgrade request Tungstenite builds from a URL, and the limits it reads with.\<close>

record upgrade_request =
  up_url :: url
  up_headers :: headers

record ws_limits =
  lm_message :: "nat option"
  lm_frame :: "nat option"
  lm_write_buffer :: nat

text \<open>\<open>WebSocketConnector\<close>, as what it was made from; the ways it is asked to connect.\<close>

record connector =
  cn_factory :: factory
  cn_nodelay :: bool

datatype dial_route =
    LoopbackDirect
  | RouteDirect
  | RouteProxy string
  | RouteAutomatic

text \<open>
  What the code calls of the crates. \<open>'k\<close> is the write half of a socket; the read half is the list
  of what it will still yield. \<open>dial\<close> connects: the split socket and the response, or the error,
  with the clock for the handshake timeout.
\<close>

type_synonym 'c ws_item = "ws_error + 'c message"

record ('c, 'k, 'n) ws_sdk =
  ws_de_config :: "bytes \<Rightarrow> string + ws_config"
  ws_de_dial :: "bytes \<Rightarrow> string + dial_request"
  ws_url :: url_api
  ws_codec :: header_codec
  ws_http :: http_api
  connector_new :: "factory \<Rightarrow> string + unit"
  into_request :: "url \<Rightarrow> ws_error + upgrade_request"
  extend_headers :: "headers \<Rightarrow> headers \<Rightarrow> headers"
  default_limits :: ws_limits
  dial :: "connector \<Rightarrow> upgrade_request \<Rightarrow> ws_limits \<Rightarrow> dial_route \<Rightarrow> 'n \<Rightarrow>
     (ws_error + 'k \<times> 'c ws_item list \<times> hs_response) \<times> 'n"
  ws_now :: "'n \<Rightarrow> nat"
  hs_to_vec :: "handshake \<Rightarrow> string + bytes"
  hs_to_value :: "handshake \<Rightarrow> string + json"
  code_of_u16 :: "u16 \<Rightarrow> 'c"
  u16_of_code :: "'c \<Rightarrow> u16"
  code_allowed :: "'c \<Rightarrow> bool"
  utf8_error :: "bytes \<Rightarrow> string"
  sink_send :: "'c message \<Rightarrow> 'k \<Rightarrow> (ws_error + unit) \<times> 'k"
  sink_flush :: "'k \<Rightarrow> (ws_error + unit) \<times> 'k"

subsection \<open>Clients and connections\<close>

record 'h ws_client =
  wl_connector :: connector
  wl_config :: ws_config
  wl_cancel :: 'h

record ('c, 'k, 'h) connection =
  co_client :: u64
  co_owner :: "'h ws_client"
  co_cancel :: 'h
  co_pending :: "upgrade_request option"
  co_reader :: "'c ws_item list option"
  co_writer :: "'k option"
  co_peer_close :: bool

record ('t, 'c, 'k, 'h, 'n) ws_world =
  ww_next :: u64
  ww_clients :: "u64 \<Rightarrow> 'h ws_client option"
  ww_conns :: "u64 \<Rightarrow> nat option"
  ww_poisoned :: bool
  ww_store :: "nat \<Rightarrow> ('c, 'k, 'h) connection option"
  ww_fresh :: nat
  ww_tokens :: 't
  ww_net :: 'n

definition ws_empty :: "'t \<Rightarrow> 'n \<Rightarrow> ('t, 'c, 'k, 'h, 'n) ws_world" where
  "ws_empty t n =
     \<lparr>ww_next = 0, ww_clients = (\<lambda>_. None), ww_conns = (\<lambda>_. None), ww_poisoned = False,
      ww_store = (\<lambda>_. None), ww_fresh = 0, ww_tokens = t, ww_net = n\<rparr>"

definition ws_registry :: "('t, 'c, 'k, 'h, 'n) ws_world \<Rightarrow> bridge_error + unit" where
  "ws_registry w =
     (if ww_poisoned w then Inl (bridge_error_new ''internal'' ''handle registry lock poisoned'')
      else Inr ())"

definition ws_next ::
  "('t, 'c, 'k, 'h, 'n) ws_world \<Rightarrow> bridge_error + u64 \<times> ('t, 'c, 'k, 'h, 'n) ws_world" where
  "ws_next w =
     (case u64_checked_add (ww_next w) 1 of
        None \<Rightarrow> Inl (bridge_error_new ''internal'' ''handle space exhausted'')
      | Some i \<Rightarrow> Inr (i, w\<lparr>ww_next := i\<rparr>))"

definition ws_client_closed :: bridge_error where
  "ws_client_closed = bridge_error_new ''closed'' ''client is closed''"

definition connection_closed :: bridge_error where
  "connection_closed = bridge_error_new ''closed'' ''connection is closed''"

subsection \<open>create\<close>

definition frame_size_default :: nat where "frame_size_default = 32 * 1024"
definition body_limit_default :: nat where "body_limit_default = 64 * 1024"
definition one_mib :: nat where "one_mib = 1024 * 1024"

definition default_sizes :: "ws_config \<Rightarrow> ws_config" where
  "default_sizes cfg =
     (let cfg1 = (if wc_write_frame_size cfg = 0
                  then cfg\<lparr>wc_write_frame_size := frame_size_default\<rparr> else cfg)
      in if wc_max_handshake_body_bytes cfg1 = 0
         then cfg1\<lparr>wc_max_handshake_body_bytes := body_limit_default\<rparr> else cfg1)"

text \<open>Everything \<open>create\<close> does before it makes the client: the configuration with its defaults and
  the connector, or the error.\<close>

definition ws_check_config ::
  "('c, 'k, 'n) ws_sdk \<Rightarrow> ws_config \<Rightarrow> bridge_error + ws_config \<times> connector" where
  "ws_check_config sdk cfg0 =
     and_then (parse_policy (wc_proxy_policy cfg0)) (\<lambda>policy.
       if wc_proxy_url cfg0 \<noteq> '''' \<and> (wc_no_proxy cfg0 \<or> wc_loopback_direct cfg0) then
         Inl (invalid ''ProxyURL is mutually exclusive with NoProxy and LoopbackDirect'')
       else
         and_then (if wc_proxy_url cfg0 = '''' then Inr ()
                   else and_then (parse_proxy (ws_url sdk) (wc_proxy_url cfg0)) (\<lambda>_. Inr ()))
           (\<lambda>_.
              let cfg = default_sizes cfg0
              in if one_mib < wc_write_frame_size cfg \<or> one_mib < wc_max_handshake_body_bytes cfg then
                   Inl (invalid ''frame and handshake body limits must not exceed 1 MiB'')
                 else
                   and_then (make_factory (value_from_str (ws_codec sdk)) policy
                               (case wc_chatgpt_cookies cfg of None \<Rightarrow> [] | Some cs \<Rightarrow> cs))
                     (\<lambda>fac.
                        and_then (map_err (bridge_error_new ''tls'') (connector_new sdk fac))
                          (\<lambda>_. Inr (cfg, \<lparr>cn_factory = fac, cn_nodelay = wc_tcp_nodelay cfg\<rparr>)))))"

definition ws_register ::
  "('t, 'h) token_api \<Rightarrow> ws_config \<Rightarrow> connector \<Rightarrow> ('t, 'c, 'k, 'h, 'n) ws_world \<Rightarrow>
     call_result \<times> ('t, 'c, 'k, 'h, 'n) ws_world" where
  "ws_register api cfg con w =
     (let (h, t) = tok_new api (ww_tokens w);
          client = \<lparr>wl_connector = con, wl_config = cfg, wl_cancel = h\<rparr>;
          w1 = w\<lparr>ww_tokens := t\<rparr>
      in case ws_registry w1 of
           Inl e \<Rightarrow> (Inl e, w1)
         | Inr _ \<Rightarrow>
             (case ws_next w1 of
                Inl e \<Rightarrow> (Inl e, w1)
              | Inr (i, w2) \<Rightarrow>
                  (Inr (output_handle i), w2\<lparr>ww_clients := (ww_clients w2)(i \<mapsto> client)\<rparr>)))"

definition ws_create ::
  "('c, 'k, 'n) ws_sdk \<Rightarrow> ('t, 'h) token_api \<Rightarrow> bytes \<Rightarrow> ('t, 'c, 'k, 'h, 'n) ws_world \<Rightarrow>
     call_result \<times> ('t, 'c, 'k, 'h, 'n) ws_world" where
  "ws_create sdk api data w =
     (case and_then (map_err invalid (ws_de_config sdk data)) (ws_check_config sdk) of
        Inl e \<Rightarrow> (Inl e, w)
      | Inr (cfg, con) \<Rightarrow> ws_register api cfg con w)"

subsection \<open>close\<close>

definition ws_unregister ::
  "u64 \<Rightarrow> ('t, 'c, 'k, 'h, 'n) ws_world \<Rightarrow> 'h ws_client option \<times> ('t, 'c, 'k, 'h, 'n) ws_world" where
  "ws_unregister i w =
     (ww_clients w i,
      w\<lparr>ww_clients := (ww_clients w)(i := None),
        ww_conns := (\<lambda>j. case ww_conns w j of None \<Rightarrow> None
           | Some r \<Rightarrow> (if map_option co_client (ww_store w r) = Some i then None else Some r))\<rparr>)"

definition ws_cancel ::
  "('t, 'h) token_api \<Rightarrow> 'h \<Rightarrow> ('t, 'c, 'k, 'h, 'n) ws_world \<Rightarrow> ('t, 'c, 'k, 'h, 'n) ws_world" where
  "ws_cancel api h w = w\<lparr>ww_tokens := tok_cancel api h (ww_tokens w)\<rparr>"

definition ws_close ::
  "('t, 'h) token_api \<Rightarrow> u64 \<Rightarrow> ('t, 'c, 'k, 'h, 'n) ws_world \<Rightarrow>
     call_result \<times> ('t, 'c, 'k, 'h, 'n) ws_world" where
  "ws_close api i w =
     (case ws_registry w of
        Inl e \<Rightarrow> (Inl e, w)
      | Inr _ \<Rightarrow>
          (let (client, w') = ws_unregister i w
           in (Inr (output_handle 0),
               (case client of None \<Rightarrow> w' | Some c \<Rightarrow> ws_cancel api (wl_cancel c) w'))))"

subsection \<open>create_connection\<close>

definition ws_find_client :: "u64 \<Rightarrow> ('t, 'c, 'k, 'h, 'n) ws_world \<Rightarrow> bridge_error + 'h ws_client" where
  "ws_find_client i w =
     and_then (ws_registry w) (\<lambda>_. ok_or ws_client_closed (ww_clients w i))"

definition ws_prepare :: "('c, 'k, 'n) ws_sdk \<Rightarrow> bytes \<Rightarrow> bridge_error + upgrade_request" where
  "ws_prepare sdk data =
     and_then (map_err invalid (ws_de_dial sdk data)) (\<lambda>dr.
     and_then (map_err invalid (url_parse (ws_url sdk) (dr_url dr))) (\<lambda>u.
       if url_scheme u \<noteq> ''ws'' \<and> url_scheme u \<noteq> ''wss'' then Inl (invalid ''URL must use ws or wss'')
       else
         and_then (map_err bridge_error_of_ws (into_request sdk u)) (\<lambda>req.
         and_then (decode_headers (ws_codec sdk) (dr_headers dr)) (\<lambda>hs.
           Inr (req\<lparr>up_headers := extend_headers sdk (up_headers req) hs\<rparr>)))))"

definition ws_new_conn ::
  "('t, 'h) token_api \<Rightarrow> u64 \<Rightarrow> 'h ws_client \<Rightarrow> upgrade_request \<Rightarrow> ('t, 'c, 'k, 'h, 'n) ws_world \<Rightarrow>
     nat \<times> ('t, 'c, 'k, 'h, 'n) ws_world" where
  "ws_new_conn api i client req w =
     (let (hc, t) = tok_child api (wl_cancel client) (ww_tokens w)
      in (ww_fresh w,
          w\<lparr>ww_store := (ww_store w)(ww_fresh w \<mapsto>
               \<lparr>co_client = i, co_owner = client, co_cancel = hc, co_pending = Some req,
                co_reader = None, co_writer = None, co_peer_close = False\<rparr>),
            ww_fresh := Suc (ww_fresh w), ww_tokens := t\<rparr>))"

definition ws_add_conn ::
  "u64 \<Rightarrow> nat \<Rightarrow> ('t, 'c, 'k, 'h, 'n) ws_world \<Rightarrow> call_result \<times> ('t, 'c, 'k, 'h, 'n) ws_world" where
  "ws_add_conn i r w =
     (case ws_registry w of
        Inl e \<Rightarrow> (Inl e, w)
      | Inr _ \<Rightarrow>
          if ww_clients w i = None then (Inl ws_client_closed, w)
          else
            (case ws_next w of
               Inl e \<Rightarrow> (Inl e, w)
             | Inr (j, w') \<Rightarrow>
                 (Inr (output_handle j), w'\<lparr>ww_conns := (ww_conns w')(j \<mapsto> r)\<rparr>)))"

definition ws_create_connection ::
  "('c, 'k, 'n) ws_sdk \<Rightarrow> ('t, 'h) token_api \<Rightarrow> u64 \<Rightarrow> bytes \<Rightarrow> ('t, 'c, 'k, 'h, 'n) ws_world \<Rightarrow>
     call_result \<times> ('t, 'c, 'k, 'h, 'n) ws_world" where
  "ws_create_connection sdk api i data w =
     (case ws_find_client i w of
        Inl e \<Rightarrow> (Inl e, w)
      | Inr client \<Rightarrow>
          (case ws_prepare sdk data of
             Inl e \<Rightarrow> (Inl e, w)
           | Inr req \<Rightarrow> (let (r, w') = ws_new_conn api i client req w in ws_add_conn i r w')))"

definition ws_lookup :: "u64 \<Rightarrow> ('t, 'c, 'k, 'h, 'n) ws_world \<Rightarrow> bridge_error + nat" where
  "ws_lookup i w = and_then (ws_registry w) (\<lambda>_. ok_or connection_closed (ww_conns w i))"

definition ws_remove_conn ::
  "u64 \<Rightarrow> ('t, 'c, 'k, 'h, 'n) ws_world \<Rightarrow> nat option \<times> ('t, 'c, 'k, 'h, 'n) ws_world" where
  "ws_remove_conn i w = (ww_conns w i, w\<lparr>ww_conns := (ww_conns w)(i := None)\<rparr>)"

definition ws_close_connection ::
  "('t, 'h) token_api \<Rightarrow> u64 \<Rightarrow> ('t, 'c, 'k, 'h, 'n) ws_world \<Rightarrow>
     call_result \<times> ('t, 'c, 'k, 'h, 'n) ws_world" where
  "ws_close_connection api i w =
     (case ws_registry w of
        Inl e \<Rightarrow> (Inl e, w)
      | Inr _ \<Rightarrow>
          (let (r, w') = ws_remove_conn i w
           in (Inr (output_handle 0),
               (case Option.bind r (ww_store w') of
                  None \<Rightarrow> w' | Some c \<Rightarrow> ws_cancel api (co_cancel c) w'))))"

subsection \<open>connect\<close>

text \<open>A task on a connection, as a function on it and the network; \<open>fire\<close> as in the HTTP client:
  0 is the first lock, 1 the dial, 2 and 3 the locks of the writer and the reader.\<close>

definition connect_limits :: "('c, 'k, 'n) ws_sdk \<Rightarrow> ws_config \<Rightarrow> ws_limits" where
  "connect_limits sdk cfg =
     (let l0 = default_limits sdk;
          l1 = (case wc_max_message_size cfg of None \<Rightarrow> l0 | Some m \<Rightarrow> l0\<lparr>lm_message := Some m\<rparr>);
          l2 = (case wc_max_frame_size cfg of None \<Rightarrow> l1 | Some m \<Rightarrow> l1\<lparr>lm_frame := Some m\<rparr>)
      in l2\<lparr>lm_write_buffer := 0\<rparr>)"

definition connect_route :: "ws_config \<Rightarrow> dial_route" where
  "connect_route cfg =
     (if wc_loopback_direct cfg then LoopbackDirect
      else if wc_no_proxy cfg \<or> wc_proxy_url cfg \<noteq> '''' then
        (if wc_no_proxy cfg then RouteDirect else RouteProxy (wc_proxy_url cfg))
      else RouteAutomatic)"

text \<open>Decimal digits, as \<open>format!("{}", n)\<close> writes a number.\<close>

fun show_nat :: "nat \<Rightarrow> string" where
  "show_nat n = (if n < 10 then [char_of (48 + n)] else show_nat (n div 10) @ [char_of (48 + n mod 10)])"

declare show_nat.simps [simp del]

text \<open>\<open>Err(WsError::Http(response))\<close>: the error with the response in its details. \<open>None\<close> is a
  panic of \<open>handshake_body\<close>.\<close>

definition rejected_error ::
  "('c, 'k, 'n) ws_sdk \<Rightarrow> ws_config \<Rightarrow> hs_response \<Rightarrow> bridge_error option" where
  "rejected_error sdk cfg resp =
     (case handshake_body (ws_http sdk) resp (wc_max_handshake_body_bytes cfg) of
        None \<Rightarrow> None
      | Some (body, truncated) \<Rightarrow>
          (let meta = \<lparr>hk_status = hs_status resp,
                       hk_headers = encode_headers (ws_codec sdk) (hs_headers resp),
                       hk_body = b64_encode (ws_codec sdk) body, hk_body_truncated = truncated\<rparr>
           in Some (case hs_to_value sdk meta of
                      Inl e \<Rightarrow> bridge_error_new ''internal'' e
                    | Inr v \<Rightarrow>
                        with_details
                          (bridge_error_new ''handshake''
                             (''WebSocket upgrade rejected with HTTP '' @ show_nat (hs_status resp)))
                          v)))"

text \<open>The answer of the dial, after the request has been taken: the result of the call, and the
  socket halves if there are any.\<close>

definition dial_answer ::
  "('c, 'k, 'n) ws_sdk \<Rightarrow> ws_config \<Rightarrow> ws_error + 'k \<times> 'c ws_item list \<times> hs_response \<Rightarrow>
     call_result task \<times> ('k \<times> 'c ws_item list) option" where
  "dial_answer sdk cfg answer =
     (case answer of
        Inl e \<Rightarrow>
          (case we_class e of
             WsHttp resp \<Rightarrow>
               (case rejected_error sdk cfg resp of
                  None \<Rightarrow> (TaskPanicked, None) | Some err \<Rightarrow> (Finished (Inl err), None))
           | _ \<Rightarrow> (Finished (Inl (bridge_error_of_ws e)), None))
      | Inr (writer, reader, resp) \<Rightarrow>
          (let meta = \<lparr>hk_status = hs_status resp,
                       hk_headers = encode_headers (ws_codec sdk) (hs_headers resp),
                       hk_body = '''', hk_body_truncated = False\<rparr>
           in (case hs_to_vec sdk meta of
                 Inl e \<Rightarrow> (Finished (Inl (bridge_error_new ''internal'' e)), None)
               | Inr data \<Rightarrow> (Finished (Inr (output_data data)), Some (writer, reader)))))"

definition dial_late :: "('c, 'k, 'n) ws_sdk \<Rightarrow> ws_config \<Rightarrow> 'n \<Rightarrow> 'n \<Rightarrow> bool" where
  "dial_late sdk cfg n n' \<longleftrightarrow>
     0 < wc_handshake_timeout_ms cfg \<and>
     ws_now sdk n + unat (wc_handshake_timeout_ms cfg) < ws_now sdk n'"

definition ws_connect_task ::
  "('c, 'k, 'n) ws_sdk \<Rightarrow> nat option \<Rightarrow> ('c, 'k, 'h) connection \<Rightarrow> 'n \<Rightarrow>
     call_result task \<times> ('c, 'k, 'h) connection \<times> 'n" where
  "ws_connect_task sdk fire conn n =
     (if fire = Some 0 then (Finished (Inl connection_closed), conn, n)
      else
        (case co_pending conn of
           None \<Rightarrow> (Finished (Inl (invalid ''connection already started'')), conn, n)
         | Some req \<Rightarrow>
             (let conn1 = conn\<lparr>co_pending := None\<rparr>;
                  cfg = wl_config (co_owner conn);
                  (answer, n') = dial sdk (wl_connector (co_owner conn)) req (connect_limits sdk cfg)
                                   (connect_route cfg) n
              in if fire = Some 1 then (Finished (Inl connection_closed), conn1, n')
                 else if dial_late sdk cfg n n' then
                   (Finished (Inl (bridge_error_new ''timeout'' ''WebSocket handshake timed out'')), conn1, n')
                 else
                   (case dial_answer sdk cfg answer of
                      (res, None) \<Rightarrow> (res, conn1, n')
                    | (res, Some (writer, reader)) \<Rightarrow>
                        (if fire = Some 2 then (Finished (Inl connection_closed), conn1, n')
                         else if fire = Some 3 then
                           (Finished (Inl connection_closed), conn1\<lparr>co_writer := Some writer\<rparr>, n')
                         else
                           (res, conn1\<lparr>co_writer := Some writer, co_reader := Some reader\<rparr>, n'))))))"

subsection \<open>read\<close>

text \<open>The opcode and payload \<open>read\<close> reports for a message; \<open>None\<close> is a raw frame, skipped.\<close>

definition message_parts ::
  "('c, 'k, 'n) ws_sdk \<Rightarrow> 'c message \<Rightarrow> (u8 \<times> bytes) option" where
  "message_parts sdk m =
     (case m of
        TextMessage text \<Rightarrow> Some (1, text)
      | BinaryMessage data \<Rightarrow> Some (2, data)
      | Ping data \<Rightarrow> Some (9, data)
      | Pong data \<Rightarrow> Some (10, data)
      | Close fr \<Rightarrow>
          Some (8, case fr of None \<Rightarrow> []
                   | Some f \<Rightarrow> u16_to_be_bytes (u16_of_code sdk (cf_code f)) @ cf_reason f)
      | RawFrame _ \<Rightarrow> None)"

definition is_close :: "'c message \<Rightarrow> bool" where
  "is_close m \<longleftrightarrow> (case m of Close _ \<Rightarrow> True | _ \<Rightarrow> False)"

text \<open>The acknowledgement of a ping or a close: \<open>None\<close> lets the message through.\<close>

definition acknowledge ::
  "('c, 'k, 'n) ws_sdk \<Rightarrow> u8 \<Rightarrow> 'k option \<Rightarrow> bridge_error option \<times> 'k option" where
  "acknowledge sdk kind writer =
     (case writer of
        None \<Rightarrow> (None, None)
      | Some k \<Rightarrow>
          (let (r, k') = sink_flush sdk k
           in (case r of
                 Inr _ \<Rightarrow> (None, Some k')
               | Inl e \<Rightarrow>
                   (if we_class e = ConnectionClosed \<or> kind = 8 then (None, Some k')
                    else (Some (bridge_error_of_ws e), Some k')))))"

text \<open>The loop. \<open>fire\<close> counts the waits: for an item, for the acknowledgement's locks, for its flush.\<close>

fun ws_read_loop ::
  "('c, 'k, 'n) ws_sdk \<Rightarrow> nat option \<Rightarrow> 'c ws_item list \<Rightarrow> ('c, 'k, 'h) connection \<Rightarrow>
     call_result polled \<times> ('c, 'k, 'h) connection" where
  "ws_read_loop sdk fire items conn =
     (if fire = Some 0 then (Dropped, conn\<lparr>co_reader := Some items\<rparr>)
      else
        (case items of
           [] \<Rightarrow> (Completed (Inr output_eof), conn\<lparr>co_reader := Some []\<rparr>)
         | Inl e # rest \<Rightarrow>
             (Completed (if we_class e = ConnectionClosed then Inr output_eof
                         else Inl (bridge_error_of_ws e)), conn\<lparr>co_reader := Some rest\<rparr>)
         | Inr m # rest \<Rightarrow>
             (let conn1 = conn\<lparr>co_reader := Some rest,
                               co_peer_close := (is_close m \<or> co_peer_close conn)\<rparr>
              in case message_parts sdk m of
                   None \<Rightarrow>
                     (case fire of Some (Suc k) \<Rightarrow> ws_read_loop sdk (Some k) rest conn1
                      | _ \<Rightarrow> ws_read_loop sdk None rest conn1)
                 | Some (kind, payload) \<Rightarrow>
                     (if kind = 9 \<or> kind = 8 then
                        (if fire = Some 1 then (Dropped, conn1)
                         else
                           (case acknowledge sdk kind (co_writer conn1) of
                              (answer, k) \<Rightarrow>
                                (if fire = Some 2 then Dropped
                                 else Completed (case answer of Some err \<Rightarrow> Inl err
                                        | None \<Rightarrow> Inr (output_data (kind # payload))),
                                 conn1\<lparr>co_writer := k\<rparr>)))
                      else (Completed (Inr (output_data (kind # payload))), conn1)))))"

declare ws_read_loop.simps [simp del]

definition ws_read_task ::
  "('c, 'k, 'n) ws_sdk \<Rightarrow> nat option \<Rightarrow> ('c, 'k, 'h) connection \<Rightarrow>
     call_result task \<times> ('c, 'k, 'h) connection" where
  "ws_read_task sdk fire conn =
     (if fire = Some 0 then (Finished (Inl connection_closed), conn)
      else
        (case co_reader conn of
           None \<Rightarrow> (Finished (Inl (invalid ''connection not established'')), conn)
         | Some items \<Rightarrow>
             (if co_peer_close conn then (Finished (Inr output_eof), conn)
              else
                (case ws_read_loop sdk (case fire of Some (Suc k) \<Rightarrow> Some k | _ \<Rightarrow> None) items conn of
                   (Completed res, conn') \<Rightarrow> (Finished res, conn')
                 | (Dropped, conn') \<Rightarrow> (Finished (Inl connection_closed), conn')))))"

subsection \<open>write\<close>

text \<open>One fragment: its frame and where the next one starts.\<close>

definition fragment :: "nat \<Rightarrow> u8 \<Rightarrow> bytes \<Rightarrow> nat \<Rightarrow> frame \<times> nat" where
  "fragment n kind data offset =
     (let fin = min (offset + n) (length data)
      in (\<lparr>fr_payload = take (fin - offset) (drop offset data),
           fr_opcode = (if 0 < offset then OpContinue else if kind = 1 then OpText else OpBinary),
           fr_fin = (fin = length data)\<rparr>, fin))"

text \<open>
  The loop over fragments: each frame is sent under the locks, which are released between frames.
  The source loops on \<open>offset\<close>; with a frame size of 0 and data it would not end, so the loop is
  partial. \<open>fire\<close> counts two awaits per fragment: the locks, and the send itself, which may be
  dropped when the frame is in the sink already.
\<close>

partial_function (option) send_fragments ::
  "('c, 'k, 'n) ws_sdk \<Rightarrow> nat option \<Rightarrow> u8 \<Rightarrow> bytes \<Rightarrow> nat \<Rightarrow> ('c, 'k, 'h) connection \<Rightarrow>
     (call_result \<times> ('c, 'k, 'h) connection) option" where
  "send_fragments sdk fire kind data offset conn =
     (if fire = Some 0 then Some (Inl connection_closed, conn)
      else
        (case co_writer conn of
           None \<Rightarrow> Some (Inl (invalid ''connection not established''), conn)
         | Some k \<Rightarrow>
             (let (fr, fin) = fragment (wc_write_frame_size (wl_config (co_owner conn))) kind data offset;
                  (r, k') = sink_send sdk (RawFrame fr) k;
                  conn' = conn\<lparr>co_writer := Some k'\<rparr>
              in if fire = Some 1 then Some (Inl connection_closed, conn')
                 else
                   (case r of
                      Inl e \<Rightarrow> Some (Inl (write_error (co_peer_close conn) e), conn')
                    | Inr _ \<Rightarrow>
                        if fin = length data then Some (Inr (output_handle 0), conn')
                        else send_fragments sdk (case fire of Some (Suc (Suc j)) \<Rightarrow> Some j | _ \<Rightarrow> None)
                               kind data fin conn'))))"

definition ws_send_data ::
  "('c, 'k, 'n) ws_sdk \<Rightarrow> nat option \<Rightarrow> u8 \<Rightarrow> bytes \<Rightarrow> ('c, 'k, 'h) connection \<Rightarrow>
     (call_result task \<times> ('c, 'k, 'h) connection) option" where
  "ws_send_data sdk fire kind data conn =
     (if fire = Some 0 then Some (Finished (Inl connection_closed), conn)
      else map_option (\<lambda>(r, c). (Finished r, c))
             (send_fragments sdk (case fire of Some (Suc j) \<Rightarrow> Some j | _ \<Rightarrow> None) kind data 0 conn))"

definition ws_send_control ::
  "('c, 'k, 'n) ws_sdk \<Rightarrow> nat option \<Rightarrow> 'c message \<Rightarrow> ('c, 'k, 'h) connection \<Rightarrow>
     call_result task \<times> ('c, 'k, 'h) connection" where
  "ws_send_control sdk fire m conn =
     (if fire = Some 0 then (Finished (Inl connection_closed), conn)
      else
        (case co_writer conn of
           None \<Rightarrow> (Finished (Inl (invalid ''connection not established'')), conn)
         | Some k \<Rightarrow>
             (let (r, k') = sink_send sdk m k
              in (Finished (if fire = Some 1 then Inl connection_closed
                            else (case r of Inl e \<Rightarrow> Inl (write_error (co_peer_close conn) e)
                                  | Inr _ \<Rightarrow> Inr (output_handle 0))),
                  conn\<lparr>co_writer := Some k'\<rparr>))))"

text \<open>What \<open>write\<close> checks and builds before its task: the data to fragment, or a control message.\<close>

definition close_payload :: "('c, 'k, 'n) ws_sdk \<Rightarrow> bytes \<Rightarrow> bridge_error + 'c close_frame option" where
  "close_payload sdk data =
     (case data of
        [] \<Rightarrow> Inr None
      | [_] \<Rightarrow> Inl (invalid ''invalid close frame'')
      | hi # lo # reason \<Rightarrow>
          (let code = code_of_u16 sdk (u16_from_be_bytes hi lo)
           in if \<not> code_allowed sdk code then Inl (invalid ''invalid close status'')
              else (case from_utf8 reason of
                      None \<Rightarrow> Inl (invalid (utf8_error sdk reason))
                    | Some s \<Rightarrow> Inr (Some \<lparr>cf_code = code, cf_reason = s\<rparr>))))"

datatype 'c write_plan = WriteData u8 bytes | WriteControl "'c message"

definition plan_write :: "('c, 'k, 'n) ws_sdk \<Rightarrow> u8 \<Rightarrow> bytes \<Rightarrow> bridge_error + 'c write_plan" where
  "plan_write sdk kind data =
     (if 8 \<le> kind \<and> kind \<le> 10 \<and> 125 < length data then
        Inl (invalid ''control frame payload exceeds 125 bytes'')
      else if kind = 1 \<and> from_utf8 data = None then Inl (invalid (utf8_error sdk data))
      else if kind = 1 \<or> kind = 2 then Inr (WriteData kind data)
      else if kind = 9 then Inr (WriteControl (Ping data))
      else if kind = 10 then Inr (WriteControl (Pong data))
      else if kind = 8 then and_then (close_payload sdk data) (\<lambda>fr. Inr (WriteControl (Close fr)))
      else Inl (invalid ''invalid message type''))"

definition ws_write_task ::
  "('c, 'k, 'n) ws_sdk \<Rightarrow> nat option \<Rightarrow> 'c write_plan \<Rightarrow> ('c, 'k, 'h) connection \<Rightarrow>
     (call_result task \<times> ('c, 'k, 'h) connection) option" where
  "ws_write_task sdk fire plan conn =
     (case plan of
        WriteData kind data \<Rightarrow> ws_send_data sdk fire kind data conn
      | WriteControl m \<Rightarrow> Some (ws_send_control sdk fire m conn))"

subsection \<open>The three tasks on the registry's state\<close>

definition conn_fired :: "('t, 'h) token_api \<Rightarrow> nat \<Rightarrow> ('t, 'c, 'k, 'h, 'n) ws_world \<Rightarrow> bool" where
  "conn_fired api r w \<longleftrightarrow>
     (case ww_store w r of None \<Rightarrow> False | Some c \<Rightarrow> is_cancelled api (ww_tokens w) (co_cancel c))"

definition set_conn ::
  "nat \<Rightarrow> ('c, 'k, 'h) connection \<Rightarrow> ('t, 'c, 'k, 'h, 'n) ws_world \<Rightarrow> ('t, 'c, 'k, 'h, 'n) ws_world" where
  "set_conn r c w = w\<lparr>ww_store := (ww_store w)(r \<mapsto> c)\<rparr>"

text \<open>A task on the connection behind a reference, under \<open>select!\<close> and \<open>run\<close>. An \<open>Arc\<close> always
  points at its connection; the branch for a dangling one is never taken.\<close>

definition run_on ::
  "('t, 'h) token_api \<Rightarrow> string + unit \<Rightarrow> nat \<Rightarrow>
     (('c, 'k, 'h) connection \<Rightarrow> 'n \<Rightarrow> call_result task \<times> ('c, 'k, 'h) connection \<times> 'n) \<Rightarrow>
     runtime_cell \<Rightarrow> ('t, 'c, 'k, 'h, 'n) ws_world \<Rightarrow>
     call_result \<times> runtime_cell \<times> ('t, 'c, 'k, 'h, 'n) ws_world" where
  "run_on api build r body cell w =
     run build (\<lambda>w. select_cancelled (conn_fired api r w) connection_closed
       (\<lambda>w. case ww_store w r of
              None \<Rightarrow> (TaskPanicked, w)
            | Some c \<Rightarrow> (let (t, c', n) = body c (ww_net w) in (t, set_conn r c' (w\<lparr>ww_net := n\<rparr>)))) w) cell w"

definition ws_connect_on ::
  "('c, 'k, 'n) ws_sdk \<Rightarrow> ('t, 'h) token_api \<Rightarrow> string + unit \<Rightarrow> nat option \<Rightarrow> nat \<Rightarrow> runtime_cell \<Rightarrow>
     ('t, 'c, 'k, 'h, 'n) ws_world \<Rightarrow> call_result \<times> runtime_cell \<times> ('t, 'c, 'k, 'h, 'n) ws_world" where
  "ws_connect_on sdk api build fire r cell w = run_on api build r (ws_connect_task sdk fire) cell w"

definition ws_read_on ::
  "('c, 'k, 'n) ws_sdk \<Rightarrow> ('t, 'h) token_api \<Rightarrow> string + unit \<Rightarrow> nat option \<Rightarrow> nat \<Rightarrow> runtime_cell \<Rightarrow>
     ('t, 'c, 'k, 'h, 'n) ws_world \<Rightarrow> call_result \<times> runtime_cell \<times> ('t, 'c, 'k, 'h, 'n) ws_world" where
  "ws_read_on sdk api build fire r cell w =
     run_on api build r (\<lambda>c n. let (t, c') = ws_read_task sdk fire c in (t, c', n)) cell w"

text \<open>\<open>None\<close>: the write never returns.\<close>

definition ws_write_on ::
  "('c, 'k, 'n) ws_sdk \<Rightarrow> ('t, 'h) token_api \<Rightarrow> string + unit \<Rightarrow> nat option \<Rightarrow> nat \<Rightarrow> 'c write_plan \<Rightarrow>
     runtime_cell \<Rightarrow> ('t, 'c, 'k, 'h, 'n) ws_world \<Rightarrow>
     (call_result \<times> runtime_cell \<times> ('t, 'c, 'k, 'h, 'n) ws_world) option" where
  "ws_write_on sdk api build fire r plan cell w =
     (if fst (runtime build cell) = Inr () \<and> \<not> conn_fired api r w \<and>
         (case ww_store w r of None \<Rightarrow> False | Some c \<Rightarrow> ws_write_task sdk fire plan c = None)
      then None
      else Some (run_on api build r
             (\<lambda>c n. case ws_write_task sdk fire plan c of
                      None \<Rightarrow> (TaskPanicked, c, n) | Some (t, c') \<Rightarrow> (t, c', n)) cell w))"

definition ws_connect ::
  "('c, 'k, 'n) ws_sdk \<Rightarrow> ('t, 'h) token_api \<Rightarrow> string + unit \<Rightarrow> nat option \<Rightarrow> u64 \<Rightarrow> runtime_cell \<Rightarrow>
     ('t, 'c, 'k, 'h, 'n) ws_world \<Rightarrow> call_result \<times> runtime_cell \<times> ('t, 'c, 'k, 'h, 'n) ws_world" where
  "ws_connect sdk api build fire i cell w =
     (case ws_lookup i w of Inl e \<Rightarrow> (Inl e, cell, w) | Inr r \<Rightarrow> ws_connect_on sdk api build fire r cell w)"

definition ws_read ::
  "('c, 'k, 'n) ws_sdk \<Rightarrow> ('t, 'h) token_api \<Rightarrow> string + unit \<Rightarrow> nat option \<Rightarrow> u64 \<Rightarrow> runtime_cell \<Rightarrow>
     ('t, 'c, 'k, 'h, 'n) ws_world \<Rightarrow> call_result \<times> runtime_cell \<times> ('t, 'c, 'k, 'h, 'n) ws_world" where
  "ws_read sdk api build fire i cell w =
     (case ws_lookup i w of Inl e \<Rightarrow> (Inl e, cell, w) | Inr r \<Rightarrow> ws_read_on sdk api build fire r cell w)"

definition ws_write ::
  "('c, 'k, 'n) ws_sdk \<Rightarrow> ('t, 'h) token_api \<Rightarrow> string + unit \<Rightarrow> nat option \<Rightarrow> u64 \<Rightarrow> u8 \<Rightarrow> bytes \<Rightarrow>
     runtime_cell \<Rightarrow> ('t, 'c, 'k, 'h, 'n) ws_world \<Rightarrow>
     (call_result \<times> runtime_cell \<times> ('t, 'c, 'k, 'h, 'n) ws_world) option" where
  "ws_write sdk api build fire i kind data cell w =
     (case ws_lookup i w of
        Inl e \<Rightarrow> Some (Inl e, cell, w)
      | Inr r \<Rightarrow>
          (case plan_write sdk kind data of
             Inl e \<Rightarrow> Some (Inl e, cell, w)
           | Inr plan \<Rightarrow> ws_write_on sdk api build fire r plan cell w))"

end
