(* ===== verification/Ws_Messages.thy ===== *)
theory Ws_Messages
  imports Ws_Client
begin

text \<open>
  What travels over a connection: the fragments of a data message against a receiver that puts
  fragments together, control messages and their payloads, the order in which \<open>read\<close> hands out
  messages, and the outcome of \<open>connect\<close>.
\<close>

subsection \<open>A receiver\<close>

text \<open>RFC 6455, section 5.4: a message is a text or binary frame and continuation frames, the last
  of them final. \<open>None\<close> is a protocol error.\<close>

type_synonym rx_state = "(u8 \<times> bytes) list \<times> (u8 \<times> bytes) option"

definition rx_emit :: "(u8 \<times> bytes) list \<Rightarrow> u8 \<Rightarrow> bytes \<Rightarrow> bool \<Rightarrow> rx_state" where
  "rx_emit done k acc fin = (if fin then (done @ [(k, acc)], None) else (done, Some (k, acc)))"

definition rx_step :: "rx_state \<Rightarrow> frame \<Rightarrow> rx_state option" where
  "rx_step s f =
     (case snd s of
        None \<Rightarrow>
          (if fr_opcode f = OpContinue then None
           else Some (rx_emit (fst s) (if fr_opcode f = OpText then 1 else 2) (fr_payload f) (fr_fin f)))
      | Some (k, acc) \<Rightarrow>
          (if fr_opcode f = OpContinue then Some (rx_emit (fst s) k (acc @ fr_payload f) (fr_fin f))
           else None))"

fun rx :: "rx_state \<Rightarrow> frame list \<Rightarrow> rx_state option" where
  "rx s [] = Some s"
| "rx s (f # fs) = Option.bind (rx_step s f) (\<lambda>s'. rx s' fs)"

lemma rx_append: "rx s (xs @ ys) = Option.bind (rx s xs) (\<lambda>s'. rx s' ys)"
proof (induction xs arbitrary: s)
  case (Cons x xs)
  then show ?case by (cases "rx_step s x") simp_all
qed simp

text \<open>The receiver's state when the message \<open>data\<close> has been sent up to \<open>offset\<close>.\<close>

definition rx_partial :: "u8 \<Rightarrow> bytes \<Rightarrow> nat \<Rightarrow> (u8 \<times> bytes) option" where
  "rx_partial kind data offset = (if offset = 0 then None else Some (kind, take offset data))"

lemma fragment_next:
  assumes "fragment n kind data offset = (fr, fin)" "offset \<le> length data"
  shows "offset \<le> fin" "fin \<le> length data" "0 < n \<Longrightarrow> fin \<noteq> length data \<Longrightarrow> offset < fin"
    "length (fr_payload fr) \<le> n" "fr_fin fr \<longleftrightarrow> fin = length data"
  using assms by (auto simp: fragment_def Let_def)

text \<open>One fragment, received: the message is complete, or partial up to the next offset.\<close>

lemma rx_fragment:
  assumes "fragment n kind data offset = (fr, fin)" "kind \<in> {1, 2}"
    and "offset = 0 \<or> offset < length data" "0 < n"
  shows "rx_step (done, rx_partial kind data offset) fr =
     Some (if fin = length data then (done @ [(kind, data)], None)
           else (done, rx_partial kind data fin))"
proof -
  have le: "offset \<le> length data" using assms(3) by auto
  note F = fragment_next [OF assms(1) le]
  have payload: "take offset data @ fr_payload fr = take fin data"
    using assms(1) F(1) by (auto simp: fragment_def Let_def take_add [symmetric])
  have op: "fr_opcode fr = (if 0 < offset then OpContinue else if kind = 1 then OpText else OpBinary)"
    using assms(1) by (auto simp: fragment_def Let_def)
  have pos: "fin \<noteq> length data \<Longrightarrow> 0 < fin"
    using F(3) assms(4) by auto
  show ?thesis
  proof (cases "offset = 0")
    case True
    with op assms(2) payload F(5) pos show ?thesis
      by (auto simp: rx_step_def rx_partial_def rx_emit_def)
  next
    case False
    with op payload F(1,5) show ?thesis
      by (auto simp: rx_step_def rx_partial_def rx_emit_def)
  qed
qed

subsection \<open>The fragments of a message\<close>

text \<open>The frames the loop of \<open>write\<close> sends from an offset on.\<close>

function frames_from :: "nat \<Rightarrow> u8 \<Rightarrow> bytes \<Rightarrow> nat \<Rightarrow> frame list" where
  "frames_from n kind data offset =
     (let (fr, fin) = fragment n kind data offset
      in if fin = length data \<or> fin \<le> offset then [fr] else fr # frames_from n kind data fin)"
  by pat_completeness auto
termination
  by (relation "measure (\<lambda>(n, kind, data, offset). length data - offset)")
     (auto simp: fragment_def Let_def)

declare frames_from.simps [simp del]

lemma frames_from_last: "fragment n kind data offset = (fr, length data) \<Longrightarrow> frames_from n kind data offset = [fr]"
  by (simp add: frames_from.simps)

lemma frames_from_more:
  "fragment n kind data offset = (fr, fin) \<Longrightarrow> fin \<noteq> length data \<Longrightarrow> offset < fin \<Longrightarrow>
     frames_from n kind data offset = fr # frames_from n kind data fin"
  by (subst frames_from.simps) simp

lemma frames_from_rx:
  "kind \<in> {1, 2} \<Longrightarrow> 0 < n \<Longrightarrow> offset = 0 \<or> offset < length data \<Longrightarrow>
     rx (done, rx_partial kind data offset) (frames_from n kind data offset)
       = Some (done @ [(kind, data)], None)
   \<and> (\<forall>fr \<in> set (frames_from n kind data offset). length (fr_payload fr) \<le> n)"
proof (induction n kind data offset rule: frames_from.induct)
  case (1 n kind data offset)
  obtain fr fin where f: "fragment n kind data offset = (fr, fin)"
    by (cases "fragment n kind data offset")
  have le: "offset \<le> length data" using "1.prems"(3) by auto
  note F = fragment_next [OF f le]
  note R = rx_fragment [OF f "1.prems"(1,3,2)]
  show ?case
  proof (cases "fin = length data")
    case True
    with R f F(4) show ?thesis by (simp add: frames_from_last)
  next
    case False
    then have lt: "offset < fin" "fin < length data"
      using F(2,3) "1.prems"(2) by auto
    have IH: "rx (done, rx_partial kind data fin) (frames_from n kind data fin)
        = Some (done @ [(kind, data)], None)
      \<and> (\<forall>fr \<in> set (frames_from n kind data fin). length (fr_payload fr) \<le> n)"
      using "1.IH" [OF f [symmetric] refl] False lt "1.prems"(1,2) by simp
    with False lt R f F(4) show ?thesis by (simp add: frames_from_more)
  qed
qed

text \<open>A sink that takes every message, as the list of what it has taken.\<close>

definition sink_accepts :: "('c, 'c message list, 'n) ws_sdk \<Rightarrow> bool" where
  "sink_accepts sdk \<longleftrightarrow> (\<forall>m k. sink_send sdk m k = (Inr (), k @ [m]))"

lemma send_fragments_accepts:
  assumes "sink_accepts sdk"
  shows "0 < n \<Longrightarrow> offset \<le> length data \<Longrightarrow> co_writer conn = Some k \<Longrightarrow>
     wc_write_frame_size (wl_config (co_owner conn)) = n \<Longrightarrow>
     send_fragments sdk None kind data offset conn =
       Some (Inr (output_handle 0),
             conn\<lparr>co_writer := Some (k @ map RawFrame (frames_from n kind data offset))\<rparr>)"
proof (induction n kind data offset arbitrary: k conn rule: frames_from.induct)
  case (1 n kind data offset)
  obtain fr fin where f: "fragment n kind data offset = (fr, fin)"
    by (cases "fragment n kind data offset")
  note F = fragment_next [OF f "1.prems"(2)]
  have send: "sink_send sdk (RawFrame fr) k = (Inr (), k @ [RawFrame fr])"
    using assms by (simp add: sink_accepts_def)
  let ?conn = "conn\<lparr>co_writer := Some (k @ [RawFrame fr])\<rparr>"
  show ?case
  proof (cases "fin = length data")
    case True
    with f send "1.prems"(3,4) show ?thesis
      by (subst send_fragments.simps) (simp add: frames_from_last)
  next
    case False
    then have lt: "offset < fin" using F(3) "1.prems"(1) by simp
    have "send_fragments sdk None kind data fin ?conn =
        Some (Inr (output_handle 0),
              ?conn\<lparr>co_writer := Some ((k @ [RawFrame fr]) @ map RawFrame (frames_from n kind data fin))\<rparr>)"
      using "1.prems" F(2) False lt by (intro "1.IH" [OF f [symmetric] refl]) simp_all
    with False lt f send "1.prems"(3,4) show ?thesis
      by (subst send_fragments.simps) (simp add: frames_from_more)
  qed
qed

text \<open>Whatever the sink answers and wherever the call is dropped, the loop ends if frames are not
  empty.\<close>

lemma send_fragments_returns:
  "0 < n \<Longrightarrow> offset \<le> length data \<Longrightarrow> wc_write_frame_size (wl_config (co_owner conn)) = n \<Longrightarrow>
     send_fragments sdk fire kind data offset conn \<noteq> None"
proof (induction n kind data offset arbitrary: fire conn rule: frames_from.induct)
  case (1 n kind data offset)
  obtain fr fin where f: "fragment n kind data offset = (fr, fin)"
    by (cases "fragment n kind data offset")
  note F = fragment_next [OF f "1.prems"(2)]
  show ?case
  proof (cases "fire = Some 0 \<or> co_writer conn = None")
    case True
    then show ?thesis by (subst send_fragments.simps) auto
  next
    case False
    then obtain k where k: "co_writer conn = Some k" by auto
    obtain r k' where send: "sink_send sdk (RawFrame fr) k = (r, k')"
      by (cases "sink_send sdk (RawFrame fr) k")
    let ?fire = "case fire of Some (Suc (Suc j)) \<Rightarrow> Some j | _ \<Rightarrow> None"
    have "fin \<noteq> length data \<Longrightarrow> send_fragments sdk ?fire kind data fin (conn\<lparr>co_writer := Some k'\<rparr>) \<noteq> None"
      using "1.prems" F(2,3) by (intro "1.IH" [OF f [symmetric] refl]) auto
    with False k f send "1.prems"(3) show ?thesis
      by (subst send_fragments.simps) (auto simp: Let_def split: sum.split)
  qed
qed

subsection \<open>The configuration of a client\<close>

lemma ws_next_Inr_iff [result_simps]:
  "ws_next w = Inr (i, w') \<longleftrightarrow> u64_checked_add (ww_next w) 1 = Some i \<and> w' = w\<lparr>ww_next := i\<rparr>"
  by (auto simp: ws_next_def split: option.splits)

lemma ws_register_cases:
  assumes "ws_register api cfg con w = (r, w')" "tok_new api (ww_tokens w) = (h, t)"
  obtains (added) i where "r = Inr (output_handle i)" "u64_checked_add (ww_next w) 1 = Some i"
      "w' = w\<lparr>ww_tokens := t, ww_next := i, ww_clients := (ww_clients w)(i \<mapsto>
         \<lparr>wl_connector = con, wl_config = cfg, wl_cancel = h\<rparr>)\<rparr>"
    | (failed) e where "r = Inl e" "w' = w\<lparr>ww_tokens := t\<rparr>"
proof (cases "ww_poisoned w")
  case True
  with assms show ?thesis
    by (intro failed) (auto simp: ws_register_def ws_registry_def Let_def)
next
  case False
  show ?thesis
  proof (cases "u64_checked_add (ww_next w) 1")
    case None
    with False assms show ?thesis
      by (intro failed) (auto simp: ws_register_def ws_registry_def ws_next_def Let_def)
  next
    case (Some i)
    with False assms show ?thesis
      by (intro added [of i]) (auto simp: ws_register_def ws_registry_def ws_next_def Let_def)
  qed
qed

lemma ws_create_success:
  assumes "ws_create sdk api data w = (Inr out, w')" "tok_new api (ww_tokens w) = (h, t)"
  shows "\<exists>cfg0 cfg con i. ws_de_config sdk data = Inr cfg0 \<and> ws_check_config sdk cfg0 = Inr (cfg, con) \<and>
      out = output_handle i \<and> u64_checked_add (ww_next w) 1 = Some i \<and>
      w' = w\<lparr>ww_tokens := t, ww_next := i, ww_clients := (ww_clients w)(i \<mapsto>
         \<lparr>wl_connector = con, wl_config = cfg, wl_cancel = h\<rparr>)\<rparr>"
proof -
  obtain cfg con where c: "and_then (map_err invalid (ws_de_config sdk data)) (ws_check_config sdk) = Inr (cfg, con)"
    using assms(1)
    by (cases "and_then (map_err invalid (ws_de_config sdk data)) (ws_check_config sdk)")
       (auto simp: ws_create_def)
  then obtain cfg0 where c0: "ws_de_config sdk data = Inr cfg0" "ws_check_config sdk cfg0 = Inr (cfg, con)"
    by (auto simp: result_simps)
  have "ws_register api cfg con w = (Inr out, w')"
    using assms(1) c by (simp add: ws_create_def)
  then show ?thesis
    using assms(2)
  proof (cases rule: ws_register_cases)
    case (added i)
    with c0 show ?thesis by auto
  qed simp
qed

lemma ws_create_failure:
  assumes "ws_create sdk api data w = (Inl e, w')"
  shows "w' = w \<or> w' = w\<lparr>ww_tokens := snd (tok_new api (ww_tokens w))\<rparr>"
proof (cases "and_then (map_err invalid (ws_de_config sdk data)) (ws_check_config sdk)")
  case (Inl d)
  with assms show ?thesis by (simp add: ws_create_def)
next
  case (Inr x)
  obtain cfg con where x: "x = (cfg, con)" by (cases x)
  obtain h t where new: "tok_new api (ww_tokens w) = (h, t)" by (cases "tok_new api (ww_tokens w)")
  have "ws_register api cfg con w = (Inl e, w')"
    using assms Inr x by (simp add: ws_create_def)
  then show ?thesis
    using new by (cases rule: ws_register_cases) (use new in auto)
qed

text \<open>What \<open>ws_check_config\<close> lets through.\<close>

definition ws_config_allowed :: "('c, 'k, 'n) ws_sdk \<Rightarrow> ws_config \<Rightarrow> bool" where
  "ws_config_allowed sdk cfg \<longleftrightarrow>
     (\<exists>policy. parse_policy (wc_proxy_policy cfg) = Inr policy) \<and>
     \<not> (wc_proxy_url cfg \<noteq> '''' \<and> (wc_no_proxy cfg \<or> wc_loopback_direct cfg)) \<and>
     (wc_proxy_url cfg = '''' \<or> (\<exists>p. parse_proxy (ws_url sdk) (wc_proxy_url cfg) = Inr p)) \<and>
     wc_write_frame_size cfg \<le> one_mib \<and> wc_max_handshake_body_bytes cfg \<le> one_mib"

lemma default_sizes_sel:
  "wc_write_frame_size (default_sizes cfg) =
     (if wc_write_frame_size cfg = 0 then frame_size_default else wc_write_frame_size cfg)"
  "wc_max_handshake_body_bytes (default_sizes cfg) =
     (if wc_max_handshake_body_bytes cfg = 0 then body_limit_default else wc_max_handshake_body_bytes cfg)"
  by (simp_all add: default_sizes_def Let_def)

lemma ws_check_config_Inr:
  assumes "ws_check_config sdk cfg0 = Inr (cfg, con)"
  shows "ws_config_allowed sdk cfg0" "cfg = default_sizes cfg0"
    "0 < wc_write_frame_size cfg" "wc_write_frame_size cfg \<le> one_mib"
    "0 < wc_max_handshake_body_bytes cfg" "wc_max_handshake_body_bytes cfg \<le> one_mib"
proof -
  obtain policy where p: "parse_policy (wc_proxy_policy cfg0) = Inr policy"
    using assms by (cases "parse_policy (wc_proxy_policy cfg0)") (auto simp: ws_check_config_def)
  have x: "\<not> (wc_proxy_url cfg0 \<noteq> '''' \<and> (wc_no_proxy cfg0 \<or> wc_loopback_direct cfg0))"
    using assms p by (auto simp: ws_check_config_def split: if_splits)
  have pr: "wc_proxy_url cfg0 = '''' \<or> (\<exists>p. parse_proxy (ws_url sdk) (wc_proxy_url cfg0) = Inr p)"
    using assms p x
    by (cases "parse_proxy (ws_url sdk) (wc_proxy_url cfg0)") (auto simp: ws_check_config_def split: if_splits)
  have d: "cfg = default_sizes cfg0 \<and> wc_write_frame_size (default_sizes cfg0) \<le> one_mib \<and>
      wc_max_handshake_body_bytes (default_sizes cfg0) \<le> one_mib"
    using assms p x pr
    by (auto simp: ws_check_config_def Let_def result_simps simp del: one_mib_def split: if_splits)
  then show "cfg = default_sizes cfg0" "wc_write_frame_size cfg \<le> one_mib"
    "wc_max_handshake_body_bytes cfg \<le> one_mib" by auto
  show "0 < wc_write_frame_size cfg" "0 < wc_max_handshake_body_bytes cfg"
    using d by (auto simp: default_sizes_sel frame_size_default_def body_limit_default_def)
  show "ws_config_allowed sdk cfg0"
    unfolding ws_config_allowed_def using p x pr d by (auto simp: default_sizes_sel split: if_splits)
qed

text \<open>And exactly that, cookies and the connector apart.\<close>

lemma ws_check_config_iff:
  "ws_check_config sdk cfg0 = Inr (cfg, con) \<longleftrightarrow>
     ws_config_allowed sdk cfg0 \<and> cfg = default_sizes cfg0 \<and>
     (\<exists>policy fac x. parse_policy (wc_proxy_policy cfg0) = Inr policy \<and>
        make_factory (value_from_str (ws_codec sdk)) policy
          (case wc_chatgpt_cookies cfg0 of None \<Rightarrow> [] | Some cs \<Rightarrow> cs) = Inr fac \<and>
        connector_new sdk fac = Inr x \<and> con = \<lparr>cn_factory = fac, cn_nodelay = wc_tcp_nodelay cfg0\<rparr>)"
    (is "?check \<longleftrightarrow> ?allowed \<and> ?rest")
proof -
  have sizes: "one_mib < wc_write_frame_size (default_sizes cfg0) \<or> one_mib < wc_max_handshake_body_bytes (default_sizes cfg0)
      \<longleftrightarrow> one_mib < wc_write_frame_size cfg0 \<or> one_mib < wc_max_handshake_body_bytes cfg0"
    by (simp add: default_sizes_sel frame_size_default_def body_limit_default_def one_mib_def)
  have same: "wc_chatgpt_cookies (default_sizes cfg0) = wc_chatgpt_cookies cfg0"
    "wc_tcp_nodelay (default_sizes cfg0) = wc_tcp_nodelay cfg0"
    by (simp_all add: default_sizes_def Let_def)
  show ?thesis
  proof (cases "?allowed")
    case True
    then obtain policy where p: "parse_policy (wc_proxy_policy cfg0) = Inr policy" by (auto simp: ws_config_allowed_def)
    have "ws_check_config sdk cfg0 =
        and_then (make_factory (value_from_str (ws_codec sdk)) policy
                    (case wc_chatgpt_cookies cfg0 of None \<Rightarrow> [] | Some cs \<Rightarrow> cs)) (\<lambda>fac.
        and_then (map_err (bridge_error_new ''tls'') (connector_new sdk fac)) (\<lambda>_.
          Inr (default_sizes cfg0, \<lparr>cn_factory = fac, cn_nodelay = wc_tcp_nodelay cfg0\<rparr>)))"
      using True p sizes
      by (auto simp: ws_check_config_def ws_config_allowed_def Let_def same not_less simp del: one_mib_def)
    with True p show ?thesis by (auto simp: result_simps)
  next
    case False
    with ws_check_config_Inr(1) show ?thesis by blast
  qed
qed

text \<open>
  A registered client's fragments and rejected bodies are bounded: whatever the
  configuration asks for, the frame size and the body limit of the client are between 1 byte and
  1 MiB (the configured value, or the default for 0), conflicting proxy options never get through,
  and a failed \<open>create\<close> leaves the registry as it was.
\<close>

theorem ws_create_limits:
  assumes "ws_create sdk api data w = (r, w')"
  shows "case r of
      Inr out \<Rightarrow> (\<exists>cfg0 client i. ws_de_config sdk data = Inr cfg0 \<and> ws_config_allowed sdk cfg0 \<and>
         out = output_handle i \<and> unat i = Suc (unat (ww_next w)) \<and>
         ww_clients w' = (ww_clients w)(i \<mapsto> client) \<and> ww_conns w' = ww_conns w \<and>
         wl_config client = default_sizes cfg0 \<and>
         0 < wc_write_frame_size (wl_config client) \<and> wc_write_frame_size (wl_config client) \<le> one_mib \<and>
         0 < wc_max_handshake_body_bytes (wl_config client) \<and>
         wc_max_handshake_body_bytes (wl_config client) \<le> one_mib)
    | Inl e \<Rightarrow> ww_next w' = ww_next w \<and> ww_clients w' = ww_clients w \<and> ww_conns w' = ww_conns w \<and>
         ww_store w' = ww_store w"
proof (cases r)
  case (Inl e)
  with ws_create_failure [of sdk api data w e w'] assms show ?thesis by auto
next
  case (Inr out)
  obtain h t where new: "tok_new api (ww_tokens w) = (h, t)" by (cases "tok_new api (ww_tokens w)")
  from ws_create_success [OF assms [unfolded Inr] new]
  obtain cfg0 cfg con i where c: "ws_de_config sdk data = Inr cfg0" "ws_check_config sdk cfg0 = Inr (cfg, con)"
    "out = output_handle i" "u64_checked_add (ww_next w) 1 = Some i"
    "w' = w\<lparr>ww_tokens := t, ww_next := i, ww_clients := (ww_clients w)(i \<mapsto>
         \<lparr>wl_connector = con, wl_config = cfg, wl_cancel = h\<rparr>)\<rparr>"
    by (elim exE conjE) (rule that)
  show ?thesis
    unfolding Inr sum.case using c ws_check_config_Inr [OF c(2)]
    by (intro exI [of _ cfg0] exI [of _ "\<lparr>wl_connector = con, wl_config = cfg, wl_cancel = h\<rparr>"] exI [of _ i])
       (simp add: u64_checked_add_Some_iff)
qed

subsection \<open>A concrete SDK\<close>

text \<open>Close codes are their numbers; the sink takes everything; the first dial gives a socket that
  yields a text, a raw frame, a ping and a close, and later dials are rejected with 403.\<close>

definition sample_ws_config :: ws_config where
  "sample_ws_config =
     \<lparr>wc_proxy_policy = '''', wc_proxy_url = '''', wc_no_proxy = True, wc_handshake_timeout_ms = 9,
      wc_loopback_direct = False, wc_tcp_nodelay = True, wc_max_message_size = None,
      wc_max_frame_size = Some 7, wc_chatgpt_cookies = None, wc_write_frame_size = 2,
      wc_max_handshake_body_bytes = 0\<rparr>"

definition sample_items :: "u16 ws_item list" where
  "sample_items =
     [Inr (TextMessage [0x68]), Inr (RawFrame \<lparr>fr_payload = [], fr_opcode = OpText, fr_fin = True\<rparr>),
      Inr (Ping [5]), Inr (Close (Some \<lparr>cf_code = 1009, cf_reason = [0x62]\<rparr>)), Inr (Pong [])]"

definition sample_ws :: "(u16, u16 message list, nat) ws_sdk" where
  "sample_ws =
     \<lparr>ws_de_config = (\<lambda>d. if d = [] then Inl ''eof'' else Inr sample_ws_config),
      ws_de_dial = (\<lambda>d. if d = [] then Inl ''eof'' else Inr \<lparr>dr_url = ''h'', dr_headers = []\<rparr>),
      ws_url = \<lparr>url_parse = (\<lambda>s. Inr \<lparr>url_text = ''ws://'' @ s, url_scheme = ''ws'', url_host = Some s,
          url_port = None, url_path = ''/'', url_query = None, url_fragment = None\<rparr>),
        proxy_all = (\<lambda>u. Inr \<lparr>proxy_target = u, proxy_except = []\<rparr>)\<rparr>,
      ws_codec = sample_codec, ws_http = sample_http_api, connector_new = (\<lambda>f. Inr ()),
      into_request = (\<lambda>u. Inr \<lparr>up_url = u, up_headers = []\<rparr>), extend_headers = (@),
      default_limits = \<lparr>lm_message = Some 64, lm_frame = Some 16, lm_write_buffer = 128\<rparr>,
      dial = (\<lambda>con req lim route n.
        (if n = 0 then Inr ([], sample_items, \<lparr>hs_status = 101, hs_headers = [], hs_captured = None\<rparr>)
         else Inl \<lparr>we_class = WsHttp (sample_rejection sample_wire), we_display = ''http''\<rparr>, Suc n)),
      ws_now = id,
      hs_to_vec = (\<lambda>h. Inr (ascii (show_nat (hk_status h)))),
      hs_to_value = (\<lambda>h. Inr (JObject [(''status_code'', JNumber (int (hk_status h))),
        (''body'', JString (hk_body h)), (''body_truncated'', JBool (hk_body_truncated h))])),
      code_of_u16 = id, u16_of_code = id, code_allowed = (\<lambda>c. 1000 \<le> c),
      utf8_error = (\<lambda>b. ''invalid utf-8''),
      sink_send = (\<lambda>m k. (Inr (), k @ [m])), sink_flush = (\<lambda>k. (Inr (), k))\<rparr>"

definition sample_ws_client :: "nat ws_client" where
  "sample_ws_client =
     \<lparr>wl_connector = \<lparr>cn_factory = \<lparr>fac_policy = RespectSystemProxy, fac_cookies = []\<rparr>, cn_nodelay = True\<rparr>,
      wl_config = sample_ws_config\<lparr>wc_max_handshake_body_bytes := body_limit_default\<rparr>, wl_cancel = 0\<rparr>"

definition sample_ws_target :: url where
  "sample_ws_target = projr (url_parse (ws_url sample_ws) ''h'')"

definition sample_conn :: "(u16, u16 message list, nat) connection" where
  "sample_conn =
     \<lparr>co_client = 1, co_owner = sample_ws_client, co_cancel = 1,
      co_pending = Some \<lparr>up_url = sample_ws_target, up_headers = []\<rparr>,
      co_reader = None, co_writer = None, co_peer_close = False\<rparr>"

definition sample_open :: "(u16, u16 message list, nat) connection" where
  "sample_open = sample_conn\<lparr>co_pending := None, co_reader := Some sample_items, co_writer := Some []\<rparr>"

lemma sample_create_ws:
  "ws_create sample_ws list_tokens [1] (ws_empty [] 0) =
     (Inr (output_handle 1),
      (ws_empty [] 0)\<lparr>ww_tokens := [([0], False)], ww_next := 1, ww_clients := [1 \<mapsto> sample_ws_client]\<rparr>)"
  by (simp add: ws_create_def ws_check_config_def sample_ws_def sample_ws_config_def parse_policy_def
      default_sizes_def one_mib_def body_limit_default_def make_factory_def ws_register_def
      list_tokens_def ws_empty_def ws_registry_def ws_next_def u64_checked_add_def sample_ws_client_def)

theorem ws_create_limits_witness:
  "ws_config_allowed sample_ws sample_ws_config \<and>
   fst (ws_create sample_ws list_tokens [1] (ws_empty [] 0)) = Inr (output_handle 1)"
proof -
  have "ws_de_config sample_ws [1] = Inr sample_ws_config" by (simp add: sample_ws_def)
  then have "ws_config_allowed sample_ws sample_ws_config"
    using ws_create_limits [OF sample_create_ws] by auto
  then show ?thesis by (simp add: sample_create_ws)
qed

lemma sample_ws_accepts: "sink_accepts sample_ws"
  by (simp add: sink_accepts_def sample_ws_def)

subsection \<open>Properties of write\<close>

text \<open>
  C24. Writing a data message: with the frame sizes \<open>create\<close> allows, \<open>write\<close> always returns,
  whatever the sink answers; and where the sink takes the frames, they are all nonempty fragments
  of at most that size (or one empty frame for an empty message) from which a receiver in any
  state between messages gets exactly this message back, as one message of its kind.
\<close>

theorem ws_write_fragments:
  assumes "0 < wc_write_frame_size (wl_config (co_owner conn))" "kind \<in> {1, 2}"
  shows "ws_write_task sdk fire (WriteData kind data) conn \<noteq> None
    \<and> (\<not> sink_accepts sdk' \<or> co_writer conn' \<noteq> Some k \<or> co_owner conn' \<noteq> co_owner conn \<or>
       (\<exists>frs. ws_write_task sdk' None (WriteData kind data) conn' =
            Some (Finished (Inr (output_handle 0)), conn'\<lparr>co_writer := Some (k @ map RawFrame frs)\<rparr>) \<and>
          rx (done, None) frs = Some (done @ [(kind, data)], None) \<and>
          (\<forall>fr \<in> set frs. length (fr_payload fr) \<le> wc_write_frame_size (wl_config (co_owner conn)))))"
proof
  show "ws_write_task sdk fire (WriteData kind data) conn \<noteq> None"
    using send_fragments_returns [OF assms(1) _ refl, of 0 data sdk _ kind]
    by (simp add: ws_write_task_def ws_send_data_def del: not_None_eq)
  let ?n = "wc_write_frame_size (wl_config (co_owner conn))"
  show "\<not> sink_accepts sdk' \<or> co_writer conn' \<noteq> Some k \<or> co_owner conn' \<noteq> co_owner conn \<or>
       (\<exists>frs. ws_write_task sdk' None (WriteData kind data) conn' =
            Some (Finished (Inr (output_handle 0)), conn'\<lparr>co_writer := Some (k @ map RawFrame frs)\<rparr>) \<and>
          rx (done, None) frs = Some (done @ [(kind, data)], None) \<and>
          (\<forall>fr \<in> set frs. length (fr_payload fr) \<le> ?n))"
  proof (cases "sink_accepts sdk' \<and> co_writer conn' = Some k \<and> co_owner conn' = co_owner conn")
    case True
    then have "send_fragments sdk' None kind data 0 conn' =
        Some (Inr (output_handle 0), conn'\<lparr>co_writer := Some (k @ map RawFrame (frames_from ?n kind data 0))\<rparr>)"
      using assms(1) by (intro send_fragments_accepts) simp_all
    moreover have "rx (done, None) (frames_from ?n kind data 0) = Some (done @ [(kind, data)], None)
       \<and> (\<forall>fr \<in> set (frames_from ?n kind data 0). length (fr_payload fr) \<le> ?n)"
      using frames_from_rx [OF assms(2,1), of 0 data "done"] by (simp add: rx_partial_def)
    ultimately show ?thesis
      by (auto simp: ws_write_task_def ws_send_data_def)
  qed blast
qed

theorem ws_write_fragments_witness:
  "\<exists>frs. ws_write_task sample_ws None (WriteData 2 [1, 2, 3, 4, 5]) sample_open =
       Some (Finished (Inr (output_handle 0)), sample_open\<lparr>co_writer := Some (map RawFrame frs)\<rparr>) \<and>
     rx ([], None) frs = Some ([(2, [1, 2, 3, 4, 5])], None)"
proof -
  have "0 < wc_write_frame_size (wl_config (co_owner sample_open))" "co_writer sample_open = Some []"
    by (simp_all add: sample_open_def sample_conn_def sample_ws_client_def sample_ws_config_def)
  with ws_write_fragments [of sample_open 2 sample_ws None "[1, 2, 3, 4, 5]" sample_ws sample_open "[]" "[]"]
    sample_ws_accepts
  show ?thesis by auto
qed

subsection \<open>What write accepts\<close>

definition close_allowed :: "('c, 'k, 'n) ws_sdk \<Rightarrow> bytes \<Rightarrow> bool" where
  "close_allowed sdk data \<longleftrightarrow>
     data = [] \<or>
     2 \<le> length data \<and> code_allowed sdk (code_of_u16 sdk (u16_from_be_bytes (data ! 0) (data ! 1))) \<and>
     utf8_valid (drop 2 data)"

definition write_allowed :: "('c, 'k, 'n) ws_sdk \<Rightarrow> u8 \<Rightarrow> bytes \<Rightarrow> bool" where
  "write_allowed sdk kind data \<longleftrightarrow>
     kind = 1 \<and> utf8_valid data \<or> kind = 2 \<or>
     length data \<le> 125 \<and> (kind = 9 \<or> kind = 10 \<or> kind = 8 \<and> close_allowed sdk data)"

lemma close_payload_parts:
  assumes "\<And>n. u16_of_code sdk (code_of_u16 sdk n) = n"
  shows "case close_payload sdk data of
      Inr fr \<Rightarrow> close_allowed sdk data \<and> message_parts sdk (Close fr) = Some (8, data)
    | Inl e \<Rightarrow> \<not> close_allowed sdk data \<and> err_kind e = ''invalid_input''"
proof -
  consider "data = []" | hi where "data = [hi]" | hi lo reason where "data = hi # lo # reason"
    by (cases data; cases "tl data") auto
  then show ?thesis
  proof cases
    case 3
    then show ?thesis
      by (cases "utf8_valid reason")
         (auto simp: close_payload_def close_allowed_def Let_def message_parts_def assms u16_be_roundtrip
            from_utf8_def)
  qed (simp_all add: close_payload_def close_allowed_def message_parts_def)
qed

lemma plan_write_control:
  assumes "\<And>n. u16_of_code sdk (code_of_u16 sdk n) = n" "kind = 8" "length data \<le> 125"
  shows "case plan_write sdk kind data of
      Inr (WriteData k d) \<Rightarrow> False
    | Inr (WriteControl m) \<Rightarrow> close_allowed sdk data \<and> message_parts sdk m = Some (8, data) \<and> is_close m
    | Inl e \<Rightarrow> \<not> close_allowed sdk data \<and> err_kind e = ''invalid_input''"
  using close_payload_parts [OF assms(1), where data = data] assms(2,3)
  by (cases "close_payload sdk data") (simp_all add: plan_write_def is_close_def)

text \<open>
  C37. What \<open>write\<close> accepts: exactly text that is UTF-8, binary data, pings and pongs of up to 125
  bytes, and a close of up to 125 bytes that is empty or an allowed status and a UTF-8 reason; all
  else is \<open>invalid_input\<close>. And a control message it accepts is reported by the peer's \<open>read\<close> with
  the kind and the very bytes that were written.
\<close>

theorem plan_write_spec:
  assumes "\<And>n. u16_of_code sdk (code_of_u16 sdk n) = n"
  shows "case plan_write sdk kind data of
      Inr (WriteData k d) \<Rightarrow> write_allowed sdk kind data \<and> k = kind \<and> d = data \<and> kind \<in> {1, 2}
    | Inr (WriteControl m) \<Rightarrow> write_allowed sdk kind data \<and> kind \<in> {8, 9, 10} \<and>
        message_parts sdk m = Some (kind, data) \<and> (is_close m \<longleftrightarrow> kind = 8)
    | Inl e \<Rightarrow> \<not> write_allowed sdk kind data \<and> err_kind e = ''invalid_input''"
proof (cases "8 \<le> kind \<and> kind \<le> 10 \<and> 125 < length data")
  case True
  then show ?thesis by (auto simp: plan_write_def write_allowed_def word_le_nat_alt)
next
  case ok: False
  consider "kind = 1" | "kind = 2" | "kind = 9" | "kind = 10" | "kind = 8"
    | "kind \<notin> {1, 2, 8, 9, 10}" by blast
  then show ?thesis
  proof cases
    case 1
    then show ?thesis by (simp add: plan_write_def from_utf8_def write_allowed_def word_le_nat_alt)
  next
    case 5
    with ok have len: "length data \<le> 125" by simp
    from plan_write_control [OF assms 5 len] 5 len show ?thesis
      by (auto simp: write_allowed_def split: sum.splits write_plan.splits)
  qed (use ok in \<open>simp_all add: plan_write_def message_parts_def is_close_def write_allowed_def\<close>)
qed

theorem plan_write_spec_witness:
  "\<exists>m. plan_write sample_ws 8 [0x03, 0xE8, 0x6F] = Inr (WriteControl m) \<and>
     message_parts sample_ws m = Some (8, [0x03, 0xE8, 0x6F])"
proof -
  have law: "u16_of_code sample_ws (code_of_u16 sample_ws n) = n" for n
    by (simp add: sample_ws_def)
  have "isl (plan_write sample_ws 8 [0x03, 0xE8, 0x6F]) = False" by code_simp
  with plan_write_spec [OF law, of 8 "[0x03, 0xE8, 0x6F]"] show ?thesis
    by (cases "plan_write sample_ws 8 [0x03, 0xE8, 0x6F]") (auto split: write_plan.splits)
qed

end
