(* ===== verification/Ws_Outcomes.thy ===== *)
theory Ws_Outcomes
  imports Ws_Messages
begin

text \<open>
  What the callers of a connection see: the order of the messages \<open>read\<close> hands out, what a
  received close does to the reads and writes after it, and the outcomes of \<open>connect\<close>.
\<close>

subsection \<open>Sequences of reads\<close>

fun ws_reads ::
  "('c, 'k, 'n) ws_sdk \<Rightarrow> nat \<Rightarrow> ('c, 'k, 'h) connection \<Rightarrow>
     call_result task list \<times> ('c, 'k, 'h) connection" where
  "ws_reads sdk 0 conn = ([], conn)"
| "ws_reads sdk (Suc k) conn =
     (let (r, conn1) = ws_read_task sdk None conn; (rs, conn2) = ws_reads sdk k conn1
      in (r # rs, conn2))"

text \<open>What the items of a socket mean to the reader. A ping or a close makes Tungstenite queue an
  answer, which the sink is flushed for; a ping whose answer cannot be sent is reported as that
  failure, any other message is handed out. Raw frames are skipped, errors are reported where they
  stand, and nothing follows a close.\<close>

definition item_result :: "ws_error \<Rightarrow> call_result" where
  "item_result e = (if we_class e = ConnectionClosed then Inr output_eof else Inl (bridge_error_of_ws e))"

definition answer_ping :: "('c, 'k, 'n) ws_sdk \<Rightarrow> u8 \<Rightarrow> 'k option \<Rightarrow> bridge_error option \<times> 'k option" where
  "answer_ping sdk kind writer =
     (if writer = None \<or> kind \<notin> {8, 9} then (None, writer)
      else map_prod
             (\<lambda>flushed. case flushed of
                Inl e \<Rightarrow> if kind = 9 \<and> we_class e \<noteq> ConnectionClosed then Some (bridge_error_of_ws e) else None
              | Inr _ \<Rightarrow> None)
             Some (sink_flush sdk (the writer)))"

fun inbox :: "('c, 'k, 'n) ws_sdk \<Rightarrow> 'k option \<Rightarrow> 'c ws_item list \<Rightarrow> call_result list" where
  "inbox sdk writer [] = []"
| "inbox sdk writer (Inl e # items) = item_result e # inbox sdk writer items"
| "inbox sdk writer (Inr m # items) =
     (case message_parts sdk m of
        None \<Rightarrow> inbox sdk writer items
      | Some (kind, payload) \<Rightarrow>
          (case answer_ping sdk kind writer of
             (Some e, writer') \<Rightarrow> Inl e # inbox sdk writer' items
           | (None, writer') \<Rightarrow>
               Inr (output_data (kind # payload)) # (if is_close m then [] else inbox sdk writer' items)))"

definition unread :: "('c, 'k, 'n) ws_sdk \<Rightarrow> ('c, 'k, 'h) connection \<Rightarrow> call_result list" where
  "unread sdk conn =
     (if co_peer_close conn then []
      else (case co_reader conn of None \<Rightarrow> [] | Some items \<Rightarrow> inbox sdk (co_writer conn) items))"

lemma acknowledge_answer: "kind = 9 \<or> kind = 8 \<Longrightarrow> acknowledge sdk kind writer = answer_ping sdk kind writer"
  by (cases writer; cases "sink_flush sdk (the writer)")
     (auto simp: acknowledge_def answer_ping_def Let_def split: sum.split)

lemma acknowledge_close: "fst (acknowledge sdk 8 writer) = None"
  by (auto simp: acknowledge_def split: option.splits prod.splits sum.splits)

lemma message_parts_None: "message_parts sdk m = None \<Longrightarrow> \<not> is_close m"
  by (auto simp: is_close_def message_parts_def split: message.splits)

lemma message_parts_kind: "message_parts sdk m = Some (kind, payload) \<Longrightarrow> is_close m \<longleftrightarrow> kind = 8"
  by (auto simp: is_close_def message_parts_def split: message.splits)

lemma ws_read_loop_unread:
  "\<not> co_peer_close conn \<Longrightarrow>
     \<exists>conn'. ws_read_loop sdk None items conn =
        (Completed (case inbox sdk (co_writer conn) items of [] \<Rightarrow> Inr output_eof | r # _ \<Rightarrow> r), conn') \<and>
      unread sdk conn' = tl (inbox sdk (co_writer conn) items) \<and> co_reader conn' \<noteq> None"
proof (induction items arbitrary: conn)
  case Nil
  then show ?case by (simp add: ws_read_loop.simps unread_def)
next
  case (Cons item rest)
  show ?case
  proof (cases item)
    case (Inl e)
    with Cons.prems show ?thesis
      by (simp add: ws_read_loop.simps unread_def item_result_def)
  next
    case (Inr m)
    show ?thesis
    proof (cases "message_parts sdk m")
      case None
      then have "\<not> is_close m" by (rule message_parts_None)
      with Cons.prems Inr None have "ws_read_loop sdk None (item # rest) conn =
          ws_read_loop sdk None rest (conn\<lparr>co_reader := Some rest, co_peer_close := False\<rparr>)"
        by (subst ws_read_loop.simps) simp
      with Cons.IH [of "conn\<lparr>co_reader := Some rest, co_peer_close := False\<rparr>"] Inr None
      show ?thesis by simp
    next
      case (Some p)
      obtain kind payload where p: "p = (kind, payload)" by (cases p)
      note close = message_parts_kind [OF Some [unfolded p]]
      obtain failure w where ack: "answer_ping sdk kind (co_writer conn) = (failure, w)"
        by (cases "answer_ping sdk kind (co_writer conn)")
      have silent: "failure = None \<and> w = co_writer conn" if "\<not> (kind = 9 \<or> kind = 8)"
        using ack that by (simp add: answer_ping_def)
      have "failure = None" if "kind = 8"
        using ack acknowledge_close [of sdk "co_writer conn"] acknowledge_answer [of kind sdk "co_writer conn"] that
        by simp
      with Cons.prems Inr Some p close ack silent acknowledge_answer [of kind sdk "co_writer conn"] show ?thesis
        by (cases "kind = 9 \<or> kind = 8"; cases failure)
           (auto simp: ws_read_loop.simps [of _ None] unread_def Let_def)
    qed
  qed
qed

lemma ws_read_task_unread:
  assumes "co_reader conn \<noteq> None"
  shows "\<exists>conn'. ws_read_task sdk None conn =
        (Finished (case unread sdk conn of [] \<Rightarrow> Inr output_eof | r # _ \<Rightarrow> r), conn') \<and>
      unread sdk conn' = tl (unread sdk conn) \<and> co_reader conn' \<noteq> None"
proof -
  obtain items where items: "co_reader conn = Some items" using assms by auto
  show ?thesis
  proof (cases "co_peer_close conn")
    case True
    with items show ?thesis by (simp add: ws_read_task_def unread_def)
  next
    case False
    from ws_read_loop_unread [OF this, of sdk items] False items show ?thesis
      by (auto simp: ws_read_task_def unread_def)
  qed
qed

lemma take_first_or_eof:
  "take (Suc k) (xs @ replicate (Suc k) e) =
     (case xs of [] \<Rightarrow> e | x # _ \<Rightarrow> x) # take k (tl xs @ replicate k e)"
  by (cases xs) (simp_all add: replicate_append_same [symmetric])

text \<open>
  C28. Any number of reads on an established connection hands out what its socket yields, in
  order: each message once with its kind, except a ping whose answer the sink fails to send, for
  which the read reports that failure; raw frames are skipped and errors reported where they stand;
  nothing follows a close, and after the last item it is end of file forever.
\<close>

theorem ws_reads_in_order:
  assumes "co_reader conn \<noteq> None"
  shows "fst (ws_reads sdk k conn) =
     map Finished (take k (unread sdk conn @ replicate k (Inr output_eof)))"
  using assms
proof (induction k arbitrary: conn)
  case (Suc k)
  from ws_read_task_unread [OF Suc.prems]
  obtain conn' where step: "ws_read_task sdk None conn =
      (Finished (case unread sdk conn of [] \<Rightarrow> Inr output_eof | r # _ \<Rightarrow> r), conn')"
    "unread sdk conn' = tl (unread sdk conn)" "co_reader conn' \<noteq> None" by blast
  with Suc.IH [of conn'] show ?case
    unfolding take_first_or_eof by (simp add: case_prod_unfold)
qed simp

text \<open>A sink that fails to flush: the sample's ping is lost to its failure, the close is not.\<close>

definition sample_stuck :: "(u16, u16 message list, nat) ws_sdk" where
  "sample_stuck = sample_ws\<lparr>sink_flush := (\<lambda>k. (Inl \<lparr>we_class = OtherWs, we_display = ''stuck''\<rparr>, k))\<rparr>"

theorem ws_reads_in_order_witness:
  "fst (ws_reads sample_stuck 5 sample_open) =
     map Finished [Inr (output_data [1, 0x68]), Inl (bridge_error_of_ws \<lparr>we_class = OtherWs, we_display = ''stuck''\<rparr>),
       Inr (output_data [8, 0x03, 0xF1, 0x62]), Inr output_eof, Inr output_eof]"
proof -
  have r: "co_reader sample_open \<noteq> None" by (simp add: sample_open_def)
  have u: "unread sample_stuck sample_open =
      [Inr (output_data [1, 0x68]), Inl (bridge_error_of_ws \<lparr>we_class = OtherWs, we_display = ''stuck''\<rparr>),
       Inr (output_data [8, 0x03, 0xF1, 0x62])]"
    by (simp add: unread_def sample_open_def sample_conn_def sample_items_def sample_ws_def sample_stuck_def
        message_parts_def is_close_def u16_to_be_bytes_def answer_ping_def)
  have t: "take 5 ([a, b, c] @ replicate 5 e) = [a, b, c, e, e]" for a b c e :: call_result
    by (simp add: numeral_eq_Suc)
  show ?thesis by (simp only: ws_reads_in_order [OF r, of sample_stuck 5] u t)
qed

subsection \<open>After a close\<close>

definition peer_close_error :: bridge_error where
  "peer_close_error = bridge_error_new ''closing'' ''WebSocket peer close has been received''"

lemma write_error_closing: "write_error True e = peer_close_error"
  by (simp add: write_error_def peer_close_error_def)

definition closing_results :: "call_result set" where
  "closing_results = {Inr (output_handle 0), Inl connection_closed, Inl peer_close_error}"

lemma send_fragments_closing:
  "send_fragments sdk fire kind data offset conn = Some y \<Longrightarrow>
     co_peer_close conn \<Longrightarrow> co_writer conn \<noteq> None \<Longrightarrow> fst y \<in> closing_results"
proof (induction rule: send_fragments.raw_induct [rotated, consumes 1])
  case (1 f sdk fire kind data offset conn y)
  then show ?case
    by (auto simp: closing_results_def write_error_closing Let_def
        split: if_splits option.splits prod.splits sum.splits)
qed

lemma ws_write_task_closing:
  assumes "ws_write_task sdk fire plan conn = Some (res, conn')"
    and "co_peer_close conn" "co_writer conn \<noteq> None"
  shows "res \<in> Finished ` closing_results"
proof (cases plan)
  case (WriteData kind data)
  with assms show ?thesis
    by (auto simp: ws_write_task_def ws_send_data_def closing_results_def
        dest: send_fragments_closing split: if_splits)
next
  case (WriteControl m)
  with assms show ?thesis
    by (auto simp: ws_write_task_def ws_send_control_def closing_results_def write_error_closing Let_def
        split: if_splits prod.splits sum.splits)
qed

text \<open>
  C25. A close the peer has sent is what the reader gets, with its status and reason, even if
  acknowledging it fails; from then on every read is the end of file, whatever else the socket
  would yield, and no write reports a socket failure of its own: a write that fails is \<open>closing\<close>,
  so the close remains the connection's outcome.
\<close>

theorem ws_close_delivered:
  fixes sdk :: "('c, 'k, 'n) ws_sdk" and conn :: "('c, 'k, 'h) connection"
  assumes "co_reader conn = Some (Inr (Close fr) # rest)" "\<not> co_peer_close conn"
  shows "\<exists>payload conn'. message_parts sdk (Close fr) = Some (8, payload) \<and>
      ws_read_task sdk None conn = (Finished (Inr (output_data (8 # payload))), conn') \<and>
      (\<forall>(sdk' :: ('c, 'k, 'n) ws_sdk) fire. ws_read_task sdk' fire conn' =
         (Finished (if fire = Some 0 then Inl connection_closed else Inr output_eof), conn')) \<and>
      (\<forall>(sdk' :: ('c, 'k, 'n) ws_sdk) fire plan res conn''. co_writer conn \<noteq> None \<and>
         ws_write_task sdk' fire plan conn' = Some (res, conn'') \<longrightarrow>
         res \<in> Finished ` {Inr (output_handle 0), Inl connection_closed, Inl peer_close_error})"
proof -
  obtain payload where parts: "message_parts sdk (Close fr) = Some (8, payload)"
    by (auto simp: message_parts_def)
  obtain k where ack: "acknowledge sdk 8 (co_writer conn) = (None, k)"
    using acknowledge_close [of sdk "co_writer conn"] by (cases "acknowledge sdk 8 (co_writer conn)") auto
  have k: "co_writer conn \<noteq> None \<Longrightarrow> k \<noteq> None"
    using ack by (auto simp: acknowledge_def split: option.splits prod.splits sum.splits if_splits)
  let ?conn = "conn\<lparr>co_reader := Some rest, co_peer_close := True, co_writer := k\<rparr>"
  have read: "ws_read_task sdk None conn = (Finished (Inr (output_data (8 # payload))), ?conn)"
    using assms parts ack by (simp add: ws_read_task_def ws_read_loop.simps [of _ None] is_close_def)
  have eof: "ws_read_task sdk' fire ?conn =
      (Finished (if fire = Some 0 then Inl connection_closed else Inr output_eof), ?conn)" for sdk' :: "('c, 'k, 'n) ws_sdk" and fire
    by (simp add: ws_read_task_def)
  have wr: "res \<in> Finished ` closing_results"
    if "co_writer conn \<noteq> None" "ws_write_task sdk' fire plan ?conn = Some (res, conn'')"
    for sdk' :: "('c, 'k, 'n) ws_sdk" and fire plan res conn''
    using ws_write_task_closing [OF that(2)] k [OF that(1)] by simp
  show ?thesis
    using parts read eof wr unfolding closing_results_def by blast
qed

theorem ws_close_delivered_witness:
  "\<exists>conn'. ws_read_task sample_ws None (sample_open\<lparr>co_reader := Some (drop 3 sample_items)\<rparr>) =
     (Finished (Inr (output_data [8, 0x03, 0xF1, 0x62])), conn') \<and>
     ws_read_task sample_ws None conn' = (Finished (Inr output_eof), conn')"
proof -
  let ?c = "sample_open\<lparr>co_reader := Some (drop 3 sample_items)\<rparr>"
  have "co_reader ?c = Some (Inr (Close (Some \<lparr>cf_code = 1009, cf_reason = [0x62]\<rparr>)) # [Inr (Pong [])])"
    by (simp add: sample_items_def numeral_eq_Suc)
  moreover have "\<not> co_peer_close ?c" by (simp add: sample_open_def sample_conn_def)
  moreover have "message_parts sample_ws (Close (Some \<lparr>cf_code = 1009, cf_reason = [0x62]\<rparr>)) =
      Some (8, [0x03, 0xF1, 0x62])"
    by (simp add: message_parts_def sample_ws_def u16_to_be_bytes_def)
  ultimately show ?thesis
    using ws_close_delivered [of ?c "Some \<lparr>cf_code = 1009, cf_reason = [0x62]\<rparr>" "[Inr (Pong [])]" sample_ws]
    by auto
qed

subsection \<open>connect\<close>

fun ws_connects ::
  "('c, 'k, 'n) ws_sdk \<Rightarrow> nat option list \<Rightarrow> ('c, 'k, 'h) connection \<Rightarrow> 'n \<Rightarrow>
     call_result task list \<times> ('c, 'k, 'h) connection \<times> 'n" where
  "ws_connects sdk [] conn n = ([], conn, n)"
| "ws_connects sdk (fire # fires) conn n =
     (let (r, conn1, n1) = ws_connect_task sdk fire conn n;
          (rs, conn2, n2) = ws_connects sdk fires conn1 n1
      in (r # rs, conn2, n2))"

definition succeeded :: "call_result task \<Rightarrow> bool" where
  "succeeded r \<longleftrightarrow> (\<exists>out. r = Finished (Inr out))"

lemma rejected_error_bounded:
  "\<exists>body truncated. handshake_body (ws_http sdk) resp (wc_max_handshake_body_bytes cfg) = Some (body, truncated) \<and>
     length body \<le> wc_max_handshake_body_bytes cfg \<and>
     rejected_error sdk cfg resp = Some
       (case hs_to_value sdk \<lparr>hk_status = hs_status resp, hk_headers = encode_headers (ws_codec sdk) (hs_headers resp),
             hk_body = b64_encode (ws_codec sdk) body, hk_body_truncated = truncated\<rparr> of
          Inl e \<Rightarrow> bridge_error_new ''internal'' e
        | Inr v \<Rightarrow> with_details (bridge_error_new ''handshake''
            (''WebSocket upgrade rejected with HTTP '' @ show_nat (hs_status resp))) v)"
  using handshake_body_bounded [of "ws_http sdk" resp "wc_max_handshake_body_bytes cfg"]
  by (auto simp: rejected_error_def Let_def)

lemma dial_answer_sound:
  "fst (dial_answer sdk cfg answer) \<noteq> TaskPanicked"
  "succeeded (fst (dial_answer sdk cfg answer)) \<longleftrightarrow> snd (dial_answer sdk cfg answer) \<noteq> None"
proof -
  have some: "rejected_error sdk cfg resp \<noteq> None" for resp
    using rejected_error_bounded [of sdk resp cfg] by auto
  show "fst (dial_answer sdk cfg answer) \<noteq> TaskPanicked"
    by (auto simp: dial_answer_def Let_def some [simplified] split: sum.split ws_error_class.split option.split
        dest: some [THEN notE])
  show "succeeded (fst (dial_answer sdk cfg answer)) \<longleftrightarrow> snd (dial_answer sdk cfg answer) \<noteq> None"
    by (auto simp: dial_answer_def succeeded_def Let_def split: sum.splits ws_error_class.splits option.splits)
qed

text \<open>One connect: without a pending request nothing happens; with one, either nothing has happened
  yet or the request is gone and there was one dial.\<close>

lemma ws_connect_task_cases:
  assumes "ws_connect_task sdk fire conn n = (r, conn', n')"
  obtains (unchanged) "conn' = conn" "n' = n" "r \<noteq> TaskPanicked" "\<not> succeeded r"
    | (dialled) req where "co_pending conn = Some req" "co_pending conn' = None"
        "n' = snd (dial sdk (wl_connector (co_owner conn)) req
                     (connect_limits sdk (wl_config (co_owner conn))) (connect_route (wl_config (co_owner conn))) n)"
        "r \<noteq> TaskPanicked" "\<not> succeeded r \<Longrightarrow> co_reader conn' = co_reader conn"
proof (cases "fire = Some 0 \<or> co_pending conn = None")
  case True
  show ?thesis
    by (rule unchanged) (use assms True in \<open>auto simp: ws_connect_task_def succeeded_def split: option.splits if_splits\<close>)
next
  case False
  then obtain req where req: "co_pending conn = Some req" by auto
  let ?cfg = "wl_config (co_owner conn)"
  obtain answer m where d: "dial sdk (wl_connector (co_owner conn)) req (connect_limits sdk ?cfg) (connect_route ?cfg) n
      = (answer, m)"
    by (cases "dial sdk (wl_connector (co_owner conn)) req (connect_limits sdk ?cfg) (connect_route ?cfg) n")
  note A = assms [unfolded ws_connect_task_def] False req d dial_answer_sound [of sdk ?cfg answer]
  show ?thesis
    by (rule dialled [OF req])
       (use A in \<open>auto simp: succeeded_def Let_def split: if_splits prod.splits option.splits\<close>)
qed

text \<open>
  C26. A connection dials at most once, however often and from wherever \<open>connect\<close> is called and
  wherever those calls are cancelled: on a network that counts its dials the count goes up by at
  most one, at most one connect succeeds, none panics, and without a success the connection has no
  reader, so its reads stay refused.
\<close>

theorem ws_connect_once:
  assumes "\<And>con req lim route n. snd (dial sdk con req lim route n) = Suc n"
    and "ws_connects sdk fires conn n = (rs, conn', n')"
  shows "n' \<le> Suc n \<and> length (filter succeeded rs) \<le> n' - n \<and> TaskPanicked \<notin> set rs \<and>
         (co_pending conn \<noteq> None \<or> n' = n) \<and>
         (list_ex succeeded rs \<or> co_reader conn' = co_reader conn)"
  using assms(2)
proof (induction fires arbitrary: conn n rs conn' n')
  case (Cons fire fires)
  obtain r conn1 n1 where s: "ws_connect_task sdk fire conn n = (r, conn1, n1)"
    by (cases "ws_connect_task sdk fire conn n")
  obtain rs' where rest: "ws_connects sdk fires conn1 n1 = (rs', conn', n')" and rs: "rs = r # rs'"
    using Cons.prems s by (auto split: prod.splits)
  note IH = Cons.IH [OF rest]
  from s show ?case
  proof (cases rule: ws_connect_task_cases)
    case unchanged
    with IH rs show ?thesis by auto
  next
    case (dialled req)
    then have "n1 = Suc n" "n' = n1" using assms(1) IH by auto
    with IH rs dialled show ?thesis by auto
  qed
qed simp

theorem ws_connect_once_witness:
  "fst (ws_connects sample_ws [None, None] sample_conn 0) =
     [Finished (Inr (output_data (ascii ''101''))), Finished (Inl (invalid ''connection already started''))] \<and>
   snd (snd (ws_connects sample_ws [None, None] sample_conn 0)) \<le> Suc 0"
proof
  have count: "snd (dial sample_ws con req lim route n) = Suc n" for con req lim route n
    by (simp add: sample_ws_def)
  show "snd (snd (ws_connects sample_ws [None, None] sample_conn 0)) \<le> Suc 0"
    using ws_connect_once [OF count, of "[None, None]" sample_conn 0]
    by (cases "ws_connects sample_ws [None, None] sample_conn 0") auto
  have digits: "show_nat 101 = ''101''" by code_simp
  show "fst (ws_connects sample_ws [None, None] sample_conn 0) =
     [Finished (Inr (output_data (ascii ''101''))), Finished (Inl (invalid ''connection already started''))]"
    by (simp add: ws_connect_task_def sample_conn_def sample_ws_client_def sample_ws_config_def sample_ws_def
        dial_late_def dial_answer_def encode_headers_def digits Let_def)
qed

text \<open>
  A server that answers the upgrade with a plain HTTP response: the call does not panic, its
  error is \<open>handshake\<close> with the status in its message and, as details, the status, the headers and
  at most the configured limit of the response's body; no socket is kept and the request is used
  up.
\<close>

theorem ws_connect_rejected:
  assumes "co_pending conn = Some req"
    and "dial sdk (wl_connector (co_owner conn)) req (connect_limits sdk (wl_config (co_owner conn)))
           (connect_route (wl_config (co_owner conn))) n = (Inl e, n')"
    and "we_class e = WsHttp resp" "\<not> dial_late sdk (wl_config (co_owner conn)) n n'"
  shows "\<exists>body truncated err.
      ws_connect_task sdk None conn n = (Finished (Inl err), conn\<lparr>co_pending := None\<rparr>, n') \<and>
      handshake_body (ws_http sdk) resp (wc_max_handshake_body_bytes (wl_config (co_owner conn)))
        = Some (body, truncated) \<and>
      length body \<le> wc_max_handshake_body_bytes (wl_config (co_owner conn)) \<and>
      (case hs_to_value sdk \<lparr>hk_status = hs_status resp, hk_headers = encode_headers (ws_codec sdk) (hs_headers resp),
             hk_body = b64_encode (ws_codec sdk) body, hk_body_truncated = truncated\<rparr> of
         Inr v \<Rightarrow> err_kind err = ''handshake'' \<and> err_details err = Some v \<and>
           err_message err = ''WebSocket upgrade rejected with HTTP '' @ show_nat (hs_status resp)
       | Inl x \<Rightarrow> err_kind err = ''internal'')"
proof -
  let ?cfg = "wl_config (co_owner conn)"
  from rejected_error_bounded [of sdk resp ?cfg] obtain body truncated err where b:
    "handshake_body (ws_http sdk) resp (wc_max_handshake_body_bytes ?cfg) = Some (body, truncated)"
    "length body \<le> wc_max_handshake_body_bytes ?cfg" "rejected_error sdk ?cfg resp = Some err"
    "err = (case hs_to_value sdk \<lparr>hk_status = hs_status resp, hk_headers = encode_headers (ws_codec sdk) (hs_headers resp),
             hk_body = b64_encode (ws_codec sdk) body, hk_body_truncated = truncated\<rparr> of
          Inl e \<Rightarrow> bridge_error_new ''internal'' e
        | Inr v \<Rightarrow> with_details (bridge_error_new ''handshake''
            (''WebSocket upgrade rejected with HTTP '' @ show_nat (hs_status resp))) v)"
    by blast
  have "ws_connect_task sdk None conn n = (Finished (Inl err), conn\<lparr>co_pending := None\<rparr>, n')"
    using assms b(3) by (simp add: ws_connect_task_def dial_answer_def Let_def)
  with b show ?thesis by (auto split: sum.split)
qed

theorem ws_connect_rejected_witness:
  "\<exists>err. fst (ws_connect_task sample_ws None sample_conn 1) = Finished (Inl err) \<and>
     err_kind err = ''handshake'' \<and> err_message err = ''WebSocket upgrade rejected with HTTP 403''"
proof -
  have p: "co_pending sample_conn = Some \<lparr>up_url = sample_ws_target, up_headers = []\<rparr>"
    by (simp add: sample_conn_def)
  have d: "dial sample_ws (wl_connector (co_owner sample_conn)) \<lparr>up_url = sample_ws_target, up_headers = []\<rparr>
      (connect_limits sample_ws (wl_config (co_owner sample_conn)))
      (connect_route (wl_config (co_owner sample_conn))) 1 =
      (Inl \<lparr>we_class = WsHttp (sample_rejection sample_wire), we_display = ''http''\<rparr>, 2)"
    by (simp add: sample_ws_def)
  have late: "\<not> dial_late sample_ws (wl_config (co_owner sample_conn)) 1 2"
    by (simp add: dial_late_def sample_ws_def sample_conn_def sample_ws_client_def sample_ws_config_def)
  have nat: "show_nat (hs_status (sample_rejection sample_wire)) = ''403''"
    by (simp add: sample_rejection_def, code_simp)
  from ws_connect_rejected [OF p d ws_error.select_convs(1) late] nat
  show ?thesis by (auto simp: sample_ws_def)
qed

end
