(* ===== verification/Ws_Writers.thy ===== *)
theory Ws_Writers
  imports Ws_Messages
begin

text \<open>
  Concurrent writers of one connection (\<open>write\<close> and the acknowledgements of \<open>read\<close> in
  \<open>rust/src/websocket_client.rs\<close>): the message lock \<open>data_write\<close>, the \<open>control_gate\<close>, the lock of
  the sink, and the frames that reach the wire. A thread moves from await to await; the sink takes
  a frame in one step. The gate is Tokio's \<open>RwLock\<close>, which serves its waiters in the order in which
  they came, readers and writers alike; of the two mutexes only the exclusion is used.
\<close>

subsection \<open>Threads and locks\<close>

text \<open>
  Where a writer is. A data message waits for \<open>data_write\<close>; for each fragment, whose offset it keeps,
  it asks for the gate (as a reader), waits for it and for the sink, and yields after sending. A
  control message waits for the gate (as its writer) and the sink. An acknowledgement is a control
  message of Tungstenite's choice.
\<close>

datatype 'c writer_pc =
    AwaitMessage u8 bytes
  | NextFragment u8 bytes nat
  | AwaitRead u8 bytes nat
  | AwaitDataSink u8 bytes nat
  | SendFragment u8 bytes nat
  | AwaitWrite "'c message"
  | AwaitControlSink "'c message"
  | SendControl "'c message"
  | WriteOver

text \<open>\<open>wi_gate\<close> is the queue of the gate's waiters, \<open>wi_readers\<close> and \<open>wi_control\<close> its holders.
  \<open>wi_sent\<close> records the data messages whose last fragment went out, in that order; \<open>wi_broken\<close>
  that a writer gave up inside a message.\<close>

record 'c wire_state =
  wi_pc :: "nat \<Rightarrow> 'c writer_pc"
  wi_message :: "nat option"
  wi_gate :: "nat list"
  wi_readers :: "nat set"
  wi_control :: "nat option"
  wi_sink :: "nat option"
  wi_wire :: "'c message list"
  wi_sent :: "(u8 \<times> bytes) list"
  wi_broken :: bool

definition wire_init :: "'c wire_state" where
  "wire_init =
     \<lparr>wi_pc = (\<lambda>_. WriteOver), wi_message = None, wi_gate = [], wi_readers = {}, wi_control = None,
      wi_sink = None, wi_wire = [], wi_sent = [], wi_broken = False\<rparr>"

definition control_message :: "'c message \<Rightarrow> bool" where
  "control_message m \<longleftrightarrow> (case m of Ping _ \<Rightarrow> True | Pong _ \<Rightarrow> True | Close _ \<Rightarrow> True | _ \<Rightarrow> False)"

definition message_held :: "'c writer_pc \<Rightarrow> (u8 \<times> bytes \<times> nat) option" where
  "message_held pc =
     (case pc of NextFragment k d i \<Rightarrow> Some (k, d, i) | AwaitRead k d i \<Rightarrow> Some (k, d, i) | AwaitDataSink k d i \<Rightarrow> Some (k, d, i)
      | SendFragment k d i \<Rightarrow> Some (k, d, i) | _ \<Rightarrow> None)"

definition gate_wait :: "'c writer_pc \<Rightarrow> bool" where
  "gate_wait pc \<longleftrightarrow> (case pc of AwaitRead _ _ _ \<Rightarrow> True | AwaitWrite _ \<Rightarrow> True | _ \<Rightarrow> False)"

definition gate_read :: "'c writer_pc \<Rightarrow> bool" where
  "gate_read pc \<longleftrightarrow> (case pc of AwaitDataSink _ _ _ \<Rightarrow> True | SendFragment _ _ _ \<Rightarrow> True | _ \<Rightarrow> False)"

definition gate_write :: "'c writer_pc \<Rightarrow> bool" where
  "gate_write pc \<longleftrightarrow> (case pc of AwaitControlSink _ \<Rightarrow> True | SendControl _ \<Rightarrow> True | _ \<Rightarrow> False)"

definition sink_held :: "'c writer_pc \<Rightarrow> bool" where
  "sink_held pc \<longleftrightarrow> (case pc of SendFragment _ _ _ \<Rightarrow> True | SendControl _ \<Rightarrow> True | _ \<Rightarrow> False)"

text \<open>What a thread at this point may have put on the wire when its send fails or is dropped.\<close>

definition in_flight :: "nat \<Rightarrow> 'c writer_pc \<Rightarrow> 'c message list set" where
  "in_flight n pc =
     (case pc of SendFragment k d i \<Rightarrow> {[], [RawFrame (fst (fragment n k d i))]}
      | SendControl m \<Rightarrow> {[], [m]} | _ \<Rightarrow> {[]})"

definition release :: "nat \<Rightarrow> nat option \<Rightarrow> nat option" where
  "release t l = (if l = Some t then None else l)"

text \<open>The steps of thread \<open>t\<close>, with frames of \<open>n\<close> bytes. The gate is given to the first of its
  queue only. Dropping a task or failing a send releases its guards and leaves the queue.\<close>

datatype wire_act = Begin | Go | GiveUp

inductive wire_step :: "nat \<Rightarrow> nat \<Rightarrow> wire_act \<Rightarrow> 'c wire_state \<Rightarrow> 'c wire_state \<Rightarrow> bool" for n t where
  start_data: "wi_pc s t = WriteOver \<Longrightarrow> kind \<in> {1, 2} \<Longrightarrow>
     wire_step n t Begin s (s\<lparr>wi_pc := (wi_pc s)(t := AwaitMessage kind data)\<rparr>)"
| start_control: "wi_pc s t = WriteOver \<Longrightarrow> control_message m \<Longrightarrow>
     wire_step n t Begin s (s\<lparr>wi_pc := (wi_pc s)(t := AwaitWrite m), wi_gate := wi_gate s @ [t]\<rparr>)"
| lock_message: "wi_pc s t = AwaitMessage kind data \<Longrightarrow> wi_message s = None \<Longrightarrow>
     wire_step n t Go s (s\<lparr>wi_pc := (wi_pc s)(t := NextFragment kind data 0), wi_message := Some t\<rparr>)"
| ask_read: "wi_pc s t = NextFragment kind data i \<Longrightarrow>
     wire_step n t Go s (s\<lparr>wi_pc := (wi_pc s)(t := AwaitRead kind data i), wi_gate := wi_gate s @ [t]\<rparr>)"
| lock_read: "wi_pc s t = AwaitRead kind data i \<Longrightarrow> wi_gate s = t # waiting \<Longrightarrow> wi_control s = None \<Longrightarrow>
     wire_step n t Go s (s\<lparr>wi_pc := (wi_pc s)(t := AwaitDataSink kind data i), wi_gate := waiting,
                        wi_readers := insert t (wi_readers s)\<rparr>)"
| lock_data_sink: "wi_pc s t = AwaitDataSink kind data i \<Longrightarrow> wi_sink s = None \<Longrightarrow>
     wire_step n t Go s (s\<lparr>wi_pc := (wi_pc s)(t := SendFragment kind data i), wi_sink := Some t\<rparr>)"
| send_more: "wi_pc s t = SendFragment kind data i \<Longrightarrow> fragment n kind data i = (fr, fin) \<Longrightarrow>
     fin \<noteq> length data \<Longrightarrow>
     wire_step n t Go s (s\<lparr>wi_pc := (wi_pc s)(t := NextFragment kind data fin), wi_sink := None,
                        wi_readers := wi_readers s - {t}, wi_wire := wi_wire s @ [RawFrame fr]\<rparr>)"
| send_last: "wi_pc s t = SendFragment kind data i \<Longrightarrow> fragment n kind data i = (fr, length data) \<Longrightarrow>
     wire_step n t Go s (s\<lparr>wi_pc := (wi_pc s)(t := WriteOver), wi_sink := None,
                        wi_readers := wi_readers s - {t}, wi_message := None,
                        wi_wire := wi_wire s @ [RawFrame fr], wi_sent := wi_sent s @ [(kind, data)]\<rparr>)"
| lock_write: "wi_pc s t = AwaitWrite m \<Longrightarrow> wi_gate s = t # waiting \<Longrightarrow> wi_control s = None \<Longrightarrow>
     wi_readers s = {} \<Longrightarrow>
     wire_step n t Go s (s\<lparr>wi_pc := (wi_pc s)(t := AwaitControlSink m), wi_gate := waiting, wi_control := Some t\<rparr>)"
| lock_control_sink: "wi_pc s t = AwaitControlSink m \<Longrightarrow> wi_sink s = None \<Longrightarrow>
     wire_step n t Go s (s\<lparr>wi_pc := (wi_pc s)(t := SendControl m), wi_sink := Some t\<rparr>)"
| send_control: "wi_pc s t = SendControl m \<Longrightarrow>
     wire_step n t Go s (s\<lparr>wi_pc := (wi_pc s)(t := WriteOver), wi_sink := None, wi_control := None,
                        wi_wire := wi_wire s @ [m]\<rparr>)"
| give_up: "wi_pc s t \<noteq> WriteOver \<Longrightarrow> ms \<in> in_flight n (wi_pc s t) \<Longrightarrow>
     broken = (case message_held (wi_pc s t) of None \<Rightarrow> False | Some (k, d, i) \<Rightarrow> 0 < i \<or> ms \<noteq> []) \<Longrightarrow>
     wire_step n t GiveUp s (s\<lparr>wi_pc := (wi_pc s)(t := WriteOver), wi_message := release t (wi_message s),
                        wi_sink := release t (wi_sink s), wi_control := release t (wi_control s),
                        wi_readers := wi_readers s - {t}, wi_gate := removeAll t (wi_gate s),
                        wi_wire := wi_wire s @ ms, wi_broken := (broken \<or> wi_broken s)\<rparr>)"

inductive wires :: "nat \<Rightarrow> 'c wire_state \<Rightarrow> bool" for n where
  wires_init: "wires n wire_init"
| wires_step: "wires n s \<Longrightarrow> wire_step n t act s s' \<Longrightarrow> wires n s'"

subsection \<open>The invariant\<close>

text \<open>A lock is held by the threads past its acquisition, and the gate has readers or a writer.\<close>

definition locks_ok :: "'c wire_state \<Rightarrow> bool" where
  "locks_ok s \<longleftrightarrow>
     (\<forall>t. (wi_message s = Some t \<longleftrightarrow> message_held (wi_pc s t) \<noteq> None) \<and>
          (t \<in> wi_readers s \<longleftrightarrow> gate_read (wi_pc s t)) \<and>
          (wi_control s = Some t \<longleftrightarrow> gate_write (wi_pc s t)) \<and>
          (wi_sink s = Some t \<longleftrightarrow> sink_held (wi_pc s t))) \<and>
     (wi_control s = None \<or> wi_readers s = {})"

definition pc_ok :: "'c writer_pc \<Rightarrow> bool" where
  "pc_ok pc \<longleftrightarrow>
     (case pc of AwaitMessage k d \<Rightarrow> k \<in> {1, 2}
      | NextFragment k d i \<Rightarrow> k \<in> {1, 2} \<and> (i = 0 \<or> i < length d)
      | AwaitRead k d i \<Rightarrow> k \<in> {1, 2} \<and> (i = 0 \<or> i < length d)
      | AwaitDataSink k d i \<Rightarrow> k \<in> {1, 2} \<and> (i = 0 \<or> i < length d)
      | SendFragment k d i \<Rightarrow> k \<in> {1, 2} \<and> (i = 0 \<or> i < length d)
      | AwaitWrite m \<Rightarrow> control_message m
      | AwaitControlSink m \<Rightarrow> control_message m
      | SendControl m \<Rightarrow> control_message m
      | WriteOver \<Rightarrow> True)"

fun data_frames :: "'c message list \<Rightarrow> frame list" where
  "data_frames [] = []"
| "data_frames (RawFrame fr # ms) = fr # data_frames ms"
| "data_frames (_ # ms) = data_frames ms"

text \<open>What the receiver has of the message being sent.\<close>

definition rx_of :: "'c writer_pc \<Rightarrow> (u8 \<times> bytes) option" where
  "rx_of pc = (case message_held pc of None \<Rightarrow> None | Some (k, d, i) \<Rightarrow> rx_partial k d i)"

definition wire_open :: "'c wire_state \<Rightarrow> (u8 \<times> bytes) option" where
  "wire_open s = (case wi_message s of None \<Rightarrow> None | Some t \<Rightarrow> rx_of (wi_pc s t))"

definition wire_ok :: "'c wire_state \<Rightarrow> bool" where
  "wire_ok s \<longleftrightarrow>
     wi_broken s \<or> rx ([], None) (data_frames (wi_wire s)) = Some (wi_sent s, wire_open s)"

lemma data_frames_append: "data_frames (xs @ ys) = data_frames xs @ data_frames ys"
  by (induction xs rule: data_frames.induct) simp_all

lemma data_frames_control: "control_message m \<Longrightarrow> data_frames [m] = []"
  by (cases m) (simp_all add: control_message_def)

lemmas pc_defs = message_held_def gate_read_def gate_write_def sink_held_def pc_ok_def

lemma wire_step_pc_ok: "wire_step n t act s s' \<Longrightarrow> 0 < n \<Longrightarrow> pc_ok (wi_pc s t) \<Longrightarrow> pc_ok (wi_pc s' t)"
  by (induction rule: wire_step.induct) (auto simp: pc_ok_def dest: fragment_next)

lemma wire_step_other: "wire_step n t act s s' \<Longrightarrow> u \<noteq> t \<Longrightarrow> wi_pc s' u = wi_pc s u"
  by (induction rule: wire_step.induct) simp_all

lemma locks_okD:
  assumes "locks_ok s"
  shows "wi_message s = Some u \<longleftrightarrow> message_held (wi_pc s u) \<noteq> None"
    "u \<in> wi_readers s \<longleftrightarrow> gate_read (wi_pc s u)"
    "wi_control s = Some u \<longleftrightarrow> gate_write (wi_pc s u)"
    "wi_sink s = Some u \<longleftrightarrow> sink_held (wi_pc s u)"
    "wi_control s = None \<or> wi_readers s = {}"
  using assms by (simp_all add: locks_ok_def)

text \<open>A step of one thread changes what the locks say about that thread only.\<close>

lemma wire_step_locks:
  assumes "wire_step n t act s s'" "locks_ok s"
  shows "wi_message s' = Some u \<longleftrightarrow> (if u = t then message_held (wi_pc s' t) \<noteq> None else wi_message s = Some u)"
    "u \<in> wi_readers s' \<longleftrightarrow> (if u = t then gate_read (wi_pc s' t) else u \<in> wi_readers s)"
    "wi_control s' = Some u \<longleftrightarrow> (if u = t then gate_write (wi_pc s' t) else wi_control s = Some u)"
    "wi_sink s' = Some u \<longleftrightarrow> (if u = t then sink_held (wi_pc s' t) else wi_sink s = Some u)"
    "wi_control s' = None \<or> wi_readers s' = {}"
proof -
  note L = locks_okD [OF assms(2)]
  show "wi_message s' = Some u \<longleftrightarrow> (if u = t then message_held (wi_pc s' t) \<noteq> None else wi_message s = Some u)"
    using assms(1) L(1) [of t] L(1) [of u]
    by (induction rule: wire_step.induct) (auto simp: message_held_def release_def)
  show "u \<in> wi_readers s' \<longleftrightarrow> (if u = t then gate_read (wi_pc s' t) else u \<in> wi_readers s)"
    using assms(1) L(2) [of t]
    by (induction rule: wire_step.induct) (auto simp: gate_read_def)
  show "wi_control s' = Some u \<longleftrightarrow> (if u = t then gate_write (wi_pc s' t) else wi_control s = Some u)"
    using assms(1) L(3) [of t] L(3) [of u]
    by (induction rule: wire_step.induct) (auto simp: gate_write_def release_def)
  show "wi_sink s' = Some u \<longleftrightarrow> (if u = t then sink_held (wi_pc s' t) else wi_sink s = Some u)"
    using assms(1) L(4) [of t] L(4) [of u]
    by (induction rule: wire_step.induct) (auto simp: sink_held_def release_def)
  show "wi_control s' = None \<or> wi_readers s' = {}"
    using assms(1) L(2) [of t] L(3) [of t] L(5)
    by (induction rule: wire_step.induct) (auto simp: gate_write_def gate_read_def release_def)
qed

lemma wire_step_locks_ok:
  assumes "wire_step n t act s s'" "locks_ok s"
  shows "locks_ok s'"
  unfolding locks_ok_def wire_step_locks [OF assms]
  using locks_okD [OF assms(2)] wire_step_other [OF assms(1)] wire_step_locks(5) [OF assms] by auto

lemma wires_locks_ok: "wires n s \<Longrightarrow> locks_ok s"
  by (induction rule: wires.induct)
     (simp add: locks_ok_def wire_init_def pc_defs, rule wire_step_locks_ok)

lemma wires_pc_ok: "wires n s \<Longrightarrow> 0 < n \<Longrightarrow> pc_ok (wi_pc s u)"
proof (induction arbitrary: u rule: wires.induct)
  case (wires_step s t act s')
  then show ?case
    using wire_step_pc_ok [OF wires_step(2)] wire_step_other [OF wires_step(2), of u] by (cases "u = t") auto
qed (simp add: wire_init_def pc_ok_def)

text \<open>The queue of the gate holds exactly the threads that wait for it, once each.\<close>

definition gate_ok :: "'c wire_state \<Rightarrow> bool" where
  "gate_ok s \<longleftrightarrow> distinct (wi_gate s) \<and> (\<forall>t. t \<in> set (wi_gate s) \<longleftrightarrow> gate_wait (wi_pc s t))"

lemma gate_okD:
  assumes "gate_ok s"
  shows "distinct (wi_gate s)" "u \<in> set (wi_gate s) \<longleftrightarrow> gate_wait (wi_pc s u)"
  using assms by (simp_all add: gate_ok_def)

lemma wire_step_gate_ok: "wire_step n t act s s' \<Longrightarrow> gate_ok s \<Longrightarrow> gate_ok s'"
  by (induction rule: wire_step.induct) (auto simp: gate_ok_def gate_wait_def distinct_removeAll)

lemma wires_gate_ok: "wires n s \<Longrightarrow> gate_ok s"
  by (induction rule: wires.induct)
     (simp add: gate_ok_def gate_wait_def wire_init_def, rule wire_step_gate_ok)

text \<open>What a step does to the open message, and to the wire.\<close>

lemma rx_of_send:
  assumes "fragment n kind data i = (fr, fin)" "pc_ok (SendFragment kind data i)" "0 < n"
  shows "rx_step (sent, rx_of (SendFragment kind data i)) fr =
     Some (if fin = length data then (sent @ [(kind, data)], None) else (sent, rx_of (NextFragment kind data fin)))"
  using rx_fragment [OF assms(1) _ _ assms(3)] assms(2)
  by (auto simp: pc_ok_def rx_of_def message_held_def)

lemma wire_open_at: "wi_message s = Some t \<Longrightarrow> wire_open s = rx_of (wi_pc s t)"
  by (simp add: wire_open_def)

lemma wire_ok_wire: "wire_ok s \<Longrightarrow> \<not> wi_broken s \<Longrightarrow>
    rx ([], None) (data_frames (wi_wire s)) = Some (wi_sent s, wire_open s)"
  by (simp add: wire_ok_def)

lemma wire_open_same:
  assumes "wi_message s' = wi_message s" "\<And>u. u \<noteq> t \<Longrightarrow> wi_pc s' u = wi_pc s u"
    and "rx_of (wi_pc s' t) = rx_of (wi_pc s t)"
  shows "wire_open s' = wire_open s"
  unfolding wire_open_def using assms by (cases "wi_message s") (auto, metis)

lemma wire_ok_more:
  assumes "wire_ok s" "wi_broken s' = wi_broken s" "wi_sent s' = wi_sent s"
    and "data_frames (wi_wire s') = data_frames (wi_wire s)" "wire_open s' = wire_open s"
  shows "wire_ok s'"
  using assms by (simp add: wire_ok_def)

lemma wire_step_ok:
  assumes "wire_step n t act s s'" "0 < n" "locks_ok s" "pc_ok (wi_pc s t)" "wire_ok s"
  shows "wire_ok s'"
  using assms(1)
proof (cases rule: wire_step.cases)
  case (lock_message kind data)
  then have "wire_open s' = wire_open s"
    by (simp add: wire_open_def rx_of_def message_held_def rx_partial_def)
  with lock_message show ?thesis by (intro wire_ok_more [OF assms(5)]) simp_all
next
  case (send_more kind data i fr fin)
  have held: "wi_message s = Some t"
    using locks_okD(1) [OF assms(3), of t] send_more(3) by (simp add: message_held_def)
  from rx_of_send [OF send_more(4), of "wi_sent s"] send_more(3,5) assms(2,4)
  have "rx_step (wi_sent s, wire_open s) fr = Some (wi_sent s, rx_of (NextFragment kind data fin))"
    by (simp add: wire_open_at [OF held])
  with send_more(2) held assms(5) show ?thesis
    by (auto simp: wire_ok_def data_frames_append rx_append wire_open_at)
next
  case (send_last kind data i fr)
  have held: "wi_message s = Some t"
    using locks_okD(1) [OF assms(3), of t] send_last(3) by (simp add: message_held_def)
  from rx_of_send [OF send_last(4), of "wi_sent s"] send_last(3) assms(2,4)
  have "rx_step (wi_sent s, wire_open s) fr = Some (wi_sent s @ [(kind, data)], None)"
    by (simp add: wire_open_at [OF held])
  with send_last(2) assms(5) show ?thesis
    by (auto simp: wire_ok_def data_frames_append rx_append wire_open_def)
next
  case (send_control m)
  have "data_frames [m] = []"
    using send_control(3) assms(4) by (simp add: pc_ok_def data_frames_control)
  moreover have "wire_open s' = wire_open s"
    by (rule wire_open_same [where t = t]) (simp_all add: send_control rx_of_def message_held_def)
  ultimately show ?thesis
    using send_control(2) by (intro wire_ok_more [OF assms(5)]) (simp_all add: data_frames_append)
next
  case (give_up ms broken)
  show ?thesis
  proof (cases "wi_broken s \<or> broken")
    case True
    with give_up(2) show ?thesis by (auto simp: wire_ok_def)
  next
    case False
    have "data_frames ms = []"
    proof (cases "wi_pc s t")
      case (SendFragment k d i)
      with False give_up(5) show ?thesis by (simp add: message_held_def)
    next
      case (SendControl m)
      with give_up(4) assms(4) show ?thesis by (auto simp: in_flight_def pc_ok_def data_frames_control)
    qed (use give_up(4) in \<open>simp_all add: in_flight_def\<close>)
    moreover have "wire_open s' = wire_open s"
    proof (cases "wi_message s = Some t")
      case True
      then obtain k d where "message_held (wi_pc s t) = Some (k, d, 0)"
        using locks_okD(1) [OF assms(3), of t] False give_up(5) by (auto split: option.splits)
      with True give_up(2) show ?thesis
        by (simp add: wire_open_def release_def rx_of_def rx_partial_def)
    next
      case other: False
      then have "message_held (wi_pc s t) = None"
        using locks_okD(1) [OF assms(3), of t] by blast
      with other show ?thesis
        by (intro wire_open_same [where t = t]) (simp_all add: give_up(2) release_def rx_of_def message_held_def)
    qed
    ultimately show ?thesis
      using False give_up(2) by (intro wire_ok_more [OF assms(5)]) (simp_all add: data_frames_append)
  qed
qed (intro wire_ok_more [OF assms(5)] wire_open_same [where t = t];
     simp add: rx_of_def message_held_def)+

lemma wires_ok: "wires n s \<Longrightarrow> 0 < n \<Longrightarrow> wire_ok s"
proof (induction rule: wires.induct)
  case wires_init
  then show ?case by (simp add: wire_ok_def wire_init_def wire_open_def)
next
  case (wires_step s t act s')
  then show ?case
    using wire_step_ok [OF wires_step(2,4) wires_locks_ok [OF wires_step(1)] wires_pc_ok [OF wires_step(1,4)]]
    by blast
qed

subsection \<open>Progress\<close>

text \<open>The next step of a thread, where its locks are free.\<close>

definition wire_go :: "nat \<Rightarrow> nat \<Rightarrow> 'c wire_state \<Rightarrow> 'c wire_state option" where
  "wire_go n t s =
     (case wi_pc s t of
        AwaitMessage kind data \<Rightarrow>
          (if wi_message s = None
           then Some (s\<lparr>wi_pc := (wi_pc s)(t := NextFragment kind data 0), wi_message := Some t\<rparr>) else None)
      | NextFragment kind data i \<Rightarrow>
          Some (s\<lparr>wi_pc := (wi_pc s)(t := AwaitRead kind data i), wi_gate := wi_gate s @ [t]\<rparr>)
      | AwaitRead kind data i \<Rightarrow>
          (case wi_gate s of
             u # waiting \<Rightarrow>
               if u = t \<and> wi_control s = None
               then Some (s\<lparr>wi_pc := (wi_pc s)(t := AwaitDataSink kind data i), wi_gate := waiting,
                            wi_readers := insert t (wi_readers s)\<rparr>) else None
           | [] \<Rightarrow> None)
      | AwaitDataSink kind data i \<Rightarrow>
          (if wi_sink s = None
           then Some (s\<lparr>wi_pc := (wi_pc s)(t := SendFragment kind data i), wi_sink := Some t\<rparr>) else None)
      | SendFragment kind data i \<Rightarrow>
          (let (fr, fin) = fragment n kind data i
           in Some (if fin = length data
                    then s\<lparr>wi_pc := (wi_pc s)(t := WriteOver), wi_sink := None,
                           wi_readers := wi_readers s - {t}, wi_message := None,
                           wi_wire := wi_wire s @ [RawFrame fr], wi_sent := wi_sent s @ [(kind, data)]\<rparr>
                    else s\<lparr>wi_pc := (wi_pc s)(t := NextFragment kind data fin), wi_sink := None,
                           wi_readers := wi_readers s - {t}, wi_wire := wi_wire s @ [RawFrame fr]\<rparr>))
      | AwaitWrite m \<Rightarrow>
          (case wi_gate s of
             u # waiting \<Rightarrow>
               if u = t \<and> wi_control s = None \<and> wi_readers s = {}
               then Some (s\<lparr>wi_pc := (wi_pc s)(t := AwaitControlSink m), wi_gate := waiting,
                            wi_control := Some t\<rparr>) else None
           | [] \<Rightarrow> None)
      | AwaitControlSink m \<Rightarrow>
          (if wi_sink s = None
           then Some (s\<lparr>wi_pc := (wi_pc s)(t := SendControl m), wi_sink := Some t\<rparr>) else None)
      | SendControl m \<Rightarrow>
          Some (s\<lparr>wi_pc := (wi_pc s)(t := WriteOver), wi_sink := None, wi_control := None,
                  wi_wire := wi_wire s @ [m]\<rparr>)
      | WriteOver \<Rightarrow> None)"

lemma wire_go_step: "wire_go n t s = Some s' \<Longrightarrow> wire_step n t Go s s'"
proof (cases "wi_pc s t")
  case (SendFragment kind data i)
  obtain fr fin where f: "fragment n kind data i = (fr, fin)" by (cases "fragment n kind data i")
  assume "wire_go n t s = Some s'"
  with SendFragment f wire_step.send_more [OF SendFragment f] wire_step.send_last [OF SendFragment, of n fr]
  show ?thesis by (cases "fin = length data") (auto simp: wire_go_def)
qed (auto simp: wire_go_def intro: wire_step.intros split: if_splits list.splits)

lemma wire_step_go: "wire_step n t Go s s' \<Longrightarrow> wire_go n t s = Some s'"
  by (cases rule: wire_step.cases, assumption) (simp_all add: wire_go_def)

fun wire_run :: "nat \<Rightarrow> nat list \<Rightarrow> 'c wire_state \<Rightarrow> 'c wire_state option" where
  "wire_run n [] s = Some s"
| "wire_run n (t # ts) s = Option.bind (wire_go n t s) (wire_run n ts)"

lemma wire_run_wires: "wires n s \<Longrightarrow> wire_run n ts s = Some s' \<Longrightarrow> wires n s'"
proof (induction ts arbitrary: s)
  case (Cons t ts)
  then obtain s1 where "wire_go n t s = Some s1" "wire_run n ts s1 = Some s'"
    by (cases "wire_go n t s") auto
  with Cons wires.wires_step wire_go_step show ?case by blast
qed simp

text \<open>The work a thread has left, in steps.\<close>

definition pc_work :: "nat \<Rightarrow> 'c writer_pc \<Rightarrow> nat" where
  "pc_work n pc =
     (case pc of
        AwaitMessage k d \<Rightarrow> 4 * length (frames_from n k d 0) + 1
      | NextFragment k d i \<Rightarrow> 4 * length (frames_from n k d i)
      | AwaitRead k d i \<Rightarrow> 4 * length (frames_from n k d i) - 1
      | AwaitDataSink k d i \<Rightarrow> 4 * length (frames_from n k d i) - 2
      | SendFragment k d i \<Rightarrow> 4 * length (frames_from n k d i) - 3
      | AwaitWrite m \<Rightarrow> 3
      | AwaitControlSink m \<Rightarrow> 2
      | SendControl m \<Rightarrow> 1
      | WriteOver \<Rightarrow> 0)"

definition writing :: "'c wire_state \<Rightarrow> nat set" where
  "writing s = {t. wi_pc s t \<noteq> WriteOver}"

definition wire_work :: "nat \<Rightarrow> 'c wire_state \<Rightarrow> nat" where
  "wire_work n s = (\<Sum>t \<in> writing s. pc_work n (wi_pc s t))"

lemma frames_from_pos: "0 < length (frames_from n k d i)"
  by (subst frames_from.simps) (auto split: prod.split)

lemma go_pc_work:
  assumes "wire_step n t Go s s'" "0 < n" "pc_ok (wi_pc s t)"
  shows "pc_work n (wi_pc s' t) < pc_work n (wi_pc s t)"
  using assms(1)
proof (cases rule: wire_step.cases)
  case (send_more kind data i fr fin)
  have "i \<le> length data" using assms(3) send_more(2) by (auto simp: pc_ok_def)
  from fragment_next(3) [OF send_more(3) this assms(2) send_more(4)]
  have "frames_from n kind data i = fr # frames_from n kind data fin"
    by (intro frames_from_more send_more(3,4))
  then show ?thesis using send_more by (simp add: pc_work_def)
next
  case (ask_read kind data i)
  with frames_from_pos [of n kind data i] show ?thesis
    by (simp add: pc_work_def del: length_greater_0_conv)
next
  case (lock_read kind data i)
  with frames_from_pos [of n kind data i] show ?thesis
    by (simp add: pc_work_def del: length_greater_0_conv)
next
  case (lock_data_sink kind data i)
  with frames_from_pos [of n kind data i] show ?thesis
    by (simp add: pc_work_def del: length_greater_0_conv)
next
  case (send_last kind data i fr)
  with frames_from_pos [of n kind data i] show ?thesis
    by (simp add: pc_work_def del: length_greater_0_conv)
qed (simp_all add: pc_work_def)

lemma wires_finite: "wires n s \<Longrightarrow> finite (writing s)"
proof (induction rule: wires.induct)
  case (wires_step s t act s')
  have "writing s' \<subseteq> insert t (writing s)"
    using wire_step_other [OF wires_step(2)] by (auto simp: writing_def)
  with wires_step(3) show ?case by (meson finite_insert finite_subset)
qed (simp add: wire_init_def writing_def)

lemma go_work:
  assumes "wire_step n t Go s s'" "0 < n" "pc_ok (wi_pc s t)" "finite (writing s)"
  shows "wire_work n s' < wire_work n s"
proof -
  note less = go_pc_work [OF assms(1-3)]
  have t: "t \<in> writing s" using less by (auto simp: writing_def pc_work_def)
  have sub: "writing s' \<subseteq> writing s"
    using t wire_step_other [OF assms(1)] by (auto simp: writing_def, metis)
  have "wire_work n s' \<le> (\<Sum>u \<in> writing s. pc_work n (wi_pc s' u))"
    unfolding wire_work_def by (rule sum_mono2 [OF assms(4) sub]) simp
  also have "\<dots> < wire_work n s"
    unfolding wire_work_def
  proof (rule sum_strict_mono_ex1 [OF assms(4)])
    show "\<forall>u \<in> writing s. pc_work n (wi_pc s' u) \<le> pc_work n (wi_pc s u)"
      using less wire_step_other [OF assms(1)] by (metis less_imp_le order_refl)
    show "\<exists>u \<in> writing s. pc_work n (wi_pc s' u) < pc_work n (wi_pc s u)"
      using less t by blast
  qed
  finally show ?thesis .
qed

text \<open>Somebody can always move: whoever holds the sink, else the gate, else the first of its queue,
  else the message lock, else anybody.\<close>

lemma someone_moves:
  assumes "locks_ok s" "gate_ok s" "wi_pc s t \<noteq> WriteOver"
  shows "\<exists>u. wire_go n u s \<noteq> None"
proof -
  note L = locks_okD [OF assms(1)] and G = gate_okD [OF assms(2)]
  consider (sink) u where "wi_sink s = Some u"
    | (control) u where "wi_sink s = None" "wi_control s = Some u"
    | (reader) u where "wi_sink s = None" "u \<in> wi_readers s"
    | (waiting) u us where "wi_control s = None" "wi_readers s = {}" "wi_gate s = u # us"
    | (message) u where "wi_sink s = None" "wi_control s = None" "wi_readers s = {}" "wi_gate s = []" "wi_message s = Some u"
    | (free) "wi_sink s = None" "wi_control s = None" "wi_readers s = {}" "wi_gate s = []" "wi_message s = None"
    by (cases "wi_sink s"; cases "wi_control s"; cases "wi_message s"; cases "wi_gate s") blast+
  then show ?thesis
  proof cases
    case (sink u)
    with L(4) [of u] show ?thesis
      by (intro exI [of _ u]) (auto simp: sink_held_def wire_go_def Let_def split: writer_pc.splits prod.splits)
  next
    case (control u)
    with L(3,4) [of u] show ?thesis
      by (intro exI [of _ u]) (auto simp: gate_write_def sink_held_def wire_go_def split: writer_pc.splits)
  next
    case (reader u)
    with L(2,4) [of u] show ?thesis
      by (intro exI [of _ u]) (auto simp: gate_read_def sink_held_def wire_go_def split: writer_pc.splits)
  next
    case (waiting u us)
    with G(2) [of u] show ?thesis
      by (intro exI [of _ u]) (auto simp: gate_wait_def wire_go_def split: writer_pc.splits)
  next
    case (message u)
    with L(1,2) [of u] G(2) [of u] show ?thesis
      by (intro exI [of _ u]) (auto simp: message_held_def gate_read_def gate_wait_def wire_go_def split: writer_pc.splits)
  next
    case free
    with assms(3) L(1,2,3,4) [of t] G(2) [of t] show ?thesis
      by (intro exI [of _ t])
         (auto simp: message_held_def gate_read_def gate_write_def gate_wait_def sink_held_def wire_go_def
           split: writer_pc.splits)
  qed
qed

subsection \<open>The order of the gate\<close>

text \<open>A control message that has asked for the gate and is not on the wire yet.\<close>

definition control_waits :: "'c writer_pc \<Rightarrow> bool" where
  "control_waits pc \<longleftrightarrow>
     (case pc of AwaitWrite _ \<Rightarrow> True | AwaitControlSink _ \<Rightarrow> True | SendControl _ \<Rightarrow> True | _ \<Rightarrow> False)"

text \<open>What happens while it waits: any steps of any threads that do not end its waiting.\<close>

inductive meanwhile :: "nat \<Rightarrow> nat \<Rightarrow> 'c wire_state \<Rightarrow> 'c wire_state \<Rightarrow> bool" for n v s where
  meanwhile_now: "meanwhile n v s s"
| meanwhile_step: "meanwhile n v s s1 \<Longrightarrow> wire_step n t act s1 s2 \<Longrightarrow> control_waits (wi_pc s2 v) \<Longrightarrow>
     meanwhile n v s s2"

text \<open>The fragments that may still go before it: the one whose sender has the gate, or is ahead in the
  queue. There is one at most, as only the holder of the message lock sends fragments.\<close>

definition goes_before :: "'c wire_state \<Rightarrow> nat \<Rightarrow> nat \<Rightarrow> bool" where
  "goes_before s v t \<longleftrightarrow> gate_read (wi_pc s t) \<or>
     message_held (wi_pc s t) \<noteq> None \<and> v \<in> set (wi_gate s) \<and> t \<in> set (takeWhile (\<lambda>u. u \<noteq> v) (wi_gate s))"

definition ahead :: "'c wire_state \<Rightarrow> nat \<Rightarrow> nat" where
  "ahead s v = (if \<exists>t. goes_before s v t then 1 else 0)"

lemma goes_before_holder: "goes_before s v t \<Longrightarrow> locks_ok s \<Longrightarrow> wi_message s = Some t"
  using locks_okD(1) [of s t]
  by (auto simp: goes_before_def gate_read_def message_held_def split: writer_pc.splits)

definition pc_control_ok :: "'c writer_pc \<Rightarrow> bool" where
  "pc_control_ok pc \<longleftrightarrow>
     (case pc of AwaitWrite m \<Rightarrow> control_message m | AwaitControlSink m \<Rightarrow> control_message m
      | SendControl m \<Rightarrow> control_message m | _ \<Rightarrow> True)"

lemma wires_control_ok: "wires n s \<Longrightarrow> pc_control_ok (wi_pc s t)"
proof (induction arbitrary: t rule: wires.induct)
  case (wires_step s u act s')
  from wires_step(2) wires_step(3) [of t] wires_step(3) [of u] show ?case
    by (induction rule: wire_step.induct) (auto simp: pc_control_ok_def)
qed (simp add: wire_init_def pc_control_ok_def)

definition fragments_out :: "'c wire_state \<Rightarrow> nat" where
  "fragments_out s = length (data_frames (wi_wire s))"

lemma ahead_mono:
  assumes "\<And>u. goes_before s' v u \<Longrightarrow> goes_before s v u" "fragments_out s' = fragments_out s"
  shows "fragments_out s' + ahead s' v \<le> fragments_out s + ahead s v"
  using assms by (auto simp: ahead_def)

lemma ahead_gate:
  assumes "locks_ok s" "gate_ok s" "gate_write (wi_pc s v)"
  shows "\<not> goes_before s v t"
proof -
  have "wi_control s = Some v" using locks_okD(3) [OF assms(1)] assms(3) by blast
  then have "wi_readers s = {}" using locks_okD(5) [OF assms(1)] by simp
  moreover have "v \<notin> set (wi_gate s)"
    using gate_okD(2) [OF assms(2), of v] assms(3) by (auto simp: gate_wait_def gate_write_def split: writer_pc.splits)
  ultimately show ?thesis using locks_okD(2) [OF assms(1), of t] by (simp add: goes_before_def)
qed

lemma takeWhile_removeAll: "t \<noteq> v \<Longrightarrow> takeWhile (\<lambda>u. u \<noteq> v) (removeAll t q) = removeAll t (takeWhile (\<lambda>u. u \<noteq> v) q)"
  by (induction q) auto

text \<open>No step puts a fragment before the waiting message.\<close>

lemma goes_before_step:
  assumes "wire_step n t act s s'" "locks_ok s" "gate_ok s" "control_waits (wi_pc s v)" "control_waits (wi_pc s' v)"
    and "goes_before s' v u"
  shows "goes_before s v u"
proof -
  note L = locks_okD(3) [OF assms(2), of v] and G = gate_okD [OF assms(3)]
  have waits: "control_waits (wi_pc s v) \<Longrightarrow> wi_control s = None \<Longrightarrow> v \<in> set (wi_gate s)"
    using L G(2) [of v] by (auto simp: control_waits_def gate_write_def gate_wait_def split: writer_pc.splits)
  show ?thesis
    using assms(1,4-6) waits G(1) G(2) [of t]
    by (cases rule: wire_step.cases)
       (auto simp: goes_before_def control_waits_def message_held_def gate_read_def gate_wait_def takeWhile_removeAll
         takeWhile_append dest: set_takeWhileD split: if_splits)
qed

text \<open>A step that sends a fragment is one of the thread that may go before, and uses that up.\<close>

lemma wire_step_sends:
  assumes "wire_step n t act s s'" "gate_ok s" "pc_control_ok (wi_pc s t)"
  shows "fragments_out s' = fragments_out s \<or>
     fragments_out s' = Suc (fragments_out s) \<and> gate_read (wi_pc s t) \<and> \<not> gate_read (wi_pc s' t) \<and>
     t \<notin> set (wi_gate s')"
  using assms gate_okD(2) [OF assms(2), of t]
  by (cases rule: wire_step.cases)
     (auto simp: fragments_out_def data_frames_append data_frames_control gate_read_def gate_wait_def in_flight_def
       pc_control_ok_def split: writer_pc.splits)

lemma wire_step_ahead:
  assumes "wire_step n t act s s'" "locks_ok s" "gate_ok s" "pc_control_ok (wi_pc s t)"
    and "control_waits (wi_pc s v)" "control_waits (wi_pc s' v)"
  shows "fragments_out s' + ahead s' v \<le> fragments_out s + ahead s v"
proof (cases "fragments_out s' = fragments_out s")
  case True
  with goes_before_step [OF assms(1-3,5,6)] show ?thesis by (rule ahead_mono)
next
  case False
  with wire_step_sends [OF assms(1,3,4)] have sent: "fragments_out s' = Suc (fragments_out s)"
    "gate_read (wi_pc s t)" "\<not> goes_before s' v t"
    by (auto simp: goes_before_def dest: set_takeWhileD)
  then have t: "goes_before s v t" by (simp add: goes_before_def)
  have "\<not> goes_before s' v u" for u
    using goes_before_holder [OF goes_before_step [OF assms(1-3,5,6)] assms(2), of u]
      goes_before_holder [OF t assms(2)] sent(3) by auto
  with t sent(1) show ?thesis by (auto simp: ahead_def)
qed

lemma meanwhile_ahead:
  assumes "wires n s" "control_waits (wi_pc s v)" "meanwhile n v s s'"
  shows "fragments_out s' \<le> fragments_out s + ahead s v"
proof -
  have "wires n s' \<and> control_waits (wi_pc s' v) \<and> fragments_out s' + ahead s' v \<le> fragments_out s + ahead s v"
    using assms(3)
  proof (induction rule: meanwhile.induct)
    case (meanwhile_step s1 t act s2)
    then show ?case
      using wire_step_ahead [OF meanwhile_step.hyps(2) wires_locks_ok wires_gate_ok wires_control_ok _ meanwhile_step.hyps(3)]
        wires_step [OF _ meanwhile_step.hyps(2)] by fastforce
  qed (use assms in simp)
  then show ?thesis by simp
qed

subsection \<open>Properties of concurrent writers\<close>

text \<open>A text of three bytes, with frames of two bytes, about to be sent when a ping comes.\<close>

definition sample_wires :: "u16 wire_state" where
  "sample_wires = wire_init\<lparr>wi_pc := (\<lambda>_. WriteOver)(0 := AwaitRead 1 [1, 2, 3] 0, 1 := AwaitWrite (Ping [7])),
     wi_message := Some 0, wi_gate := [0, 1]\<rparr>"

definition sample_schedule :: "nat list" where
  "sample_schedule = [0, 0, 0, 0, 1, 1, 1, 0, 0, 0]"

lemma sample_wires_reached: "wires 2 sample_wires"
proof -
  let ?s = "wire_init\<lparr>wi_pc := (wi_pc wire_init)(0 := AwaitMessage 1 [1, 2, 3])\<rparr>"
  let ?t = "wire_init\<lparr>wi_pc := (wi_pc wire_init)(0 := AwaitRead 1 [1, 2, 3] 0), wi_message := Some 0, wi_gate := [0]\<rparr>"
  have "wires 2 ?s"
    by (rule wires_step [OF wires_init start_data [of _ 0]]) (simp_all add: wire_init_def)
  moreover have "wire_run 2 [0, 0] ?s = Some ?t" by (simp add: wire_go_def wire_init_def)
  ultimately have "wires 2 ?t" by (rule wire_run_wires)
  from wires_step [OF this start_control [of ?t 1 "Ping [7]"]]
  show ?thesis by (simp add: sample_wires_def wire_init_def control_message_def)
qed

lemma sample_wires_run:
  "wire_run 2 sample_schedule sample_wires = Some (wire_init\<lparr>
     wi_wire := [RawFrame \<lparr>fr_payload = [1, 2], fr_opcode = OpText, fr_fin = False\<rparr>, Ping [7],
                 RawFrame \<lparr>fr_payload = [3], fr_opcode = OpContinue, fr_fin = True\<rparr>],
     wi_sent := [(1, [1, 2, 3])]\<rparr>)"
  by (simp add: sample_schedule_def sample_wires_def wire_go_def wire_init_def fragment_def fun_eq_iff)

text \<open>
  C1. However writers, control messages and acknowledgements interleave, at most one of them is
  sending at a time, and as long as no writer has given up inside a message, a receiver of the wire
  has exactly the data messages whose writes have finished sending, in that order, and of the
  message being sent the part that is out: fragments of different messages never mix, and control
  frames between fragments do not disturb them.
\<close>

theorem ws_writers_reassembled:
  assumes "wires n s" "0 < n"
  shows "(wi_broken s \<or>
          rx ([], None) (data_frames (wi_wire s)) =
            Some (wi_sent s,
              case wi_message s of None \<Rightarrow> None
              | Some t \<Rightarrow> (case message_held (wi_pc s t) of None \<Rightarrow> None | Some (k, d, i) \<Rightarrow> rx_partial k d i))) \<and>
         (\<forall>t u. sink_held (wi_pc s t) \<and> sink_held (wi_pc s u) \<longrightarrow> t = u)"
proof
  show "wi_broken s \<or>
          rx ([], None) (data_frames (wi_wire s)) =
            Some (wi_sent s,
              case wi_message s of None \<Rightarrow> None
              | Some t \<Rightarrow> (case message_held (wi_pc s t) of None \<Rightarrow> None | Some (k, d, i) \<Rightarrow> rx_partial k d i))"
    using wires_ok [OF assms] by (simp add: wire_ok_def wire_open_def rx_of_def cong: option.case_cong)
  show "\<forall>t u. sink_held (wi_pc s t) \<and> sink_held (wi_pc s u) \<longrightarrow> t = u"
    using locks_okD(4) [OF wires_locks_ok [OF assms(1)]] by (metis option.inject)
qed

theorem ws_writers_reassembled_witness:
  "rx ([], None) (data_frames (wi_wire (the (wire_run 2 sample_schedule sample_wires)))) =
     Some ([(1, [1, 2, 3])], None)"
proof -
  have "wires 2 (the (wire_run 2 sample_schedule sample_wires))"
    by (rule wire_run_wires [OF sample_wires_reached, of sample_schedule]) (simp add: sample_wires_run)
  from ws_writers_reassembled [OF this] show ?thesis
    by (simp add: sample_wires_run wire_init_def del: data_frames.simps)
qed

text \<open>
  C35. The locks of a connection never deadlock: however writers, control messages and
  acknowledgements are scheduled, no run makes more steps than known in advance, and one that cannot
  go on has finished them all. So with a sink that takes frames, every write that has begun returns.
\<close>

theorem ws_writers_finish:
  assumes "wires n s" "0 < n" "wire_run n ts s = Some s'"
  shows "length ts \<le> wire_work n s \<and> ((\<exists>u. wire_go n u s' \<noteq> None) \<or> (\<forall>t. wi_pc s' t = WriteOver))"
proof
  have s': "wires n s'" by (rule wire_run_wires [OF assms(1,3)])
  show "(\<exists>u. wire_go n u s' \<noteq> None) \<or> (\<forall>t. wi_pc s' t = WriteOver)"
    using someone_moves [OF wires_locks_ok [OF s'] wires_gate_ok [OF s']] by blast
  show "length ts \<le> wire_work n s"
    using assms(1,3)
  proof (induction ts arbitrary: s)
    case (Cons t ts)
    then obtain s1 where go: "wire_go n t s = Some s1" "wire_run n ts s1 = Some s'"
      by (auto simp: bind_eq_Some_conv)
    note step = wire_go_step [OF go(1)]
    have "wire_work n s1 < wire_work n s"
      by (rule go_work [OF step assms(2) wires_pc_ok [OF Cons.prems(1) assms(2)] wires_finite [OF Cons.prems(1)]])
    with Cons.IH [OF wires_step [OF Cons.prems(1) step] go(2)] show ?case by simp
  qed simp
qed

theorem ws_writers_finish_witness:
  "length sample_schedule \<le> wire_work 2 sample_wires"
  using ws_writers_finish [OF sample_wires_reached _ sample_wires_run] by simp

text \<open>
  C36. Control messages are not overtaken. From the moment a control message asks for the gate until
  it is on the wire, at most one data fragment gets there, whatever messages are under way or begin
  meanwhile; and none once the control message has the gate.
\<close>

theorem ws_control_not_overtaken:
  assumes "wires n s" "control_waits (wi_pc s v)" "meanwhile n v s s'"
  shows "length (data_frames (wi_wire s'))
       \<le> length (data_frames (wi_wire s)) + (if gate_write (wi_pc s v) then 0 else 1)"
proof -
  have "ahead s v \<le> (if gate_write (wi_pc s v) then 0 else 1)"
    using ahead_gate [OF wires_locks_ok [OF assms(1)] wires_gate_ok [OF assms(1)], of v] by (auto simp: ahead_def)
  with meanwhile_ahead [OF assms] show ?thesis by (simp add: fragments_out_def)
qed

text \<open>The ping of the sample waits while the first fragment goes out and the second is queued.\<close>

lemma meanwhile_run:
  assumes "meanwhile n v s0 s" "wire_run n ts s = Some s'" "v \<notin> set ts" "control_waits (wi_pc s v)"
  shows "meanwhile n v s0 s'"
  using assms
proof (induction ts arbitrary: s)
  case (Cons t ts)
  then obtain s1 where s1: "wire_go n t s = Some s1" "wire_run n ts s1 = Some s'" by (auto simp: bind_eq_Some_conv)
  note step = wire_go_step [OF s1(1)]
  have waits: "control_waits (wi_pc s1 v)"
    using wire_step_other [OF step, of v] Cons.prems(3,4) by auto
  from Cons.IH [OF meanwhile_step [OF Cons.prems(1) step waits] s1(2) _ waits] Cons.prems(3) show ?case by simp
qed simp

theorem ws_control_not_overtaken_witness:
  "length (data_frames (wi_wire (the (wire_run 2 [0, 0, 0, 0] sample_wires)))) \<le> 1"
proof -
  obtain s' where s': "wire_run 2 [0, 0, 0, 0] sample_wires = Some s'"
    by (simp add: sample_wires_def wire_go_def wire_init_def fragment_def)
  have waits: "control_waits (wi_pc sample_wires 1)" by (simp add: sample_wires_def control_waits_def)
  have "meanwhile 2 1 sample_wires s'" by (rule meanwhile_run [OF meanwhile_now s' _ waits]) simp
  from ws_control_not_overtaken [OF sample_wires_reached waits this] s' show ?thesis
    by (simp add: sample_wires_def wire_init_def gate_write_def)
qed

end
