(* ===== verification/Ws_System.thy ===== *)
theory Ws_System
  imports Ws_Outcomes Handle_Registry
begin

text \<open>
  The WebSocket registry with any number of threads in it, in any interleaving: the steps are the
  critical sections of \<open>rust/src/websocket_client.rs\<close> and the tasks, as for the HTTP registry. It
  implements the ownership contract of \<open>Handle_Registry\<close>.
\<close>

subsection \<open>A connection along its tasks\<close>

text \<open>The client and the token stay; a request once taken, a close once received and the two halves
  of the socket once there are so for good.\<close>

definition conn_le :: "('c, 'k, 'h) connection \<Rightarrow> ('c, 'k, 'h) connection \<Rightarrow> bool" where
  "conn_le c c' \<longleftrightarrow>
     co_client c' = co_client c \<and> co_owner c' = co_owner c \<and> co_cancel c' = co_cancel c \<and>
     (co_pending c' = co_pending c \<or> co_pending c' = None) \<and>
     (co_reader c' = None \<longrightarrow> co_reader c = None) \<and> (co_writer c' = None \<longrightarrow> co_writer c = None) \<and>
     (co_peer_close c \<longrightarrow> co_peer_close c')"

lemma conn_le_refl [simp]: "conn_le c c"
  by (simp add: conn_le_def)

lemma conn_le_trans: "conn_le a b \<Longrightarrow> conn_le b c \<Longrightarrow> conn_le a c"
  by (auto simp: conn_le_def)

lemma acknowledge_writer: "acknowledge sdk kind writer = (r, k) \<Longrightarrow> k = None \<Longrightarrow> writer = None"
  by (auto simp: acknowledge_def split: option.splits prod.splits sum.splits if_splits)

lemma connect_task_le: "ws_connect_task sdk fire c n = (r, c', n') \<Longrightarrow> conn_le c c'"
  by (auto simp: ws_connect_task_def conn_le_def Let_def split: if_splits option.splits prod.splits)

lemma read_loop_le: "ws_read_loop sdk fire items c = (r, c') \<Longrightarrow> conn_le c c'"
proof (induction items arbitrary: fire c)
  case Nil
  then show ?case by (auto simp: ws_read_loop.simps conn_le_def split: if_splits)
next
  case (Cons item items)
  show ?case
  proof (cases item)
    case (Inl e)
    with Cons.prems show ?thesis by (auto simp: ws_read_loop.simps conn_le_def split: if_splits)
  next
    case (Inr m)
    let ?c1 = "c\<lparr>co_reader := Some items, co_peer_close := (is_close m \<or> co_peer_close c)\<rparr>"
    have le: "conn_le c ?c1" by (simp add: conn_le_def)
    show ?thesis
    proof (cases "message_parts sdk m")
      case None
      then have "fire = Some 0 \<and> c' = c\<lparr>co_reader := Some (item # items)\<rparr> \<or>
          (\<exists>fire'. ws_read_loop sdk fire' items ?c1 = (r, c'))"
        using Cons.prems Inr
        by (subst (asm) ws_read_loop.simps) (auto simp: Let_def split: if_splits option.splits nat.splits)
      then show ?thesis
      proof (elim disjE exE)
        assume "fire = Some 0 \<and> c' = c\<lparr>co_reader := Some (item # items)\<rparr>"
        then show ?thesis by (simp add: conn_le_def)
      qed (rule conn_le_trans [OF le Cons.IH])
    next
      case (Some p)
      obtain kind payload where p: "p = (kind, payload)" by (cases p)
      obtain answer k where ack: "acknowledge sdk kind (co_writer c) = (answer, k)"
        by (cases "acknowledge sdk kind (co_writer c)")
      from Cons.prems Inr Some p ack have "c' = c\<lparr>co_reader := Some (item # items)\<rparr> \<or> c' = ?c1 \<or> c' = ?c1\<lparr>co_writer := k\<rparr>"
        by (subst (asm) ws_read_loop.simps) (auto simp: Let_def split: if_splits)
      with acknowledge_writer [OF ack] show ?thesis by (auto simp: conn_le_def)
    qed
  qed
qed

lemma read_task_le: "ws_read_task sdk fire c = (r, c') \<Longrightarrow> conn_le c c'"
  by (auto simp: ws_read_task_def split: if_splits option.splits prod.splits polled.splits dest: read_loop_le)

lemma send_fragments_le:
  "send_fragments sdk fire kind data offset c = Some y \<Longrightarrow> conn_le c (snd y)"
proof (induction rule: send_fragments.raw_induct [rotated, consumes 1])
  case (1 f sdk fire kind data offset c y)
  have step: "conn_le c (c\<lparr>co_writer := Some k'\<rparr>)" for k' by (simp add: conn_le_def)
  have more: "conn_le c (snd y)" if "f sdk fire' kind data fin (c\<lparr>co_writer := Some k'\<rparr>) = Some y" for fire' fin k'
    by (rule conn_le_trans [OF step 1(1) [OF that]])
  from 1(2) show ?case
    by (auto simp: Let_def step more split: if_splits option.splits prod.splits sum.splits)
qed

lemma write_task_le: "ws_write_task sdk fire plan c = Some (r, c') \<Longrightarrow> conn_le c c'"
proof (cases plan)
  case (WriteData kind data)
  assume "ws_write_task sdk fire plan c = Some (r, c')"
  with WriteData show ?thesis
    by (auto simp: ws_write_task_def ws_send_data_def split: if_splits dest: send_fragments_le)
next
  case (WriteControl m)
  assume "ws_write_task sdk fire plan c = Some (r, c')"
  with WriteControl show ?thesis
    by (auto simp: ws_write_task_def ws_send_control_def conn_le_def Let_def
        split: if_splits option.splits prod.splits)
qed

subsection \<open>The system\<close>

text \<open>
  \<open>ss_found\<close>: threads in \<open>create_connection\<close> that hold the client's \<open>Arc\<close>; \<open>ss_made\<close>: those that
  have built their connection and are about to register it; \<open>ss_cancelling\<close>: tokens of threads
  in \<open>close\<close> or \<open>close_connection\<close> that have released the lock and are about to cancel.
\<close>

record ('t, 'c, 'k, 'h, 'n) ws_system =
  ss_world :: "('t, 'c, 'k, 'h, 'n) ws_world"
  ss_runtime :: runtime_cell
  ss_found :: "(u64 \<times> 'h ws_client) set"
  ss_made :: "(u64 \<times> nat) set"
  ss_cancelling :: "'h set"

definition ws_init :: "'n \<Rightarrow> 't \<Rightarrow> ('t, 'c, 'k, 'h, 'n) ws_system" where
  "ws_init n t =
     \<lparr>ss_world = ws_empty t n, ss_runtime = None, ss_found = {}, ss_made = {}, ss_cancelling = {}\<rparr>"

inductive ws_step ::
  "('c, 'k, 'n) ws_sdk \<Rightarrow> ('t, 'h) token_api \<Rightarrow> ('t, 'c, 'k, 'h, 'n) ws_system \<Rightarrow>
     ('t, 'c, 'k, 'h, 'n) ws_system \<Rightarrow> bool"
  for sdk api where
  ws_step_create: "ws_create sdk api data (ss_world s) = (res, w) \<Longrightarrow>
     ws_step sdk api s (s\<lparr>ss_world := w\<rparr>)"
| ws_step_find: "ws_find_client i (ss_world s) = Inr client \<Longrightarrow>
     ws_step sdk api s (s\<lparr>ss_found := insert (i, client) (ss_found s)\<rparr>)"
| ws_step_make: "(i, client) \<in> ss_found s \<Longrightarrow> ws_prepare sdk data = Inr req \<Longrightarrow>
     ws_new_conn api i client req (ss_world s) = (r, w) \<Longrightarrow>
     ws_step sdk api s (s\<lparr>ss_world := w, ss_made := insert (i, r) (ss_made s)\<rparr>)"
| ws_step_add: "(i, r) \<in> ss_made s \<Longrightarrow> ws_add_conn i r (ss_world s) = (res, w) \<Longrightarrow>
     ws_step sdk api s (s\<lparr>ss_world := w, ss_made := ss_made s - {(i, r)}\<rparr>)"
| ws_step_leave: "F \<subseteq> ss_found s \<Longrightarrow> M \<subseteq> ss_made s \<Longrightarrow>
     ws_step sdk api s (s\<lparr>ss_found := F, ss_made := M\<rparr>)"
| ws_step_connect: "ws_connect_on sdk api build fire r (ss_runtime s) (ss_world s) = (res, cell, w) \<Longrightarrow>
     ws_step sdk api s (s\<lparr>ss_world := w, ss_runtime := cell\<rparr>)"
| ws_step_read: "ws_read_on sdk api build fire r (ss_runtime s) (ss_world s) = (res, cell, w) \<Longrightarrow>
     ws_step sdk api s (s\<lparr>ss_world := w, ss_runtime := cell\<rparr>)"
| ws_step_write: "ws_write_on sdk api build fire r plan (ss_runtime s) (ss_world s) = Some (res, cell, w) \<Longrightarrow>
     ws_step sdk api s (s\<lparr>ss_world := w, ss_runtime := cell\<rparr>)"
| ws_step_unregister: "ws_registry (ss_world s) = Inr u \<Longrightarrow>
     ws_unregister i (ss_world s) = (client, w) \<Longrightarrow>
     ws_step sdk api s (s\<lparr>ss_world := w,
        ss_cancelling := set_option (map_option wl_cancel client) \<union> ss_cancelling s\<rparr>)"
| ws_step_remove: "ws_registry (ss_world s) = Inr u \<Longrightarrow>
     ws_remove_conn i (ss_world s) = (r, w) \<Longrightarrow>
     ws_step sdk api s (s\<lparr>ss_world := w,
        ss_cancelling := set_option (map_option co_cancel (Option.bind r (ww_store w))) \<union> ss_cancelling s\<rparr>)"
| ws_step_cancel: "h \<in> ss_cancelling s \<Longrightarrow>
     ws_step sdk api s (s\<lparr>ss_world := ws_cancel api h (ss_world s),
        ss_cancelling := ss_cancelling s - {h}\<rparr>)"

subsection \<open>Tasks on the registry's state\<close>

definition only_conn ::
  "nat \<Rightarrow> ('t, 'c, 'k, 'h, 'n) ws_world \<Rightarrow> ('t, 'c, 'k, 'h, 'n) ws_world \<Rightarrow> bool" where
  "only_conn r w w' \<longleftrightarrow>
     ww_next w' = ww_next w \<and> ww_clients w' = ww_clients w \<and> ww_conns w' = ww_conns w \<and>
     ww_poisoned w' = ww_poisoned w \<and> ww_fresh w' = ww_fresh w \<and> ww_tokens w' = ww_tokens w \<and>
     (\<forall>q. q \<noteq> r \<longrightarrow> ww_store w' q = ww_store w q) \<and>
     rel_option conn_le (ww_store w r) (ww_store w' r)"

lemma only_conn_refl: "only_conn r w w"
  by (simp add: only_conn_def option.rel_refl)

lemma run_on_only_conn:
  assumes "run_on api build r body cell w = (res, cell', w')"
    and "\<And>c t c' n. ww_store w r = Some c \<Longrightarrow> body c (ww_net w) = (t, c', n) \<Longrightarrow> conn_le c c'"
  shows "only_conn r w w'"
proof -
  let ?task = "\<lambda>w. case ww_store w r of
              None \<Rightarrow> (TaskPanicked, w)
            | Some c \<Rightarrow> (let (t, c', n) = body c (ww_net w) in (t, set_conn r c' (w\<lparr>ww_net := n\<rparr>)))"
  have task: "only_conn r w (snd (?task w))"
  proof (cases "ww_store w r")
    case (Some c)
    obtain t c' n where "body c (ww_net w) = (t, c', n)" by (cases "body c (ww_net w)")
    with Some assms(2) [OF Some this] show ?thesis by (simp add: only_conn_def set_conn_def)
  qed (simp add: only_conn_refl)
  have "w' = w \<or> w' = snd (select_cancelled (conn_fired api r w) connection_closed ?task w)"
    using assms(1) unfolding run_on_def run_def
    by (auto split: prod.splits sum.splits task.splits)
  with task show ?thesis by (auto simp: select_cancelled_def only_conn_refl)
qed

lemma connect_on_only_conn:
  "ws_connect_on sdk api build fire r cell w = (res, cell', w') \<Longrightarrow> only_conn r w w'"
  unfolding ws_connect_on_def by (erule run_on_only_conn) (rule connect_task_le)

lemma read_on_only_conn:
  "ws_read_on sdk api build fire r cell w = (res, cell', w') \<Longrightarrow> only_conn r w w'"
  unfolding ws_read_on_def
  by (erule run_on_only_conn) (auto split: prod.splits dest: read_task_le)

lemma write_on_only_conn:
  "ws_write_on sdk api build fire r plan cell w = Some (res, cell', w') \<Longrightarrow> only_conn r w w'"
  unfolding ws_write_on_def
  by (auto split: if_splits option.splits prod.splits elim!: run_on_only_conn dest: write_task_le)

subsection \<open>Its abstraction\<close>

definition ws_abs :: "('t, 'c, 'k, 'h, 'n) ws_system \<Rightarrow> ('t, 'h) ownership" where
  "ws_abs s =
     \<lparr>own_next = ww_next (ss_world s),
      own_clients = (\<lambda>i. map_option wl_cancel (ww_clients (ss_world s) i)),
      own_children = ww_conns (ss_world s),
      own_objects = (\<lambda>r. map_option (\<lambda>c. (co_client c, co_cancel c)) (ww_store (ss_world s) r)),
      own_fresh = ww_fresh (ss_world s),
      own_prepared = (\<lambda>(i, c). (i, wl_cancel c)) ` ss_found s,
      own_allocated = ss_made s,
      own_closing = ss_cancelling s,
      own_tokens = ww_tokens (ss_world s)\<rparr>"

lemma only_conn_abs:
  assumes "only_conn r (ss_world s) w"
  shows "ws_abs (s\<lparr>ss_world := w, ss_runtime := cell\<rparr>) = ws_abs s"
proof -
  have "map_option (\<lambda>c. (co_client c, co_cancel c)) (ww_store w q)
      = map_option (\<lambda>c. (co_client c, co_cancel c)) (ww_store (ss_world s) q)" for q
  proof (cases "q = r")
    case True
    then show ?thesis
      using assms by (cases "ww_store (ss_world s) r"; cases "ww_store w r") (auto simp: only_conn_def conn_le_def)
  qed (use assms in \<open>simp add: only_conn_def\<close>)
  then show ?thesis
    using assms unfolding ws_abs_def by (simp add: only_conn_def)
qed

lemma ws_abs_create:
  assumes "ws_create sdk api data (ss_world s) = (res, w)"
  shows "(own_step api)\<^sup>*\<^sup>* (ws_abs s) (ws_abs (s\<lparr>ss_world := w\<rparr>))"
proof (cases res)
  case (Inr out)
  obtain h t where new: "tok_new api (ww_tokens (ss_world s)) = (h, t)"
    by (cases "tok_new api (ww_tokens (ss_world s))")
  from ws_create_success [OF assms [unfolded Inr] new]
  obtain cfg con i where i: "u64_checked_add (ww_next (ss_world s)) 1 = Some i"
    and w: "w = (ss_world s)\<lparr>ww_tokens := t, ww_next := i, ww_clients := (ww_clients (ss_world s))(i \<mapsto>
         \<lparr>wl_connector = con, wl_config = cfg, wl_cancel = h\<rparr>)\<rparr>"
    by (elim exE conjE) (rule that)
  have "own_step api (ws_abs s) (ws_abs (s\<lparr>ss_world := w\<rparr>))"
    using own_step.open_client [of api "ws_abs s" h t i] new i
    unfolding w by (simp add: ws_abs_def fun_upd_def if_distrib cong: if_cong)
  then show ?thesis by blast
next
  case (Inl e)
  obtain h t where new: "tok_new api (own_tokens (ws_abs s)) = (h, t)"
    by (cases "tok_new api (own_tokens (ws_abs s))")
  from ws_create_failure [OF assms [unfolded Inl]] show ?thesis
  proof
    assume "w = ss_world s"
    then show ?thesis by (simp add: ws_abs_def)
  next
    assume w: "w = (ss_world s)\<lparr>ww_tokens := snd (tok_new api (ww_tokens (ss_world s)))\<rparr>"
    have "own_step api (ws_abs s) ((ws_abs s)\<lparr>own_tokens := t\<rparr>)"
      using new by (rule own_step.waste_token)
    moreover have "(ws_abs s)\<lparr>own_tokens := t\<rparr> = ws_abs (s\<lparr>ss_world := w\<rparr>)"
      using new unfolding w by (simp add: ws_abs_def)
    ultimately show ?thesis by (simp add: r_into_rtranclp)
  qed
qed

lemma ws_find_client_Inr_iff:
  "ws_find_client i w = Inr client \<longleftrightarrow> \<not> ww_poisoned w \<and> ww_clients w i = Some client"
  by (auto simp: ws_find_client_def ws_registry_def result_simps)

lemma ws_abs_make:
  assumes "(i, client) \<in> ss_found s" "ws_new_conn api i client req (ss_world s) = (r, w)"
  shows "own_step api (ws_abs s) (ws_abs (s\<lparr>ss_world := w, ss_made := insert (i, r) (ss_made s)\<rparr>))"
proof -
  obtain h t where child: "tok_child api (wl_cancel client) (ww_tokens (ss_world s)) = (h, t)"
    by (cases "tok_child api (wl_cancel client) (ww_tokens (ss_world s))")
  have w: "r = ww_fresh (ss_world s)"
    "w = (ss_world s)\<lparr>ww_store := (ww_store (ss_world s))(r \<mapsto>
       \<lparr>co_client = i, co_owner = client, co_cancel = h, co_pending = Some req,
        co_reader = None, co_writer = None, co_peer_close = False\<rparr>),
       ww_fresh := Suc (ww_fresh (ss_world s)), ww_tokens := t\<rparr>"
    using assms(2) child by (auto simp: ws_new_conn_def)
  have "(i, wl_cancel client) \<in> own_prepared (ws_abs s)"
    using assms(1) by (force simp: ws_abs_def)
  from own_step.allocate [of i "wl_cancel client" "ws_abs s" api h t, OF this]
  have "own_step api (ws_abs s) ((ws_abs s)\<lparr>
      own_objects := (own_objects (ws_abs s))(own_fresh (ws_abs s) \<mapsto> (i, h)),
      own_allocated := insert (i, own_fresh (ws_abs s)) (own_allocated (ws_abs s)),
      own_fresh := Suc (own_fresh (ws_abs s)), own_tokens := t\<rparr>)"
    using child by (simp add: ws_abs_def)
  moreover have "(ws_abs s)\<lparr>
      own_objects := (own_objects (ws_abs s))(own_fresh (ws_abs s) \<mapsto> (i, h)),
      own_allocated := insert (i, own_fresh (ws_abs s)) (own_allocated (ws_abs s)),
      own_fresh := Suc (own_fresh (ws_abs s)), own_tokens := t\<rparr>
    = ws_abs (s\<lparr>ss_world := w, ss_made := insert (i, r) (ss_made s)\<rparr>)"
    unfolding w by (simp add: ws_abs_def fun_eq_iff)
  ultimately show ?thesis by simp
qed

lemma ws_abs_add:
  assumes "(i, r) \<in> ss_made s" "ws_add_conn i r (ss_world s) = (res, w)"
  shows "own_step api (ws_abs s) (ws_abs (s\<lparr>ss_world := w, ss_made := ss_made s - {(i, r)}\<rparr>))"
proof (cases res)
  case (Inl e)
  then have "w = ss_world s"
    using assms(2) by (auto simp: ws_add_conn_def split: sum.splits if_splits prod.splits)
  then show ?thesis
    using own_step.forget [of "own_prepared (ws_abs s)" "ws_abs s" "ss_made s - {(i, r)}" api]
    by (simp add: ws_abs_def)
next
  case (Inr out)
  then obtain j where j: "ww_clients (ss_world s) i \<noteq> None"
    "u64_checked_add (ww_next (ss_world s)) 1 = Some j"
    "w = (ss_world s)\<lparr>ww_next := j, ww_conns := (ww_conns (ss_world s))(j \<mapsto> r)\<rparr>"
    using assms(2)
    by (auto simp: ws_add_conn_def ws_next_def split: sum.splits if_splits prod.splits option.splits)
  show ?thesis
    using own_step.commit [of i r "ws_abs s" j api] assms(1) j(1,2)
    unfolding j(3) by (simp add: ws_abs_def)
qed

lemma ws_abs_unregister:
  assumes "ws_unregister i (ss_world s) = (client, w)"
  shows "own_step api (ws_abs s) (ws_abs (s\<lparr>ss_world := w,
           ss_cancelling := set_option (map_option wl_cancel client) \<union> ss_cancelling s\<rparr>))"
proof -
  have children: "(case ww_conns (ss_world s) j of None \<Rightarrow> None
      | Some r \<Rightarrow> if map_option co_client (ww_store (ss_world s) r) = Some i then None else Some r)
    = own_children (own_close_client i (ws_abs s)) j" for j
    by (simp add: own_close_client_def ws_abs_def option.map_comp comp_def split: option.split)
  have "own_close_client i (ws_abs s) = ws_abs (s\<lparr>ss_world := w,
           ss_cancelling := set_option (map_option wl_cancel client) \<union> ss_cancelling s\<rparr>)"
    using assms
    by (auto simp: ws_unregister_def children ws_abs_def own_close_client_def fun_eq_iff
        option.map_comp comp_def split: option.split)
  then show ?thesis using own_step.close_client [of api "ws_abs s" i] by simp
qed

lemma ws_abs_remove:
  assumes "ws_remove_conn i (ss_world s) = (r, w)"
  shows "own_step api (ws_abs s) (ws_abs (s\<lparr>ss_world := w,
           ss_cancelling := set_option (map_option co_cancel (Option.bind r (ww_store w))) \<union> ss_cancelling s\<rparr>))"
proof -
  have token: "map_option snd (Option.bind (own_children (ws_abs s) i) (own_objects (ws_abs s)))
      = map_option co_cancel (Option.bind (ww_conns (ss_world s) i) (ww_store (ss_world s)))"
    by (cases "ww_conns (ss_world s) i") (simp_all add: ws_abs_def option.map_comp comp_def)
  have "own_close_child i (ws_abs s) = ws_abs (s\<lparr>ss_world := w,
           ss_cancelling := set_option (map_option co_cancel (Option.bind r (ww_store w))) \<union> ss_cancelling s\<rparr>)"
    using assms unfolding own_close_child_def token
    by (auto simp: ws_remove_conn_def ws_abs_def)
  then show ?thesis using own_step.close_child [of api "ws_abs s" i] by simp
qed

lemma ws_step_abs:
  assumes "ws_step sdk api s s'"
  shows "(own_step api)\<^sup>*\<^sup>* (ws_abs s) (ws_abs s')"
  using assms
proof (induction rule: ws_step.induct)
  case (ws_step_create data s res w)
  then show ?case by (rule ws_abs_create)
next
  case (ws_step_find i s client)
  then have "own_clients (ws_abs s) i = Some (wl_cancel client)"
    by (simp add: ws_find_client_Inr_iff ws_abs_def)
  from own_step.prepare [OF this, of api] show ?case
    by (intro r_into_rtranclp) (simp add: ws_abs_def)
next
  case (ws_step_make i client s data req r w)
  then show ?case using ws_abs_make by blast
next
  case (ws_step_add i r s res w)
  then show ?case using ws_abs_add by blast
next
  case (ws_step_leave F s M)
  then have "(\<lambda>(i, c). (i, wl_cancel c)) ` F \<subseteq> own_prepared (ws_abs s)" "M \<subseteq> own_allocated (ws_abs s)"
    by (auto simp: ws_abs_def)
  from own_step.forget [OF this, of api] show ?case
    by (intro r_into_rtranclp) (simp add: ws_abs_def)
next
  case (ws_step_connect build fire r s res cell w)
  from only_conn_abs [OF connect_on_only_conn [OF this], of cell] show ?case by simp
next
  case (ws_step_read build fire r s res cell w)
  from only_conn_abs [OF read_on_only_conn [OF this], of cell] show ?case by simp
next
  case (ws_step_write build fire r plan s res cell w)
  from only_conn_abs [OF write_on_only_conn [OF this], of cell] show ?case by simp
next
  case (ws_step_unregister s u i client w)
  then show ?case using ws_abs_unregister by blast
next
  case (ws_step_remove s u i r w)
  then show ?case using ws_abs_remove by blast
next
  case (ws_step_cancel h s)
  then have "h \<in> own_closing (ws_abs s)" by (simp add: ws_abs_def)
  from own_step.cancel [OF this, of api] show ?case
    by (intro r_into_rtranclp) (simp add: ws_abs_def ws_cancel_def)
qed

interpretation ws_registry_of: owning_registry api ws_abs "ws_step sdk api" "ws_init n"
  for api sdk n
  by unfold_locales (simp_all add: ws_step_abs, simp add: ws_abs_def ws_init_def ws_empty_def own_empty_def)

subsection \<open>A history\<close>

text \<open>One client and one connection registered in the three steps of \<open>create_connection\<close>; then the
  client is closed in the two steps of \<open>close\<close>.\<close>

definition sample_joined :: "(token_list, u16, u16 message list, nat, nat) ws_system" where
  "sample_joined =
     \<lparr>ss_world = \<lparr>ww_next = 2, ww_clients = [1 \<mapsto> sample_ws_client], ww_conns = [2 \<mapsto> 0],
        ww_poisoned = False, ww_store = [0 \<mapsto> sample_conn], ww_fresh = 1,
        ww_tokens = [([0], False), ([1, 0], False)], ww_net = 0\<rparr>,
      ss_runtime = None, ss_found = {(1, sample_ws_client)}, ss_made = {}, ss_cancelling = {}\<rparr>"

definition sample_parted :: "(token_list, u16, u16 message list, nat, nat) ws_system" where
  "sample_parted =
     sample_joined\<lparr>ss_world := (ss_world sample_joined)\<lparr>ww_clients := (\<lambda>_. None), ww_conns := (\<lambda>_. None),
       ww_tokens := [([0], True), ([1, 0], True)]\<rparr>\<rparr>"

lemma sample_ws_prepare:
  "ws_prepare sample_ws [1] = Inr \<lparr>up_url = sample_ws_target, up_headers = []\<rparr>"
  by (simp add: ws_prepare_def sample_ws_def sample_ws_target_def)

lemma sample_joined_history:
  "(ws_step sample_ws list_tokens)\<^sup>*\<^sup>* (ws_init 0 []) sample_joined"
proof -
  let ?s0 = "ws_init 0 [] :: (token_list, u16, u16 message list, nat, nat) ws_system"
  let ?w1 = "(ws_empty [] 0)\<lparr>ww_tokens := [([0], False)], ww_next := 1, ww_clients := [1 \<mapsto> sample_ws_client]\<rparr>"
  let ?s1 = "?s0\<lparr>ss_world := ?w1\<rparr>"
  let ?s2 = "?s1\<lparr>ss_found := {(1, sample_ws_client)}\<rparr>"
  let ?w3 = "?w1\<lparr>ww_store := [0 \<mapsto> sample_conn], ww_fresh := 1, ww_tokens := [([0], False), ([1, 0], False)]\<rparr>"
  let ?s3 = "?s2\<lparr>ss_world := ?w3, ss_made := {(1, 0)}\<rparr>"
  have "ws_step sample_ws list_tokens ?s0 ?s1"
    by (rule ws_step.ws_step_create [of _ _ "[1]"]) (simp add: ws_init_def sample_create_ws)
  moreover have "ws_step sample_ws list_tokens ?s1 ?s2"
    using ws_step.ws_step_find [of 1 ?s1 sample_ws_client sample_ws list_tokens]
    by (simp add: ws_find_client_Inr_iff ws_empty_def ws_init_def)
  moreover have "ws_step sample_ws list_tokens ?s2 ?s3"
  proof -
    have "ws_new_conn list_tokens 1 sample_ws_client \<lparr>up_url = sample_ws_target, up_headers = []\<rparr> (ss_world ?s2) = (0, ?w3)"
      by (simp add: ws_new_conn_def list_tokens_def sample_ws_client_def ws_empty_def sample_conn_def)
    from ws_step.ws_step_make [OF _ sample_ws_prepare this] show ?thesis
      by (simp add: ws_init_def)
  qed
  moreover have "ws_step sample_ws list_tokens ?s3 sample_joined"
    using ws_step.ws_step_add [of 1 0 ?s3 "Inr (output_handle 2)" "ss_world sample_joined" sample_ws list_tokens]
    by (simp add: ws_add_conn_def ws_registry_def ws_next_def u64_checked_add_def ws_empty_def ws_init_def
        sample_joined_def)
  ultimately show ?thesis
    by (rule rtranclp.rtrancl_into_rtrancl [OF rtranclp.rtrancl_into_rtrancl
          [OF rtranclp.rtrancl_into_rtrancl [OF r_into_rtranclp]]])
qed

lemma sample_parted_steps: "(ws_step sample_ws list_tokens)\<^sup>*\<^sup>* sample_joined sample_parted"
proof -
  let ?w1 = "(ss_world sample_joined)\<lparr>ww_clients := (\<lambda>_. None), ww_conns := (\<lambda>_. None)\<rparr>"
  let ?s1 = "sample_joined\<lparr>ss_world := ?w1, ss_cancelling := {0}\<rparr>"
  have "ws_unregister 1 (ss_world sample_joined) = (Some sample_ws_client, ?w1)"
    by (simp add: ws_unregister_def sample_joined_def sample_conn_def fun_eq_iff)
  from ws_step.ws_step_unregister [OF _ this, of "()" sample_ws list_tokens]
  have "ws_step sample_ws list_tokens sample_joined ?s1"
    by (simp add: sample_joined_def ws_registry_def sample_ws_client_def)
  moreover have "ws_step sample_ws list_tokens ?s1 sample_parted"
  proof -
    have "?s1\<lparr>ss_world := ws_cancel list_tokens 0 (ss_world ?s1), ss_cancelling := ss_cancelling ?s1 - {0}\<rparr>
        = sample_parted"
      by (simp add: ws_cancel_def list_tokens_def sample_parted_def sample_joined_def)
    with ws_step.ws_step_cancel [of 0 ?s1 sample_ws list_tokens] show ?thesis by simp
  qed
  ultimately show ?thesis
    by (rule rtranclp.rtrancl_into_rtrancl [OF r_into_rtranclp])
qed

lemma sample_parted_history:
  "(ws_step sample_ws list_tokens)\<^sup>*\<^sup>* (ws_init 0 []) sample_parted"
  using sample_joined_history sample_parted_steps by (rule rtranclp_trans)

subsection \<open>Connections along a history\<close>

definition conn_at_le :: "('c, 'k, 'h) connection option \<Rightarrow> ('c, 'k, 'h) connection option \<Rightarrow> bool" where
  "conn_at_le c c' \<longleftrightarrow> (case c of None \<Rightarrow> True | Some x \<Rightarrow> (\<exists>x'. c' = Some x' \<and> conn_le x x'))"

lemma conn_at_le_refl [simp]: "conn_at_le c c"
  by (simp add: conn_at_le_def split: option.split)

lemma conn_at_le_trans: "conn_at_le a b \<Longrightarrow> conn_at_le b c \<Longrightarrow> conn_at_le a c"
  by (auto simp: conn_at_le_def split: option.splits intro: conn_le_trans)

lemma only_conn_at_le: "only_conn r w w' \<Longrightarrow> conn_at_le (ww_store w q) (ww_store w' q)"
  by (cases "q = r")
     (auto simp: only_conn_def conn_at_le_def option_rel_Some1 split: option.split)

lemma ws_create_store: "ws_create sdk api data w = (res, w') \<Longrightarrow> ww_store w' = ww_store w"
  by (auto simp: ws_create_def ws_register_def ws_next_def Let_def split: sum.splits prod.splits option.splits)

lemma ws_step_conn:
  assumes "ws_step sdk api s s'" "ww_store (ss_world s) (ww_fresh (ss_world s)) = None"
  shows "conn_at_le (ww_store (ss_world s) q) (ww_store (ss_world s') q)"
  using assms
proof (induction rule: ws_step.induct)
  case (ws_step_create data s res w)
  then show ?case by (simp add: ws_create_store)
next
  case (ws_step_make i client s data req r w)
  then show ?case
    by (auto simp: ws_new_conn_def conn_at_le_def split: prod.splits option.splits)
next
  case (ws_step_add i r s res w)
  then have "ww_store w = ww_store (ss_world s)"
    by (auto simp: ws_add_conn_def ws_next_def split: sum.splits if_splits prod.splits option.splits)
  then show ?case by simp
next
  case (ws_step_connect build fire r s res cell w)
  then show ?case using only_conn_at_le [OF connect_on_only_conn] by simp
next
  case (ws_step_read build fire r s res cell w)
  then show ?case using only_conn_at_le [OF read_on_only_conn] by simp
next
  case (ws_step_write build fire r plan s res cell w)
  then show ?case using only_conn_at_le [OF write_on_only_conn] by simp
qed (auto simp: ws_unregister_def ws_remove_conn_def ws_cancel_def)

lemma ws_history_fresh:
  assumes "(ws_step sdk api)\<^sup>*\<^sup>* (ws_init n t) s" "token_laws api" "tok_ok api t"
  shows "ww_store (ss_world s) (ww_fresh (ss_world s)) = None"
proof -
  have "refs_ok (ws_abs s)"
    using own_invD(2) [OF ws_registry_of.history_inv(1) [OF assms]] .
  from refs_okD(6) [OF this] show ?thesis by (simp add: ws_abs_def)
qed

lemma ws_history_conn:
  assumes "(ws_step sdk api)\<^sup>*\<^sup>* (ws_init n t) s" "token_laws api" "tok_ok api t"
    and "(ws_step sdk api)\<^sup>*\<^sup>* s s'"
  shows "conn_at_le (ww_store (ss_world s) q) (ww_store (ss_world s') q)"
  using assms(4)
proof (induction rule: rtranclp_induct)
  case (step s1 s2)
  then have "(ws_step sdk api)\<^sup>*\<^sup>* (ws_init n t) s1"
    using assms(1) by (simp add: rtranclp_trans)
  from ws_step_conn [OF step(2) ws_history_fresh [OF this assms(2,3)]] step(3)
  show ?case by (rule conn_at_le_trans [rotated])
qed simp

subsection \<open>Properties of the system\<close>

definition ws_handle :: "('t, 'c, 'k, 'h, 'n) ws_system \<Rightarrow> u64 \<Rightarrow> bool" where
  "ws_handle s i \<longleftrightarrow> ww_clients (ss_world s) i \<noteq> None \<or> ww_conns (ss_world s) i \<noteq> None"

lemma ws_handle_registered: "ws_handle s i = registered (ws_abs s) i"
  by (simp add: ws_handle_def registered_def ws_abs_def)

lemma ws_abs_next: "own_next (ws_abs s) = ww_next (ss_world s)"
  by (simp add: ws_abs_def)

text \<open>
  C31. However threads interleave, WebSocket handles are nonzero and name a client or a
  connection, never both; one that was issued and is not registered now is never registered again.
\<close>

theorem ws_handles:
  assumes "(ws_step sdk api)\<^sup>*\<^sup>* (ws_init n t) s" "token_laws api" "tok_ok api t"
    and "(ws_step sdk api)\<^sup>*\<^sup>* s s'"
  shows "(\<not> ws_handle s i \<or>
            0 < unat i \<and> unat i \<le> unat (ww_next (ss_world s)) \<and>
            (ww_clients (ss_world s) i = None \<or> ww_conns (ss_world s) i = None))
       \<and> (ws_handle s i \<or> unat (ww_next (ss_world s)) < unat i \<or> \<not> ws_handle s' i)"
proof
  show "\<not> ws_handle s i \<or>
            0 < unat i \<and> unat i \<le> unat (ww_next (ss_world s)) \<and>
            (ww_clients (ss_world s) i = None \<or> ww_conns (ss_world s) i = None)"
    using ws_registry_of.handle_bounds [OF assms(1-3), of i]
    by (cases "ws_handle s i") (auto simp: ws_handle_registered ws_abs_def)
  show "ws_handle s i \<or> unat (ww_next (ss_world s)) < unat i \<or> \<not> ws_handle s' i"
    using ws_registry_of.handle_retired [OF assms(4), of i]
    unfolding ws_handle_registered ws_abs_next by linarith
qed

theorem ws_handles_witness:
  "\<not> ws_handle sample_parted 2 \<and> ws_handle sample_joined 2 \<and>
   (\<nexists>s'. (ws_step sample_ws list_tokens)\<^sup>*\<^sup>* sample_parted s' \<and> ws_handle s' 2)"
proof -
  have gone: "\<not> ws_handle sample_parted 2" "\<not> unat (ww_next (ss_world sample_parted)) < unat (2 :: u64)"
    by (simp_all add: ws_handle_def sample_parted_def sample_joined_def)
  then have "\<not> ws_handle s' 2" if "(ws_step sample_ws list_tokens)\<^sup>*\<^sup>* sample_parted s'" for s'
    using ws_handles [OF sample_parted_history list_tokens_laws tok_ok_Nil that, of 2] by blast
  moreover have "ws_handle sample_joined 2" by (simp add: ws_handle_def sample_joined_def)
  ultimately show ?thesis using gone(1) by blast
qed

lemma run_on_fired:
  assumes "ww_store w r = Some c" "is_cancelled api (ww_tokens w) (co_cancel c)" "cell = Some (Inr ())"
  shows "run_on api build r body cell w = (Inl connection_closed, cell, w)"
  using assms by (simp add: run_on_def run_def runtime_ready select_cancelled_def conn_fired_def)

text \<open>
  C3. Closing a client cancels its connections, all of them, also those whose
  \<open>create_connection\<close> was still running and those in use: once no closing thread is about to
  cancel, every connect, read or write on a connection of an unregistered client, also by a thread
  that looked the handle up before the close, answers \<open>closed\<close> and touches nothing.
\<close>

theorem ws_closed_connections:
  assumes "(ws_step sdk api)\<^sup>*\<^sup>* (ws_init n t) s" "token_laws api" "tok_ok api t"
    and "ww_store (ss_world s) r = Some c" "ww_clients (ss_world s) (co_client c) = None"
    and "ss_cancelling s = {}" "cell = Some (Inr ())"
  shows "is_cancelled api (ww_tokens (ss_world s)) (co_cancel c)
       \<and> ws_connect_on sdk api build fire r cell (ss_world s) = (Inl connection_closed, cell, ss_world s)
       \<and> ws_read_on sdk api build fire r cell (ss_world s) = (Inl connection_closed, cell, ss_world s)
       \<and> ws_write_on sdk api build fire r plan cell (ss_world s) = Some (Inl connection_closed, cell, ss_world s)"
proof -
  have "is_cancelled api (own_tokens (ws_abs s)) (co_cancel c)"
    using assms(4-6)
    by (intro ws_registry_of.orphan_cancelled [OF assms(1-3), of r "co_client c"]) (simp_all add: ws_abs_def)
  then have fired: "is_cancelled api (ww_tokens (ss_world s)) (co_cancel c)"
    by (simp add: ws_abs_def)
  then have "conn_fired api r (ss_world s)"
    using assms(4) by (simp add: conn_fired_def)
  with fired run_on_fired [OF assms(4) fired assms(7)] show ?thesis
    by (simp add: ws_connect_on_def ws_read_on_def ws_write_on_def)
qed

theorem ws_closed_connections_witness:
  "ws_read_on sample_ws list_tokens (Inr ()) None 0 (Some (Inr ())) (ss_world sample_parted)
     = (Inl connection_closed, Some (Inr ()), ss_world sample_parted)"
proof -
  have "ww_store (ss_world sample_parted) 0 = Some sample_conn"
    "ww_clients (ss_world sample_parted) (co_client sample_conn) = None"
    "ss_cancelling sample_parted = {}"
    by (simp_all add: sample_parted_def sample_joined_def)
  from ws_closed_connections [OF sample_parted_history list_tokens_laws tok_ok_Nil this refl,
      where plan = "WriteData 2 []"]
  show ?thesis by blast
qed

text \<open>
  Nothing else cancels a connection: in every history, a registered connection belongs to a
  registered client, has a handle of its own, and its token has not fired.
\<close>

theorem ws_open_connections:
  assumes "(ws_step sdk api)\<^sup>*\<^sup>* (ws_init n t) s" "token_laws api" "tok_ok api t"
    and "ww_conns (ss_world s) i = Some r"
  shows "\<exists>c. ww_store (ss_world s) r = Some c \<and> ww_clients (ss_world s) (co_client c) \<noteq> None \<and>
           \<not> is_cancelled api (ww_tokens (ss_world s)) (co_cancel c) \<and>
           (\<forall>j. j = i \<or> ww_conns (ss_world s) j \<noteq> Some r)"
proof -
  have "own_children (ws_abs s) i = Some r" using assms(4) by (simp add: ws_abs_def)
  from ws_registry_of.child_live [OF assms(1-3) this]
  have "\<exists>c. ww_store (ss_world s) r = Some c \<and> ww_clients (ss_world s) (co_client c) \<noteq> None \<and>
           \<not> is_cancelled api (ww_tokens (ss_world s)) (co_cancel c)"
    by (auto simp: ws_abs_def)
  moreover have "j = i \<or> ww_conns (ss_world s) j \<noteq> Some r" for j
    using refs_okD(3) [OF own_invD(2) [OF ws_registry_of.history_inv(1) [OF assms(1-3)]], of j r i] assms(4)
    by (auto simp: ws_abs_def)
  ultimately show ?thesis by blast
qed

theorem ws_open_connections_witness:
  "\<not> is_cancelled list_tokens (ww_tokens (ss_world sample_joined)) 1"
proof -
  have "ww_conns (ss_world sample_joined) 2 = Some 0" by (simp add: sample_joined_def)
  from ws_open_connections [OF sample_joined_history list_tokens_laws tok_ok_Nil this]
  show ?thesis by (auto simp: sample_joined_def sample_conn_def)
qed

text \<open>
  Under any interleaving a connection keeps its client and its token for good; its request,
  once taken, never comes back, so it never dials again; its socket halves, once there, stay; and
  once the peer's close has been received, every later read is the end of file.
\<close>

theorem ws_connections_forward:
  assumes "(ws_step sdk api)\<^sup>*\<^sup>* (ws_init n t) s" "token_laws api" "tok_ok api t"
    and "(ws_step sdk api)\<^sup>*\<^sup>* s s'" "ww_store (ss_world s) r = Some c"
  shows "\<exists>c'. ww_store (ss_world s') r = Some c' \<and> co_client c' = co_client c \<and> co_cancel c' = co_cancel c \<and>
           (co_pending c = None \<longrightarrow> co_pending c' = None) \<and>
           (co_reader c \<noteq> None \<longrightarrow> co_reader c' \<noteq> None) \<and> (co_writer c \<noteq> None \<longrightarrow> co_writer c' \<noteq> None) \<and>
           (co_peer_close c \<and> co_reader c \<noteq> None \<longrightarrow>
              ws_read_task sdk None c' = (Finished (Inr output_eof), c'))"
  using ws_history_conn [OF assms(1-4), of r] assms(5)
  by (auto simp: conn_at_le_def conn_le_def ws_read_task_def)

theorem ws_connections_forward_witness:
  "\<exists>c'. ww_store (ss_world sample_parted) 0 = Some c' \<and> co_client c' = 1 \<and> co_cancel c' = 1"
proof -
  have "ww_store (ss_world sample_joined) 0 = Some sample_conn" by (simp add: sample_joined_def)
  from ws_connections_forward [OF sample_joined_history list_tokens_laws tok_ok_Nil sample_parted_steps this]
  show ?thesis by (auto simp: sample_conn_def)
qed

subsection \<open>The functions as runs of the system\<close>

definition ws_runs_to ::
  "('c, 'k, 'n) ws_sdk \<Rightarrow> ('t, 'h) token_api \<Rightarrow> ('t, 'c, 'k, 'h, 'n) ws_system \<Rightarrow>
     ('t, 'c, 'k, 'h, 'n) ws_world \<Rightarrow> bool" where
  "ws_runs_to sdk api s w \<longleftrightarrow> (\<exists>s'. (ws_step sdk api)\<^sup>*\<^sup>* s s' \<and> ss_world s' = w)"

lemma ws_runs_refl: "ws_runs_to sdk api s (ss_world s)"
  unfolding ws_runs_to_def by blast

lemma ws_runs_step: "ws_step sdk api s s' \<Longrightarrow> ss_world s' = w \<Longrightarrow> ws_runs_to sdk api s w"
  unfolding ws_runs_to_def by blast

lemma ws_runs_more: "ws_step sdk api s s' \<Longrightarrow> ws_runs_to sdk api s' w \<Longrightarrow> ws_runs_to sdk api s w"
  unfolding ws_runs_to_def by (blast intro: converse_rtranclp_into_rtranclp)

lemma ws_cancel_runs:
  "ws_runs_to sdk api (s\<lparr>ss_world := w, ss_cancelling := insert h C\<rparr>) (ws_cancel api h w)"
  by (rule ws_runs_step [OF ws_step.ws_step_cancel [of h]]) simp_all

lemma ws_close_runs: "ws_runs_to sdk api s (snd (ws_close api i (ss_world s)))"
proof (cases "ws_registry (ss_world s)")
  case (Inl e)
  then show ?thesis by (simp add: ws_close_def ws_runs_refl)
next
  case (Inr u)
  obtain client w where un: "ws_unregister i (ss_world s) = (client, w)"
    by (cases "ws_unregister i (ss_world s)")
  note step = ws_step.ws_step_unregister [OF Inr un, of sdk api]
  show ?thesis
  proof (cases client)
    case None
    with Inr un show ?thesis by (auto simp: ws_close_def intro: ws_runs_step [OF step])
  next
    case (Some c)
    have "ws_runs_to sdk api s (ws_cancel api (wl_cancel c) w)"
      by (rule ws_runs_more [OF step]) (simp add: Some ws_cancel_runs)
    with Inr un Some show ?thesis by (simp add: ws_close_def)
  qed
qed

lemma ws_close_connection_runs: "ws_runs_to sdk api s (snd (ws_close_connection api i (ss_world s)))"
proof (cases "ws_registry (ss_world s)")
  case (Inl e)
  then show ?thesis by (simp add: ws_close_connection_def ws_runs_refl)
next
  case (Inr u)
  obtain r w where rm: "ws_remove_conn i (ss_world s) = (r, w)"
    by (cases "ws_remove_conn i (ss_world s)")
  note step = ws_step.ws_step_remove [OF Inr rm, of sdk api]
  show ?thesis
  proof (cases "Option.bind r (ww_store w)")
    case None
    with Inr rm show ?thesis by (auto simp: ws_close_connection_def intro: ws_runs_step [OF step])
  next
    case (Some c)
    have "ws_runs_to sdk api s (ws_cancel api (co_cancel c) w)"
      by (rule ws_runs_more [OF step]) (simp add: Some ws_cancel_runs)
    with Inr rm Some show ?thesis by (simp add: ws_close_connection_def)
  qed
qed

lemma ws_create_connection_runs:
  "ws_runs_to sdk api s (snd (ws_create_connection sdk api i data (ss_world s)))"
proof (cases "ws_find_client i (ss_world s)")
  case (Inl e)
  then show ?thesis by (simp add: ws_create_connection_def ws_runs_refl)
next
  case client: (Inr client)
  let ?s1 = "s\<lparr>ss_found := insert (i, client) (ss_found s)\<rparr>"
  note found = ws_step.ws_step_find [OF client, of sdk api]
  show ?thesis
  proof (cases "ws_prepare sdk data")
    case (Inl e)
    with client show ?thesis by (simp add: ws_create_connection_def ws_runs_refl)
  next
    case (Inr req)
    obtain r w where new: "ws_new_conn api i client req (ss_world s) = (r, w)"
      by (cases "ws_new_conn api i client req (ss_world s)")
    obtain res w' where add: "ws_add_conn i r w = (res, w')"
      by (cases "ws_add_conn i r w")
    let ?s2 = "?s1\<lparr>ss_world := w, ss_made := insert (i, r) (ss_made s)\<rparr>"
    have "ws_step sdk api ?s1 ?s2"
      using ws_step.ws_step_make [of i client ?s1 sdk data req api r w] Inr new by simp
    moreover have "ws_step sdk api ?s2 (?s2\<lparr>ss_world := w', ss_made := ss_made ?s2 - {(i, r)}\<rparr>)"
      by (rule ws_step.ws_step_add [of i r ?s2 res w']) (use add in simp_all)
    then have "ws_runs_to sdk api ?s2 w'"
      by (rule ws_runs_step) simp
    ultimately have "ws_runs_to sdk api s w'"
      using ws_runs_more found by blast
    then show ?thesis
      using client Inr new add by (simp add: ws_create_connection_def)
  qed
qed

lemma ws_create_runs: "ws_runs_to sdk api s (snd (ws_create sdk api data (ss_world s)))"
  by (cases "ws_create sdk api data (ss_world s)") (auto intro: ws_runs_step [OF ws_step.ws_step_create])

lemma ws_connect_runs:
  "ws_runs_to sdk api s (snd (snd (ws_connect sdk api build fire i (ss_runtime s) (ss_world s))))"
proof (cases "ws_lookup i (ss_world s)")
  case (Inr r)
  then show ?thesis
    by (cases "ws_connect_on sdk api build fire r (ss_runtime s) (ss_world s)")
       (auto simp: ws_connect_def intro: ws_runs_step [OF ws_step.ws_step_connect])
qed (simp add: ws_connect_def ws_runs_refl)

lemma ws_read_runs:
  "ws_runs_to sdk api s (snd (snd (ws_read sdk api build fire i (ss_runtime s) (ss_world s))))"
proof (cases "ws_lookup i (ss_world s)")
  case (Inr r)
  then show ?thesis
    by (cases "ws_read_on sdk api build fire r (ss_runtime s) (ss_world s)")
       (auto simp: ws_read_def intro: ws_runs_step [OF ws_step.ws_step_read])
qed (simp add: ws_read_def ws_runs_refl)

lemma ws_write_runs:
  assumes "ws_write sdk api build fire i kind data (ss_runtime s) (ss_world s) = Some (res, cell, w)"
  shows "ws_runs_to sdk api s w"
proof (cases "ws_lookup i (ss_world s)")
  case (Inl e)
  with assms show ?thesis by (auto simp: ws_write_def ws_runs_refl)
next
  case r: (Inr r)
  show ?thesis
  proof (cases "plan_write sdk kind data")
    case (Inl e)
    with assms r show ?thesis by (auto simp: ws_write_def ws_runs_refl)
  next
    case (Inr plan)
    with assms r have "ws_write_on sdk api build fire r plan (ss_runtime s) (ss_world s) = Some (res, cell, w)"
      by (simp add: ws_write_def)
    from ws_runs_step [OF ws_step.ws_step_write [OF this]] show ?thesis by simp
  qed
qed

text \<open>
  What a call of any of the seven WebSocket functions does to the state is a run of the system,
  so the properties above hold whatever sequence of them the Go side makes, from any threads.
\<close>

theorem ws_functions_run:
  "ws_runs_to sdk api s (snd (ws_create sdk api data (ss_world s)))
 \<and> ws_runs_to sdk api s (snd (ws_close api i (ss_world s)))
 \<and> ws_runs_to sdk api s (snd (ws_create_connection sdk api i data (ss_world s)))
 \<and> ws_runs_to sdk api s (snd (snd (ws_connect sdk api build fire i (ss_runtime s) (ss_world s))))
 \<and> ws_runs_to sdk api s (snd (snd (ws_read sdk api build fire i (ss_runtime s) (ss_world s))))
 \<and> (case ws_write sdk api build fire i kind data (ss_runtime s) (ss_world s) of
      None \<Rightarrow> True | Some (res, cell, w) \<Rightarrow> ws_runs_to sdk api s w)
 \<and> ws_runs_to sdk api s (snd (ws_close_connection api i (ss_world s)))"
  by (intro conjI ws_create_runs ws_close_runs ws_create_connection_runs ws_connect_runs ws_read_runs
      ws_close_connection_runs) (auto split: option.split intro: ws_write_runs)

subsection \<open>Frame sizes along a history\<close>

text \<open>No client, and so no connection, ever has a frame size of 0, on which the loop of \<open>write\<close>
  would not end.\<close>

abbreviation frame_size :: "'h ws_client \<Rightarrow> nat" where
  "frame_size c \<equiv> wc_write_frame_size (wl_config c)"

definition frames_ok :: "('t, 'c, 'k, 'h, 'n) ws_system \<Rightarrow> bool" where
  "frames_ok s \<longleftrightarrow>
     (\<forall>i c. ww_clients (ss_world s) i = Some c \<longrightarrow> 0 < frame_size c) \<and>
     (\<forall>i c. (i, c) \<in> ss_found s \<longrightarrow> 0 < frame_size c) \<and>
     (\<forall>r c. ww_store (ss_world s) r = Some c \<longrightarrow> 0 < frame_size (co_owner c))"

lemma ws_create_frames:
  assumes "ws_create sdk api data w = (res, w')" "ww_clients w' i = Some c"
  shows "ww_clients w i = Some c \<or> 0 < frame_size c"
proof (cases res)
  case (Inl e)
  with assms ws_create_failure [of sdk api data w e w'] show ?thesis by auto
next
  case (Inr out)
  obtain h t where new: "tok_new api (ww_tokens w) = (h, t)" by (cases "tok_new api (ww_tokens w)")
  from ws_create_success [OF assms(1) [unfolded Inr] new]
  obtain cfg0 cfg con j where c: "ws_check_config sdk cfg0 = Inr (cfg, con)"
    "w' = w\<lparr>ww_tokens := t, ww_next := j, ww_clients := (ww_clients w)(j \<mapsto>
         \<lparr>wl_connector = con, wl_config = cfg, wl_cancel = h\<rparr>)\<rparr>"
    by (elim exE conjE) (rule that)
  from assms(2) ws_check_config_Inr(3) [OF c(1)] show ?thesis
    unfolding c(2) by (auto split: if_splits)
qed

lemma only_conn_frames:
  assumes "only_conn r (ss_world s) w" "frames_ok s"
  shows "frames_ok (s\<lparr>ss_world := w, ss_runtime := cell\<rparr>)"
proof -
  have "0 < frame_size (co_owner c)" if "ww_store w q = Some c" for q c
  proof (cases "q = r")
    case True
    with that assms(1) obtain c0 where "ww_store (ss_world s) r = Some c0" "conn_le c0 c"
      by (auto simp: only_conn_def option_rel_Some2)
    with assms(2) show ?thesis by (auto simp: frames_ok_def conn_le_def)
  qed (use that assms in \<open>simp add: only_conn_def frames_ok_def\<close>)
  with assms show ?thesis by (simp add: only_conn_def frames_ok_def)
qed

lemma ws_step_frames:
  assumes "ws_step sdk api s s'" "frames_ok s"
  shows "frames_ok s'"
  using assms
proof (induction rule: ws_step.induct)
  case (ws_step_create data s res w)
  then show ?case
    using ws_create_frames [OF ws_step_create(1)] ws_create_store [OF ws_step_create(1)]
    by (auto simp: frames_ok_def)
next
  case (ws_step_find i s client)
  then show ?case by (auto simp: frames_ok_def ws_find_client_Inr_iff)
next
  case (ws_step_make i client s data req r w)
  then show ?case
    by (auto simp: frames_ok_def ws_new_conn_def split: prod.splits if_splits)
next
  case (ws_step_add i r s res w)
  then have "ww_store w = ww_store (ss_world s) \<and> ww_clients w = ww_clients (ss_world s)"
    by (auto simp: ws_add_conn_def ws_next_def split: sum.splits if_splits prod.splits option.splits)
  with ws_step_add show ?case by (simp add: frames_ok_def)
next
  case (ws_step_connect build fire r s res cell w)
  then show ?case using only_conn_frames [OF connect_on_only_conn] by blast
next
  case (ws_step_read build fire r s res cell w)
  then show ?case using only_conn_frames [OF read_on_only_conn] by blast
next
  case (ws_step_write build fire r plan s res cell w)
  then show ?case using only_conn_frames [OF write_on_only_conn] by blast
qed (auto simp: frames_ok_def ws_unregister_def ws_remove_conn_def ws_cancel_def split: if_splits)

lemma ws_history_frames: "(ws_step sdk api)\<^sup>*\<^sup>* (ws_init n t) s \<Longrightarrow> frames_ok s"
proof (induction rule: rtranclp_induct)
  case base
  then show ?case by (simp add: frames_ok_def ws_init_def ws_empty_def)
next
  case (step s1 s2)
  then show ?case using ws_step_frames by blast
qed

text \<open>So a write returns.\<close>

lemma ws_write_on_returns:
  assumes "\<And>c. ww_store w r = Some c \<Longrightarrow> 0 < frame_size (co_owner c)"
  shows "ws_write_on sdk api build fire r plan cell w \<noteq> None"
proof -
  have "ws_write_task sdk fire plan c \<noteq> None" if "ww_store w r = Some c" for c
    using send_fragments_returns [where sdk = sdk and offset = 0, OF assms [OF that] _ refl]
    by (cases plan) (simp_all add: ws_write_task_def ws_send_data_def del: not_None_eq)
  then show ?thesis
    by (simp add: ws_write_on_def del: not_None_eq split: option.split)
qed

lemma ws_write_returns:
  assumes "frames_ok s"
  shows "ws_write sdk api build fire i kind data cell (ss_world s) \<noteq> None"
proof -
  have "ws_write_on sdk api build fire r plan cell (ss_world s) \<noteq> None" for r plan
    by (rule ws_write_on_returns) (use assms in \<open>auto simp: frames_ok_def\<close>)
  then show ?thesis by (simp add: ws_write_def del: not_None_eq split: sum.split)
qed

end
