(* ===== verification/Bridge_Abi.thy ===== *)
theory Bridge_Abi
  imports Http_System Ws_System
begin

text \<open>
  The exported functions of \<open>rust/src/lib.rs\<close>: each borrows its inputs, runs its Rust function on
  the process state and hands the outcome out as an \<open>FfiResult\<close>. The state is the two registries,
  the shared runtime and the heap behind the buffers.
\<close>

subsection \<open>State and environment\<close>

record ('t, 'c, 'k, 'h, 'n, 'm) bridge =
  br_http :: "('t, 'h, 'n) http_world"
  br_ws :: "('t, 'c, 'k, 'h, 'm) ws_world"
  br_runtime :: runtime_cell
  br_heap :: rust_heap

text \<open>What the calls depend on besides the state: the crates, the result of building a runtime, the
  serialiser, and the await at which the call would be cancelled.\<close>

record ('t, 'c, 'k, 'h, 'n, 'm) bridge_env =
  en_http :: "'n http_sdk"
  en_ws :: "('c, 'k, 'm) ws_sdk"
  en_tokens :: "('t, 'h) token_api"
  en_build :: "string + unit"
  en_to_vec :: "bridge_error \<Rightarrow> string + bytes"
  en_fire :: "nat option"

text \<open>The closures passed to \<open>ffi\<close>. \<open>None\<close> is a caller breaking the contract of an input, or a
  call that does not return.\<close>

type_synonym ('t, 'c, 'k, 'h, 'n, 'm) closure =
  "('t, 'c, 'k, 'h, 'n, 'm) bridge \<Rightarrow> (call_result \<times> ('t, 'c, 'k, 'h, 'n, 'm) bridge) option"

definition with_input ::
  "foreign_ptr \<Rightarrow> nat \<Rightarrow> (bytes \<Rightarrow> ('t, 'c, 'k, 'h, 'n, 'm) closure) \<Rightarrow> ('t, 'c, 'k, 'h, 'n, 'm) closure" where
  "with_input p len f b =
     (case input_buffer p len of
        None \<Rightarrow> None
      | Some (Inl e) \<Rightarrow> Some (Inl e, b)
      | Some (Inr bs) \<Rightarrow> f bs b)"

definition http_call ::
  "(('t, 'h, 'n) http_world \<Rightarrow> call_result \<times> ('t, 'h, 'n) http_world) \<Rightarrow>
     ('t, 'c, 'k, 'h, 'n, 'm) closure" where
  "http_call f b = (let (r, w) = f (br_http b) in Some (r, b\<lparr>br_http := w\<rparr>))"

definition http_task ::
  "(runtime_cell \<Rightarrow> ('t, 'h, 'n) http_world \<Rightarrow> call_result \<times> runtime_cell \<times> ('t, 'h, 'n) http_world) \<Rightarrow>
     ('t, 'c, 'k, 'h, 'n, 'm) closure" where
  "http_task f b =
     (let (r, cell, w) = f (br_runtime b) (br_http b) in Some (r, b\<lparr>br_http := w, br_runtime := cell\<rparr>))"

definition ws_call ::
  "(('t, 'c, 'k, 'h, 'm) ws_world \<Rightarrow> call_result \<times> ('t, 'c, 'k, 'h, 'm) ws_world) \<Rightarrow>
     ('t, 'c, 'k, 'h, 'n, 'm) closure" where
  "ws_call f b = (let (r, w) = f (br_ws b) in Some (r, b\<lparr>br_ws := w\<rparr>))"

definition ws_task ::
  "(runtime_cell \<Rightarrow> ('t, 'c, 'k, 'h, 'm) ws_world \<Rightarrow>
      (call_result \<times> runtime_cell \<times> ('t, 'c, 'k, 'h, 'm) ws_world) option) \<Rightarrow>
     ('t, 'c, 'k, 'h, 'n, 'm) closure" where
  "ws_task f b =
     (case f (br_runtime b) (br_ws b) of
        None \<Rightarrow> None
      | Some (r, cell, w) \<Rightarrow> Some (r, b\<lparr>br_ws := w, br_runtime := cell\<rparr>))"

subsection \<open>The exported functions\<close>

definition gocodex_http_client_new where
  "gocodex_http_client_new env config len =
     with_input config len (\<lambda>data. http_task (http_create (en_http env) (en_tokens env) (en_build env) data))"

definition gocodex_http_client_close where
  "gocodex_http_client_close env i = http_call (http_close (en_tokens env) i)"

definition gocodex_http_request_new where
  "gocodex_http_request_new env i metadata metadata_len body body_len =
     with_input metadata metadata_len (\<lambda>m. with_input body body_len (\<lambda>d.
       http_call (http_create_request (en_http env) (en_tokens env) i m d)))"

definition gocodex_http_request_send where
  "gocodex_http_request_send env i =
     http_task (http_send (en_http env) (en_tokens env) (en_build env) (en_fire env) i)"

definition gocodex_http_response_read where
  "gocodex_http_response_read env i max_len =
     http_task (http_read (en_tokens env) (en_build env) (en_fire env) i max_len)"

definition gocodex_http_request_close where
  "gocodex_http_request_close env i = http_call (http_close_request (en_tokens env) i)"

definition gocodex_ws_client_new where
  "gocodex_ws_client_new env config len =
     with_input config len (\<lambda>data. ws_call (ws_create (en_ws env) (en_tokens env) data))"

definition gocodex_ws_client_close where
  "gocodex_ws_client_close env i = ws_call (ws_close (en_tokens env) i)"

definition gocodex_ws_connection_new where
  "gocodex_ws_connection_new env i metadata len =
     with_input metadata len (\<lambda>data. ws_call (ws_create_connection (en_ws env) (en_tokens env) i data))"

definition gocodex_ws_connect where
  "gocodex_ws_connect env i =
     ws_task (\<lambda>cell w. Some (ws_connect (en_ws env) (en_tokens env) (en_build env) (en_fire env) i cell w))"

definition gocodex_ws_read where
  "gocodex_ws_read env i =
     ws_task (\<lambda>cell w. Some (ws_read (en_ws env) (en_tokens env) (en_build env) (en_fire env) i cell w))"

definition gocodex_ws_write where
  "gocodex_ws_write env i kind data len =
     with_input data len (\<lambda>d.
       ws_task (ws_write (en_ws env) (en_tokens env) (en_build env) (en_fire env) i kind d))"

definition gocodex_ws_connection_close where
  "gocodex_ws_connection_close env i = ws_call (ws_close_connection (en_tokens env) i)"

text \<open>The package version, as a C string; \<open>version\<close> is what Cargo passes to the compiler.\<close>

definition gocodex_bridge_version :: "string \<Rightarrow> bytes" where
  "gocodex_bridge_version version = ascii version @ [0]"

subsection \<open>Any one of them\<close>

datatype abi_call =
    HttpClientNew foreign_ptr nat
  | HttpClientClose u64
  | HttpRequestNew u64 foreign_ptr nat foreign_ptr nat
  | HttpRequestSend u64
  | HttpResponseRead u64 nat
  | HttpRequestClose u64
  | WsClientNew foreign_ptr nat
  | WsClientClose u64
  | WsConnectionNew u64 foreign_ptr nat
  | WsConnect u64
  | WsRead u64
  | WsWrite u64 u8 foreign_ptr nat
  | WsConnectionClose u64

fun abi_closure ::
  "('t, 'c, 'k, 'h, 'n, 'm) bridge_env \<Rightarrow> abi_call \<Rightarrow> ('t, 'c, 'k, 'h, 'n, 'm) closure" where
  "abi_closure env (HttpClientNew p len) = gocodex_http_client_new env p len"
| "abi_closure env (HttpClientClose i) = gocodex_http_client_close env i"
| "abi_closure env (HttpRequestNew i p len q n) = gocodex_http_request_new env i p len q n"
| "abi_closure env (HttpRequestSend i) = gocodex_http_request_send env i"
| "abi_closure env (HttpResponseRead i n) = gocodex_http_response_read env i n"
| "abi_closure env (HttpRequestClose i) = gocodex_http_request_close env i"
| "abi_closure env (WsClientNew p len) = gocodex_ws_client_new env p len"
| "abi_closure env (WsClientClose i) = gocodex_ws_client_close env i"
| "abi_closure env (WsConnectionNew i p len) = gocodex_ws_connection_new env i p len"
| "abi_closure env (WsConnect i) = gocodex_ws_connect env i"
| "abi_closure env (WsRead i) = gocodex_ws_read env i"
| "abi_closure env (WsWrite i kind p len) = gocodex_ws_write env i kind p len"
| "abi_closure env (WsConnectionClose i) = gocodex_ws_connection_close env i"

text \<open>The call as the caller sees it: the closure under \<open>ffi\<close>.\<close>

definition abi_invoke ::
  "('t, 'c, 'k, 'h, 'n, 'm) bridge_env \<Rightarrow> abi_call \<Rightarrow> ('t, 'c, 'k, 'h, 'n, 'm) bridge \<Rightarrow>
     (ffi_result \<times> ('t, 'c, 'k, 'h, 'n, 'm) bridge) option" where
  "abi_invoke env call b =
     Option.bind (abi_closure env call b) (\<lambda>(r, b1).
       Option.bind (ffi (en_to_vec env) (Returned r) (br_heap b1)) (\<lambda>(res, h).
         Some (res, b1\<lparr>br_heap := h\<rparr>)))"

fun call_inputs :: "abi_call \<Rightarrow> (foreign_ptr \<times> nat) list" where
  "call_inputs (HttpClientNew p len) = [(p, len)]"
| "call_inputs (HttpRequestNew i p len q n) = [(p, len), (q, n)]"
| "call_inputs (WsClientNew p len) = [(p, len)]"
| "call_inputs (WsConnectionNew i p len) = [(p, len)]"
| "call_inputs (WsWrite i kind p len) = [(p, len)]"
| "call_inputs _ = []"

fun on_http :: "abi_call \<Rightarrow> bool" where
  "on_http (HttpClientNew p len) = True"
| "on_http (HttpClientClose i) = True"
| "on_http (HttpRequestNew i p len q n) = True"
| "on_http (HttpRequestSend i) = True"
| "on_http (HttpResponseRead i n) = True"
| "on_http (HttpRequestClose i) = True"
| "on_http _ = False"

subsection \<open>Properties of the exported functions\<close>

lemma with_input_refused:
  "refused_input p len \<Longrightarrow> with_input p len f b = Some (Inl (invalid ''invalid input buffer''), b)"
  by (simp add: with_input_def input_buffer_refused)

lemma with_input_accepted:
  assumes "caller_contract p len" "\<not> refused_input p len"
  obtains bs where "with_input p len f b = f bs b"
  using input_buffer_accepted [OF assms] that by (auto simp: with_input_def)

text \<open>How far a closure reaches: it returns, leaves the heap alone, and touches one registry.\<close>

definition closure_ok :: "bool \<Rightarrow> ('t, 'c, 'k, 'h, 'n, 'm) closure \<Rightarrow> ('t, 'c, 'k, 'h, 'n, 'm) bridge \<Rightarrow> bool" where
  "closure_ok http f b \<longleftrightarrow>
     (\<exists>r b1. f b = Some (r, b1) \<and> br_heap b1 = br_heap b \<and>
        (if http then br_ws b1 = br_ws b else br_http b1 = br_http b))"

lemma closure_ok_intros:
  "closure_ok True (http_call g) b" "closure_ok True (http_task h) b" "closure_ok False (ws_call k) b"
  "l (br_runtime b) (br_ws b) \<noteq> None \<Longrightarrow> closure_ok False (ws_task l) b"
  by (auto simp: closure_ok_def http_call_def http_task_def ws_call_def ws_task_def split: prod.split)

lemma closure_ok_input:
  assumes "caller_contract p len" "\<And>bs. closure_ok http (f bs) b"
  shows "closure_ok http (with_input p len f) b"
proof (cases "refused_input p len")
  case True
  then show ?thesis by (auto simp: closure_ok_def with_input_refused)
next
  case False
  from with_input_accepted [OF assms(1) this, of f b] obtain bs where "with_input p len f b = f bs b" .
  with assms(2) [of bs] show ?thesis by (simp add: closure_ok_def)
qed

lemmas exported_defs =
  gocodex_http_client_new_def gocodex_http_client_close_def gocodex_http_request_new_def
  gocodex_http_request_send_def gocodex_http_response_read_def gocodex_http_request_close_def
  gocodex_ws_client_new_def gocodex_ws_client_close_def gocodex_ws_connection_new_def
  gocodex_ws_connect_def gocodex_ws_read_def gocodex_ws_write_def gocodex_ws_connection_close_def

lemma abi_closure_ok:
  assumes "frames_ok s" "br_ws b = ss_world s"
    and "list_all (\<lambda>(p, len). caller_contract p len) (call_inputs call)"
  shows "closure_ok (on_http call) (abi_closure env call) b"
proof -
  have w: "\<exists>r cell w. ws_write (en_ws env) (en_tokens env) (en_build env) (en_fire env) i kind data
      (br_runtime b) (ss_world s) = Some (r, cell, w)" for i kind data
  proof (cases "ws_write (en_ws env) (en_tokens env) (en_build env) (en_fire env) i kind data
      (br_runtime b) (ss_world s)")
    case None
    with ws_write_returns [OF assms(1)] show ?thesis by blast
  next
    case (Some x)
    then show ?thesis by (cases x) simp
  qed
  show ?thesis
    using assms(2,3) w
    by (cases call) (auto simp: exported_defs intro!: closure_ok_intros closure_ok_input)
qed

lemma abi_closure_refused:
  assumes "list_all (\<lambda>(p, len). caller_contract p len) (call_inputs call)"
    and "list_ex (\<lambda>(p, len). refused_input p len) (call_inputs call)"
  shows "abi_closure env call b = Some (Inl (invalid ''invalid input buffer''), b)"
proof (cases call)
  case (HttpRequestNew i p len q n)
  show ?thesis
  proof (cases "refused_input p len")
    case False
    from assms(1) HttpRequestNew have "caller_contract p len" by simp
    then obtain bs where "input_buffer p len = Some (Inr bs)"
      using input_buffer_accepted [OF _ False] by blast
    with False HttpRequestNew assms(2) show ?thesis
      by (simp add: exported_defs with_input_def input_buffer_refused)
  qed (simp add: HttpRequestNew exported_defs with_input_refused)
qed (use assms in \<open>simp_all add: exported_defs with_input_refused\<close>)

text \<open>
  C12. Every exported function, called within its documented contract in any state the WebSocket
  registry can be in, under any interleaving: the call returns; it touches no registry but its own;
  a null or oversized input is \<open>invalid_input\<close> and changes nothing at all; and its outcome reaches
  Go through \<open>takeResult\<close> as it is, with every byte of the result freed.
\<close>

theorem abi_calls_return:
  assumes "(ws_step (en_ws env) (en_tokens env))\<^sup>*\<^sup>* (ws_init n t) s" "br_ws b = ss_world s"
    and "list_all (\<lambda>(p, len). caller_contract p len) (call_inputs call)" "heap_ok (br_heap b)"
  shows "\<exists>r b1. abi_closure env call b = Some (r, b1) \<and>
      (if on_http call then br_ws b1 = br_ws b else br_http b1 = br_http b) \<and>
      (list_ex (\<lambda>(p, len). refused_input p len) (call_inputs call) \<longrightarrow>
         r = Inl (invalid ''invalid input buffer'') \<and> b1 = b) \<and>
      (outcome_fits (en_to_vec env) unmarshal (Returned r) \<longrightarrow>
         (\<exists>res h1 h2. abi_invoke env call b = Some (res, b1\<lparr>br_heap := h1\<rparr>) \<and>
            take_result unmarshal res h1 = Some (go_view (en_to_vec env) (Returned r), h2) \<and>
            live h2 = live (br_heap b) \<and> heap_ok h2))"
proof -
  from abi_closure_ok [OF ws_history_frames [OF assms(1)] assms(2,3), of env]
  obtain r b1 where c: "abi_closure env call b = Some (r, b1)" "br_heap b1 = br_heap b"
    "if on_http call then br_ws b1 = br_ws b else br_http b1 = br_http b"
    unfolding closure_ok_def by blast
  have "\<exists>res h1 h2. abi_invoke env call b = Some (res, b1\<lparr>br_heap := h1\<rparr>) \<and>
            take_result unmarshal res h1 = Some (go_view (en_to_vec env) (Returned r), h2) \<and>
            live h2 = live (br_heap b) \<and> heap_ok h2"
    if "outcome_fits (en_to_vec env) unmarshal (Returned r)"
  proof -
    from ffi_taken [OF that assms(4)] obtain res h1 h2 where
      "ffi (en_to_vec env) (Returned r) (br_heap b) = Some (res, h1)"
      "take_result unmarshal res h1 = Some (go_view (en_to_vec env) (Returned r), h2)"
      "live h2 = live (br_heap b)" "heap_ok h2" by blast
    moreover from this(1) c(1,2) have "abi_invoke env call b = Some (res, b1\<lparr>br_heap := h1\<rparr>)"
      by (simp add: abi_invoke_def)
    ultimately show ?thesis by blast
  qed
  moreover have "r = Inl (invalid ''invalid input buffer'') \<and> b1 = b"
    if "list_ex (\<lambda>(p, len). refused_input p len) (call_inputs call)"
    using abi_closure_refused [OF assms(3) that, of env b] c(1) by simp
  ultimately show ?thesis using c by blast
qed

definition sample_env :: "(token_list, u16, u16 message list, nat, nat \<times> response list, nat) bridge_env" where
  "sample_env =
     \<lparr>en_http = sample_sdk, en_ws = sample_ws, en_tokens = list_tokens, en_build = Inr (),
      en_to_vec = (\<lambda>e. Inr []), en_fire = None\<rparr>"

definition sample_bridge :: "(token_list, u16, u16 message list, nat, nat \<times> response list, nat) bridge" where
  "sample_bridge =
     \<lparr>br_http = hs_world sample_live, br_ws = ss_world sample_joined, br_runtime = Some (Inr ()),
      br_heap = empty_heap\<rparr>"

theorem abi_calls_return_witness:
  "abi_closure sample_env (WsWrite 2 1 NullPtr 3) sample_bridge =
     Some (Inl (invalid ''invalid input buffer''), sample_bridge) \<and>
   (\<exists>r b1. abi_closure sample_env (WsConnect 2) sample_bridge = Some (r, b1) \<and> br_http b1 = hs_world sample_live)"
proof
  have h: "(ws_step (en_ws sample_env) (en_tokens sample_env))\<^sup>*\<^sup>* (ws_init 0 []) sample_joined"
    using sample_joined_history by (simp add: sample_env_def)
  have w: "br_ws sample_bridge = ss_world sample_joined" "heap_ok (br_heap sample_bridge)"
    by (simp_all add: sample_bridge_def heap_ok_empty)
  show "abi_closure sample_env (WsWrite 2 1 NullPtr 3) sample_bridge =
     Some (Inl (invalid ''invalid input buffer''), sample_bridge)"
    using abi_calls_return [OF h w(1) _ w(2), of "WsWrite 2 1 NullPtr 3" "\<lambda>_. None"]
    by (auto simp: caller_contract_def refused_input_def)
  show "\<exists>r b1. abi_closure sample_env (WsConnect 2) sample_bridge = Some (r, b1) \<and> br_http b1 = hs_world sample_live"
  proof -
    have "list_all (\<lambda>(p, len). caller_contract p len) (call_inputs (WsConnect 2))" by simp
    from abi_calls_return [OF h w(1) this w(2), of "\<lambda>_. None"]
    obtain r b1 where "abi_closure sample_env (WsConnect 2) sample_bridge = Some (r, b1)"
      "br_http b1 = br_http sample_bridge" by auto
    then show ?thesis by (simp add: sample_bridge_def)
  qed
qed

end
