(* ===== verification/Build_Script.thy ===== *)
theory Build_Script
  imports Bridge_Prelude
begin

text \<open>
  The build script \<open>build.rs\<close>: it reads the pinned WebSocket SDK and writes an adapted copy of three
  of its files into the output directory. Files are their texts by path; a script that panics has
  written what it had written by then.
\<close>

subsection \<open>str::replace and str::matches\<close>

text \<open>From the left, without overlaps; the script's patterns are not empty.\<close>

function str_replace :: "string \<Rightarrow> string \<Rightarrow> string \<Rightarrow> string" where
  "str_replace pat to s =
     (if s = [] \<or> pat = [] then s
      else if take (length pat) s = pat then to @ str_replace pat to (drop (length pat) s)
      else hd s # str_replace pat to (tl s))"
  by pat_completeness auto
termination
  by (relation "measure (\<lambda>(pat, to, s). length s)") (auto simp: length_greater_0_conv [symmetric] simp del: length_greater_0_conv)

function match_count :: "string \<Rightarrow> string \<Rightarrow> nat" where
  "match_count pat s =
     (if s = [] \<or> pat = [] then 0
      else if take (length pat) s = pat then Suc (match_count pat (drop (length pat) s))
      else match_count pat (tl s))"
  by pat_completeness auto
termination
  by (relation "measure (\<lambda>(pat, s). length s)") (auto simp: length_greater_0_conv [symmetric] simp del: length_greater_0_conv)

declare str_replace.simps [simp del] match_count.simps [simp del]

lemma replace_no_match: "match_count pat s = 0 \<Longrightarrow> str_replace pat to s = s"
proof (induction pat to s rule: str_replace.induct)
  case (1 pat to s)
  then show ?case
    by (subst str_replace.simps, subst (asm) (2) match_count.simps) (auto split: if_splits)
qed

text \<open>Replacing the only match.\<close>

lemma replace_one_match:
  "match_count pat s = 1 \<Longrightarrow>
     \<exists>a b. s = a @ pat @ b \<and> str_replace pat to s = a @ to @ b \<and> match_count pat b = 0"
proof (induction pat to s rule: str_replace.induct)
  case (1 pat to s)
  have ne: "s \<noteq> []" "pat \<noteq> []"
    using "1.prems" by (auto simp: match_count.simps [of pat s] split: if_splits)
  show ?case
  proof (cases "take (length pat) s = pat")
    case True
    have zero: "match_count pat (drop (length pat) s) = 0"
      using "1.prems" ne True by (simp add: match_count.simps [of pat s])
    have "s = [] @ pat @ drop (length pat) s"
      using True by (metis append_Nil append_take_drop_id)
    moreover have "str_replace pat to s = [] @ to @ drop (length pat) s"
      using ne True replace_no_match [OF zero] by (simp add: str_replace.simps [of pat to s])
    ultimately show ?thesis using zero by blast
  next
    case False
    then have "match_count pat (tl s) = 1"
      using "1.prems" ne by (simp add: match_count.simps [of pat s])
    with "1.IH"(2) ne False obtain a b where ab: "tl s = a @ pat @ b"
      "str_replace pat to (tl s) = a @ to @ b" "match_count pat b = 0" by blast
    have "s = (hd s # a) @ pat @ b" using ne(1) ab(1) by (metis append_Cons list.collapse)
    moreover have "str_replace pat to s = (hd s # a) @ to @ b"
      using ne False ab(2) by (simp add: str_replace.simps [of pat to s])
    ultimately show ?thesis using ab(3) by blast
  qed
qed

subsection \<open>The script\<close>

type_synonym files = "string \<Rightarrow> string option"

text \<open>\<open>Path::join\<close> with a relative path.\<close>

definition path_join :: "string \<Rightarrow> string \<Rightarrow> string" where
  "path_join p q = (if p = [] \<or> last p = CHR ''/'' then p @ q else p @ ''/'' @ q)"

text \<open>The environment variables, whether a path can be written, and how \<open>{:?}\<close> shows a path.\<close>

record build_env =
  cargo_manifest_dir :: "string option"
  out_dir :: "string option"
  can_write :: "string \<Rightarrow> bool"
  show_path :: "string \<Rightarrow> string"

definition sdk_dir :: "string \<Rightarrow> string" where
  "sdk_dir manifest = path_join manifest ''codex/codex-rs/websocket-client/src''"

definition private_route :: string where
  "private_route = ''    async fn connect_with_route(''"

definition bridge_route :: string where
  "bridge_route = ''    pub(crate) async fn connect_with_route(''"

definition path_attribute :: "string \<Rightarrow> string" where
  "path_attribute p = ''#[path = '' @ p @ '']''"

text \<open>A file name as it stands in the SDK's own attributes, in double quotes.\<close>

definition quoted :: "string \<Rightarrow> string" where
  "quoted s = CHR 0x22 # s @ [CHR 0x22]"

text \<open>The test-only module path, and where the dialer finds its tests.\<close>

definition adapt_tests :: "string \<Rightarrow> string" where
  "adapt_tests = str_replace ''dialer::tests::'' ''websocket_sdk::dialer::tests::''"

definition adapt_dialer :: "build_env \<Rightarrow> string \<Rightarrow> string \<Rightarrow> string" where
  "adapt_dialer env out =
     str_replace (path_attribute (quoted ''dialer_tests.rs''))
       (path_attribute (show_path env (path_join out ''dialer_tests.rs'')))"

text \<open>What happens to the SDK's root module after its route function has become visible.\<close>

definition retarget :: "build_env \<Rightarrow> string \<Rightarrow> string \<Rightarrow> string \<Rightarrow> string" where
  "retarget env sdk out source =
     (let s1 = str_replace ''//!'' ''//'' source;
          s2 = str_replace ''mod dialer;''
                 (path_attribute (show_path env (path_join out ''dialer.rs'')) @ CHR 0x0A # ''mod dialer;'') s1
      in foldl (\<lambda>s file. str_replace (path_attribute (quoted file))
                           (path_attribute (show_path env (path_join sdk file))) s)
           s2 [''lib_tests.rs'', ''cookie_tests.rs''])"

datatype build_result = Built | BuildPanicked

text \<open>Reading a missing file and failing to write one are panics of \<open>unwrap\<close>.\<close>

definition write_file ::
  "build_env \<Rightarrow> string \<Rightarrow> string \<Rightarrow> (files \<Rightarrow> build_result \<times> files) \<Rightarrow> files \<Rightarrow> build_result \<times> files" where
  "write_file env p text cont fs =
     (if can_write env p then cont (fs(p \<mapsto> text)) else (BuildPanicked, fs))"

definition read_file ::
  "string \<Rightarrow> (string \<Rightarrow> files \<Rightarrow> build_result \<times> files) \<Rightarrow> files \<Rightarrow> build_result \<times> files" where
  "read_file p cont fs = (case fs p of None \<Rightarrow> (BuildPanicked, fs) | Some text \<Rightarrow> cont text fs)"

definition write_root ::
  "build_env \<Rightarrow> string \<Rightarrow> string \<Rightarrow> string \<Rightarrow> files \<Rightarrow> build_result \<times> files" where
  "write_root env sdk out source fs =
     (if match_count private_route source \<noteq> 1 then (BuildPanicked, fs)
      else
        write_file env (path_join out ''websocket_sdk.rs'')
          (retarget env sdk out (str_replace private_route bridge_route source)) (Pair Built) fs)"

definition build_main :: "build_env \<Rightarrow> files \<Rightarrow> build_result \<times> files" where
  "build_main env fs =
     (case cargo_manifest_dir env of
        None \<Rightarrow> (BuildPanicked, fs)
      | Some manifest \<Rightarrow>
          (case out_dir env of
             None \<Rightarrow> (BuildPanicked, fs)
           | Some out \<Rightarrow>
               (let sdk = sdk_dir manifest
                in read_file (path_join sdk ''dialer_tests.rs'') (\<lambda>tests.
                   write_file env (path_join out ''dialer_tests.rs'') (adapt_tests tests)
                   (read_file (path_join sdk ''dialer.rs'') (\<lambda>dialer.
                    write_file env (path_join out ''dialer.rs'') (adapt_dialer env out dialer)
                    (read_file (path_join sdk ''lib.rs'') (write_root env sdk out))))) fs)))"

subsection \<open>Its property\<close>

definition build_outputs :: "string \<Rightarrow> string set" where
  "build_outputs out = {path_join out ''dialer_tests.rs'', path_join out ''dialer.rs'', path_join out ''websocket_sdk.rs''}"

lemma path_join_inject: "path_join p q = path_join p q' \<longleftrightarrow> q = q'"
  by (simp add: path_join_def)

lemma write_file_cases:
  assumes "write_file env p text cont fs = (r, fs')"
  obtains (failed) "r = BuildPanicked" "fs' = fs"
    | (written) "can_write env p" "cont (fs(p \<mapsto> text)) = (r, fs')"
  using assms by (auto simp: write_file_def split: if_splits)

lemma read_file_cases:
  assumes "read_file p cont fs = (r, fs')"
  obtains (missing) "r = BuildPanicked" "fs' = fs"
    | (found) content where "fs p = Some content" "cont content fs = (r, fs')"
  using assms by (auto simp: read_file_def split: option.splits)

text \<open>The last part of the script, on the root module.\<close>

lemma write_root_result:
  assumes "write_root env sdk out source fs = (r, fs')"
  shows "(r = BuildPanicked \<and> fs' = fs) \<or>
     (\<exists>a b. r = Built \<and> match_count private_route source = 1 \<and> source = a @ private_route @ b \<and>
        fs' = fs(path_join out ''websocket_sdk.rs'' \<mapsto> retarget env sdk out (a @ bridge_route @ b)))"
proof (cases "match_count private_route source = 1")
  case True
  from replace_one_match [OF this, of bridge_route] obtain a b where
    "source = a @ private_route @ b" "str_replace private_route bridge_route source = a @ bridge_route @ b"
    by blast
  with True assms show ?thesis
    by (auto simp: write_root_def write_file_def split: if_splits)
qed (use assms in \<open>simp add: write_root_def\<close>)

text \<open>
  C40. The build script writes nothing but its three files in the output directory, so the SDK's
  checkout stays as it is; it only gets as far as the adapted root module if the SDK declares the
  route function in exactly one place, and panics without touching that module otherwise; and the
  module it writes comes from the SDK's by making that one declaration visible, then adapting
  documentation comments and path attributes.
\<close>

theorem build_main_spec:
  assumes "cargo_manifest_dir env = Some manifest" "out_dir env = Some out"
    and "path_join (sdk_dir manifest) ''lib.rs'' \<notin> build_outputs out"
    and "build_main env fs = (r, fs')"
  shows "(\<forall>p. p \<in> build_outputs out \<or> fs' p = fs p) \<and>
    (case r of
       BuildPanicked \<Rightarrow> fs' (path_join out ''websocket_sdk.rs'') = fs (path_join out ''websocket_sdk.rs'')
     | Built \<Rightarrow> (\<exists>a b. fs (path_join (sdk_dir manifest) ''lib.rs'') = Some (a @ private_route @ b) \<and>
         match_count private_route (a @ private_route @ b) = 1 \<and>
         fs' (path_join out ''websocket_sdk.rs'') =
           Some (retarget env (sdk_dir manifest) out (a @ bridge_route @ b))))"
proof -
  let ?sdk = "sdk_dir manifest"
  let ?root = "path_join out ''websocket_sdk.rs''"
  have distinct: "path_join out ''dialer_tests.rs'' \<noteq> ?root" "path_join out ''dialer.rs'' \<noteq> ?root"
    by (simp_all add: path_join_inject)
  have outs: "?root \<in> build_outputs out" "path_join out ''dialer_tests.rs'' \<in> build_outputs out"
    "path_join out ''dialer.rs'' \<in> build_outputs out" by (simp_all add: build_outputs_def)
  have last: ?thesis
    if "write_root env ?sdk out source g = (r, fs')" "g (path_join ?sdk ''lib.rs'') = Some source"
      "\<And>p. p = ?root \<or> p \<notin> build_outputs out \<Longrightarrow> g p = fs p" for source g
    using write_root_result [OF that(1)] that(2) that(3) [of ?root] that(3) assms(3) outs(1)
    by (cases r) (auto, metis+)
  have early: ?thesis if "r = BuildPanicked" "\<And>p. p = ?root \<or> p \<notin> build_outputs out \<Longrightarrow> fs' p = fs p"
    using that by auto
  let ?tests = "path_join out ''dialer_tests.rs''" and ?dialer = "path_join out ''dialer.rs''"
  from assms(1,2,4) have "read_file (path_join ?sdk ''dialer_tests.rs'') (\<lambda>tests.
      write_file env ?tests (adapt_tests tests) (read_file (path_join ?sdk ''dialer.rs'') (\<lambda>dialer.
        write_file env ?dialer (adapt_dialer env out dialer)
          (read_file (path_join ?sdk ''lib.rs'') (write_root env ?sdk out))))) fs = (r, fs')"
    by (simp add: build_main_def Let_def)
  then show ?thesis
  proof (cases rule: read_file_cases)
    case (found tests)
    from found(2) show ?thesis
    proof (cases rule: write_file_cases)
      case written1: written
      from written1(2) show ?thesis
      proof (cases rule: read_file_cases)
        case (found dialer)
        from found(2) show ?thesis
        proof (cases rule: write_file_cases)
          case written
          from written(2) show ?thesis
          proof (cases rule: read_file_cases)
            case (found source)
            show ?thesis
              by (rule last [OF found(2,1)]) (use distinct outs in auto)
          qed (rule early, use distinct outs in auto)
        qed (rule early, use distinct outs in auto)
      qed (rule early, use distinct outs in auto)
    qed (rule early, auto)
  qed (rule early, auto)
qed

definition sample_build :: build_env where
  "sample_build =
     \<lparr>cargo_manifest_dir = Some ''m'', out_dir = Some ''o'', can_write = (\<lambda>p. True), show_path = quoted\<rparr>"

definition sample_files :: files where
  "sample_files p =
     (if p = ''m/codex/codex-rs/websocket-client/src/lib.rs'' then Some ''//!    async fn connect_with_route(''
      else Some [])"

theorem build_main_spec_witness:
  "fst (build_main sample_build sample_files) = Built \<and>
   snd (build_main sample_build sample_files) ''m/codex/codex-rs/websocket-client/src/lib.rs'' =
     Some ''//!    async fn connect_with_route('' \<and>
   snd (build_main sample_build sample_files) ''o/websocket_sdk.rs'' =
     Some ''//    pub(crate) async fn connect_with_route(''"
proof -
  have e: "cargo_manifest_dir sample_build = Some ''m''" "out_dir sample_build = Some ''o''"
    by (simp_all add: sample_build_def)
  have l: "path_join (sdk_dir ''m'') ''lib.rs'' \<notin> build_outputs ''o''"
    by code_simp
  let ?lib = "''m/codex/codex-rs/websocket-client/src/lib.rs''"
  have other: "?lib \<notin> build_outputs ''o''"
    by code_simp
  from build_main_spec [OF e l prod.collapse [symmetric, of "build_main sample_build sample_files"]]
  have "\<forall>p. p \<in> build_outputs ''o'' \<or> snd (build_main sample_build sample_files) p = sample_files p"
    by (rule conjunct1)
  with other have "snd (build_main sample_build sample_files) ?lib = sample_files ?lib" by blast
  then have "snd (build_main sample_build sample_files) ''m/codex/codex-rs/websocket-client/src/lib.rs'' =
     Some ''//!    async fn connect_with_route(''"
    by (simp add: sample_files_def)
  moreover have "fst (build_main sample_build sample_files) = Built"
    by code_simp
  moreover have "snd (build_main sample_build sample_files) ''o/websocket_sdk.rs'' =
     Some ''//    pub(crate) async fn connect_with_route(''"
    by code_simp
  ultimately show ?thesis by blast
qed

end
