(* ===== verification/Abi_Answers.thy ===== *)
theory Abi_Answers
  imports Bridge_Abi
begin

text \<open>
  The types of the answers: which shape of output and which kinds of error each exported function
  of \<open>lib.rs\<close> can give. The Go packages rely on them: the kinds are those \<open>httpclient.Error\<close>
  documents, a read gives bytes or an end of file, and never more bytes than were asked for.
\<close>

subsection \<open>Answer types\<close>

text \<open>The kinds documented at \<open>httpclient.Error\<close>, and those a request over reqwest can have.\<close>

definition documented_kinds :: "string list" where
  "documented_kinds =
     [''invalid_input'', ''configuration'', ''request'', ''connect'', ''dns'', ''unexpected_eof'',
      ''timeout'', ''cancelled'', ''closed'', ''internal'', ''panic'']"

definition reqwest_kinds :: "string list" where
  "reqwest_kinds = [''timeout'', ''invalid_input'', ''dns'', ''unexpected_eof'', ''connect'', ''request'']"

definition error_in :: "string list \<Rightarrow> call_result \<Rightarrow> bool" where
  "error_in kinds r \<longleftrightarrow> (\<forall>e. r = Inl e \<longrightarrow> err_kind e \<in> set kinds)"

text \<open>A new handle, no value, some bytes, and what a read may give.\<close>

definition new_handle :: "call_result \<Rightarrow> bool" where
  "new_handle r \<longleftrightarrow> (\<forall>out. r = Inr out \<longrightarrow> (\<exists>i. i \<noteq> 0 \<and> out = output_handle i))"

definition no_value :: "call_result \<Rightarrow> bool" where
  "no_value r \<longleftrightarrow> (\<forall>out. r = Inr out \<longrightarrow> out = output_handle 0)"

definition some_bytes :: "call_result \<Rightarrow> bool" where
  "some_bytes r \<longleftrightarrow> (\<forall>out. r = Inr out \<longrightarrow> (\<exists>d. out = output_data d))"

definition body_piece :: "nat \<Rightarrow> call_result \<Rightarrow> bool" where
  "body_piece n r \<longleftrightarrow> (\<forall>out. r = Inr out \<longrightarrow>
     out = output_eof \<or> (\<exists>d. out = output_data d \<and> d \<noteq> [] \<and> length d \<le> min n read_cap))"

definition wire_message :: "call_result \<Rightarrow> bool" where
  "wire_message r \<longleftrightarrow> (\<forall>out. r = Inr out \<longrightarrow>
     out = output_eof \<or> (\<exists>kind payload. out = output_data (kind # payload) \<and> kind \<in> {1, 2, 8, 9, 10}))"

lemmas answer_defs = error_in_def new_handle_def no_value_def some_bytes_def body_piece_def wire_message_def

fun answer_type :: "abi_call \<Rightarrow> call_result \<Rightarrow> bool" where
  "answer_type (HttpClientNew p len) r \<longleftrightarrow>
     new_handle r \<and> error_in [''invalid_input'', ''configuration'', ''internal''] r"
| "answer_type (HttpClientClose i) r \<longleftrightarrow> no_value r \<and> error_in [''internal''] r"
| "answer_type (HttpRequestNew i p len q n) r \<longleftrightarrow>
     new_handle r \<and> error_in (''closed'' # ''internal'' # reqwest_kinds) r"
| "answer_type (HttpRequestSend i) r \<longleftrightarrow>
     some_bytes r \<and> error_in (''closed'' # ''cancelled'' # ''internal'' # reqwest_kinds) r"
| "answer_type (HttpResponseRead i n) r \<longleftrightarrow>
     body_piece n r \<and> error_in (''closed'' # ''cancelled'' # ''internal'' # reqwest_kinds) r"
| "answer_type (HttpRequestClose i) r \<longleftrightarrow> no_value r \<and> error_in [''internal''] r"
| "answer_type (WsClientNew p len) r \<longleftrightarrow>
     new_handle r \<and> error_in [''invalid_input'', ''tls'', ''internal''] r"
| "answer_type (WsClientClose i) r \<longleftrightarrow> no_value r \<and> error_in [''internal''] r"
| "answer_type (WsConnectionNew i p len) r \<longleftrightarrow>
     new_handle r \<and>
     error_in [''invalid_input'', ''closed'', ''internal'', ''unexpected_eof'', ''closing'', ''websocket''] r"
| "answer_type (WsConnect i) r \<longleftrightarrow>
     some_bytes r \<and>
     error_in [''invalid_input'', ''closed'', ''internal'', ''timeout'', ''handshake'',
               ''unexpected_eof'', ''closing'', ''websocket''] r"
| "answer_type (WsRead i) r \<longleftrightarrow>
     wire_message r \<and>
     error_in [''invalid_input'', ''closed'', ''internal'', ''unexpected_eof'', ''closing'', ''websocket''] r"
| "answer_type (WsWrite i kind p len) r \<longleftrightarrow>
     no_value r \<and>
     error_in [''invalid_input'', ''closed'', ''internal'', ''unexpected_eof'', ''closing'', ''websocket''] r"
| "answer_type (WsConnectionClose i) r \<longleftrightarrow> no_value r \<and> error_in [''internal''] r"

subsection \<open>Kinds of the converted errors\<close>

lemma and_then_InlE:
  assumes "and_then x f = Inl e"
  obtains "x = Inl e" | y where "x = Inr y" "f y = Inl e"
  using assms by (cases x) simp_all

lemma from_source_kind [simp]: "err_kind (from_source kind e) = kind"
  by (simp add: from_source_def)

lemma http_kind_in [simp]: "err_kind (bridge_error_of_http e) \<in> set reqwest_kinds"
  by (simp add: bridge_error_of_http_def http_error_kind_def reqwest_kinds_def)

lemma route_kind_in [simp]: "err_kind (bridge_error_of_route e) \<in> set reqwest_kinds"
proof (cases e)
  case (RouteOther late d)
  then show ?thesis by (simp add: reqwest_kinds_def)
qed simp

lemma reqwest_kinds_has [simp]:
  "''timeout'' \<in> set reqwest_kinds" "''invalid_input'' \<in> set reqwest_kinds"
  "''request'' \<in> set reqwest_kinds"
  by (simp_all add: reqwest_kinds_def)

lemma ws_kind_in: "err_kind (bridge_error_of_ws e) \<in> {''unexpected_eof'', ''closing'', ''websocket''}"
  by (simp add: bridge_error_of_ws_def)

lemma write_kind_in: "err_kind (write_error p e) \<in> {''unexpected_eof'', ''closing'', ''websocket''}"
  using ws_kind_in [of e] by (simp add: write_error_def)

lemma invalid_kind [simp]: "err_kind (invalid m) = ''invalid_input''"
  by (simp add: invalid_def)

subsection \<open>The HTTP functions\<close>

lemma checked_add_nonzero: "u64_checked_add a 1 = Some i \<Longrightarrow> i \<noteq> 0"
  by (auto simp: u64_checked_add_Some_iff)

lemma run_answer:
  assumes "run build f cell w = (r, cell', w')"
    and "\<And>t w1. f w = (t, w1) \<Longrightarrow> \<exists>x. t = Finished x \<and> P x"
    and "\<And>e. err_kind e = ''internal'' \<Longrightarrow> P (Inl e)"
  shows "P r"
proof (cases "runtime build cell")
  case (Pair x c)
  show ?thesis
  proof (cases x)
    case (Inl e)
    with Pair have "err_kind e = ''internal''"
      by (auto simp: runtime_def Let_def result_simps)
    with assms(1,3) Pair Inl show ?thesis by (auto simp: run_def)
  next
    case (Inr u)
    obtain t w1 where f: "f w = (t, w1)" by (cases "f w")
    with assms(2) obtain x where "t = Finished x" "P x" by blast
    with assms(1) Pair Inr f show ?thesis by (simp add: run_def)
  qed
qed

lemma http_create_answer:
  assumes "http_create sdk api build data cell w = (r, cell', w')"
  shows "answer_type (HttpClientNew p len) r"
proof (cases "read_config sdk data")
  case (Inl e)
  with assms read_config_Inl [OF Inl] show ?thesis
    by (auto simp: http_create_def answer_defs)
next
  case (Inr x)
  obtain cfg fac proxy ua where x: "x = (cfg, fac, proxy, ua)" by (cases x)
  with assms Inr have "run build (http_create_task sdk api cfg fac proxy ua) cell w = (r, cell', w')"
    by (simp add: http_create_def)
  then show ?thesis
  proof (rule run_answer)
    fix t w1
    assume task: "http_create_task sdk api cfg fac proxy ua w = (t, w1)"
    show "\<exists>x. t = Finished x \<and> answer_type (HttpClientNew p len) x"
    proof (cases "make_backend sdk cfg fac proxy")
      case (Inl e)
      then have "err_kind e = ''configuration''"
        by (auto simp: make_backend_def Let_def result_simps split: if_splits)
      with Inl task show ?thesis by (auto simp: http_create_task_def answer_defs)
    next
      case (Inr b)
      obtain h tk where new: "tok_new api (hw_tokens w) = (h, tk)" by (cases "tok_new api (hw_tokens w)")
      obtain y w2 where reg: "http_register api b cfg ua w = (y, w2)"
        by (cases "http_register api b cfg ua w")
      from reg new have "answer_type (HttpClientNew p len) y"
        by (cases rule: http_register_cases) (auto simp: answer_defs dest: checked_add_nonzero)
      with reg Inr task show ?thesis by (auto simp: http_create_task_def)
    qed
  qed (auto simp: answer_defs)
qed

lemma http_close_answer:
  "http_close api i w = (r, w') \<Longrightarrow> answer_type (HttpClientClose j) r"
  by (auto simp: http_close_def http_registry_def answer_defs split: if_splits prod.splits)

lemma http_close_request_answer:
  "http_close_request api i w = (r, w') \<Longrightarrow> answer_type (HttpRequestClose j) r"
  by (auto simp: http_close_request_def http_registry_def answer_defs split: if_splits prod.splits)

lemma prepare_request_kind:
  "prepare_request sdk client metadata body = Inl e \<Longrightarrow> err_kind e \<in> set reqwest_kinds"
  by (cases "cl_backend client")
     (auto simp: prepare_request_def result_simps Let_def split: if_splits dest: decode_headers_Inl)

lemma http_create_request_answer:
  assumes "http_create_request sdk api i metadata body w = (r, w')"
  shows "answer_type (HttpRequestNew j p len q n) r"
proof (cases "http_find_client i w")
  case (Inl e)
  then have "err_kind e \<in> {''closed'', ''internal''}"
    by (auto simp: http_find_client_def http_registry_def client_is_closed_def result_simps split: if_splits)
  with assms Inl show ?thesis by (auto simp: http_create_request_def answer_defs)
next
  case (Inr client)
  note found = Inr
  show ?thesis
  proof (cases "prepare_request sdk client metadata body")
    case (Inl e)
    with assms found prepare_request_kind [OF Inl] show ?thesis
      by (auto simp: http_create_request_def answer_defs)
  next
    case (Inr p)
    obtain ref w1 where "http_new_call api i (cl_cancel client) p w = (ref, w1)"
      by (cases "http_new_call api i (cl_cancel client) p w")
    with assms found Inr have "http_add_call i ref w1 = (r, w')"
      by (simp add: http_create_request_def)
    then show ?thesis
      by (auto simp: http_add_call_def http_registry_def http_next_def client_is_closed_def answer_defs
          split: if_splits option.splits dest: checked_add_nonzero)
  qed
qed

lemma send_hops_kind:
  "send_hops ra net deadline follow fire hops req n = (Completed (Inl e), n') \<Longrightarrow>
     err_kind e \<in> set (''internal'' # reqwest_kinds)"
proof (induction ra net deadline follow fire hops req n rule: send_hops.induct)
  case (1 ra net deadline follow fire hops req n)
  let ?left = "map_option (\<lambda>d. d - net_now net n) deadline"
  show ?case
  proof (cases "hop_exchange req ?left")
    case (Inl d)
    then have "err_kind d = ''internal''"
      by (auto simp: hop_exchange_def split: option.splits request_body.splits)
    with "1.prems" send_hops_unbuffered [OF Inl] show ?thesis by simp
  next
    case (Inr ex)
    obtain result n1 where sent: "net_send net ex n = (result, n1)" by (cases "net_send net ex n")
    from Inr sent show ?thesis
    proof (cases rule: send_hops_cases [where fire = fire and hops = hops and ra = ra and follow = follow])
      case (again resp nxt)
      with 1 Inr sent show ?thesis by simp
    next
      case (refused resp d)
      then have "err_kind d = ''request''"
        by (auto simp: after_hop_def split: if_splits option.splits)
      with refused "1.prems" show ?thesis by simp
    qed (use "1.prems" in \<open>simp_all add: request_timed_out_def\<close>)
  qed
qed

lemma send_prepared_kind:
  "send_prepared sdk fire p n = (Completed (Inl e), n') \<Longrightarrow>
     err_kind e \<in> set (''internal'' # reqwest_kinds)"
proof (cases p)
  case (PreparedAutomatic pool b)
  assume "send_prepared sdk fire p n = (Completed (Inl e), n')"
  with PreparedAutomatic show ?thesis
    by (auto simp: send_prepared_def result_simps split: prod.splits if_splits)
next
  case (PreparedFixed fx req follow)
  assume "send_prepared sdk fire p n = (Completed (Inl e), n')"
  with PreparedFixed show ?thesis
    by (auto simp: send_prepared_def send_fixed_def Let_def simp del: list.set dest!: send_hops_kind)
qed

lemma task_answer:
  assumes "run build (\<lambda>w. select_cancelled (fired w) e (task w) w) cell w = (r, cell', w')"
    and "P (Inl e)"
    and "\<And>t w1. task w w = (t, w1) \<Longrightarrow> \<exists>x. t = Finished x \<and> P x"
    and "\<And>e. err_kind e = ''internal'' \<Longrightarrow> P (Inl e)"
  shows "P r"
  using assms(1)
proof (rule run_answer)
  fix t w1
  assume "select_cancelled (fired w) e (task w) w = (t, w1)"
  with assms(2,3) show "\<exists>x. t = Finished x \<and> P x"
    by (auto simp: select_cancelled_def split: if_splits)
qed (rule assms(4))

lemma http_lookup_kind: "http_lookup i w = Inl e \<Longrightarrow> err_kind e \<in> {''closed'', ''internal''}"
  by (auto simp: http_lookup_def http_registry_def result_simps split: if_splits)

lemma http_send_call_answer:
  assumes "http_send_call sdk fire ref p w = (r, w')"
  shows "answer_type (HttpRequestSend j) r"
proof -
  obtain a n where sent: "send_prepared sdk fire p (hw_net (set_phase ref Done w)) = (a, n)"
    by (cases "send_prepared sdk fire p (hw_net (set_phase ref Done w))")
  show ?thesis
  proof (cases a)
    case (Completed x)
    show ?thesis
    proof (cases x)
      case (Inl e)
      with sent Completed have "err_kind e \<in> set (''internal'' # reqwest_kinds)"
        using send_prepared_kind [of sdk fire p _ e n] by simp
      with assms sent Completed Inl show ?thesis
        by (auto simp: http_send_call_def Let_def answer_defs)
    next
      case (Inr resp)
      with assms sent Completed show ?thesis
        by (auto simp: http_send_call_def Let_def answer_defs split: sum.splits)
    qed
  qed (use assms sent in \<open>auto simp: http_send_call_def Let_def answer_defs request_cancelled_def\<close>)
qed

lemma http_send_answer:
  assumes "http_send sdk api build fire i cell w = (r, cell', w')"
  shows "answer_type (HttpRequestSend j) r"
proof (cases "http_lookup i w")
  case (Inl e)
  with assms http_lookup_kind [OF Inl] show ?thesis by (auto simp: http_send_def answer_defs)
next
  case (Inr ref)
  with assms have "run build (\<lambda>w. select_cancelled (call_fired api ref w) request_cancelled
      (http_send_task sdk fire ref) w) cell w = (r, cell', w')"
    by (simp add: http_send_def http_send_on_def)
  then show ?thesis
  proof (rule task_answer [where task = "\<lambda>w. http_send_task sdk fire ref"])
    fix t w1
    assume "http_send_task sdk fire ref w = (t, w1)"
    then show "\<exists>x. t = Finished x \<and> answer_type (HttpRequestSend j) x"
      by (auto simp: http_send_task_def request_cancelled_def answer_defs
          split: if_splits option.splits phase.splits prod.splits
          dest: http_send_call_answer [where j = j, simplified answer_type.simps answer_defs])
  qed (auto simp: answer_defs request_cancelled_def)
qed

lemma read_loop_answer:
  assumes "read_loop m fire items pending = (Completed r, ph)" "0 < m" "m \<le> min n read_cap"
  shows "answer_type (HttpResponseRead j n) r"
  using assms
proof (induction items arbitrary: fire pending)
  case Nil
  then show ?case
    by (auto simp: read_loop.simps Let_def answer_defs split: if_splits)
next
  case (Cons item items)
  show ?case
  proof (cases "pending = [] \<and> fire \<noteq> Some 0")
    case True
    then show ?thesis
    proof (cases item)
      case (Inl e)
      with True Cons.prems show ?thesis by (auto simp: read_loop.simps answer_defs)
    next
      case (Inr chunk)
      with True Cons.prems have "read_loop m (later fire) items chunk = (Completed r, ph)"
        by (subst (asm) read_loop.simps) simp
      with Cons.IH Cons.prems(2,3) show ?thesis by blast
    qed
  next
    case False
    with Cons.prems show ?thesis
      by (subst (asm) read_loop.simps) (auto simp: Let_def answer_defs split: if_splits)
  qed
qed

lemma http_read_answer:
  assumes "http_read api build fire i n cell w = (r, cell', w')"
  shows "answer_type (HttpResponseRead j n) r"
proof (cases "n = 0 \<or> isl (http_lookup i w)")
  case True
  then obtain e where "r = Inl e" "err_kind e \<in> {''invalid_input'', ''closed'', ''internal''}"
    using assms by (auto simp: http_read_def split: if_splits sum.splits dest!: http_lookup_kind)
  then show ?thesis by (auto simp: answer_defs)
next
  case False
  then obtain ref where "http_lookup i w = Inr ref" by (cases "http_lookup i w") auto
  with False assms have "run build (\<lambda>w. select_cancelled (call_fired api ref w) request_cancelled
      (http_read_task (min n read_cap) fire ref) w) cell w = (r, cell', w')"
    by (simp add: http_read_def http_read_on_def)
  then show ?thesis
  proof (rule task_answer [where task = "\<lambda>w. http_read_task (min n read_cap) fire ref"])
    fix t w1
    assume task: "http_read_task (min n read_cap) fire ref w = (t, w1)"
    have cancelled: "answer_type (HttpResponseRead j n) (Inl request_cancelled)"
      "answer_type (HttpResponseRead j n) (Inr output_eof)"
      "answer_type (HttpResponseRead j n) (Inl (invalid m))" for m
      by (simp_all add: answer_defs request_cancelled_def)
    show "\<exists>x. t = Finished x \<and> answer_type (HttpResponseRead j n) x"
    proof (cases "fire \<noteq> Some 0 \<and> (\<exists>items pending. map_option ca_phase (hw_store w ref) = Some (Streaming items pending))")
      case True
      then obtain items pending where st: "map_option ca_phase (hw_store w ref) = Some (Streaming items pending)"
        by blast
      obtain a ph where loop: "read_loop (min n read_cap) (later fire) items pending = (a, ph)"
        by (cases "read_loop (min n read_cap) (later fire) items pending")
      with task st True have t: "t = Finished (case a of Dropped \<Rightarrow> Inl request_cancelled | Completed x \<Rightarrow> x)"
        by (simp add: http_read_task_def)
      have "answer_type (HttpResponseRead j n) x" if "a = Completed x" for x
        by (rule read_loop_answer [of "min n read_cap" "later fire" items pending x ph])
           (use loop that \<open>\<not> (n = 0 \<or> isl (http_lookup i w))\<close> in \<open>simp_all add: read_cap_def\<close>)
      with t cancelled show ?thesis by (cases a) simp_all
    next
      case False
      with task have "t \<in> {Finished (Inl request_cancelled), Finished (Inr output_eof),
          Finished (Inl (invalid ''request has not been sent''))}"
        by (auto simp: http_read_task_def split: if_splits option.splits phase.splits)
      with cancelled show ?thesis by auto
    qed
  qed (auto simp: answer_defs request_cancelled_def)
qed

subsection \<open>The WebSocket functions\<close>

lemma ws_check_config_kind:
  "ws_check_config sdk cfg = Inl e \<Longrightarrow> err_kind e \<in> {''invalid_input'', ''tls''}"
proof -
  assume "ws_check_config sdk cfg = Inl e"
  then show ?thesis
    unfolding ws_check_config_def Let_def
    by (elim and_then_InlE)
       (auto split: if_splits elim!: and_then_InlE
             simp: result_simps dest: parse_policy_Inl parse_proxy_Inl make_factory_Inl)
qed

lemma ws_create_answer:
  assumes "ws_create sdk api data w = (r, w')"
  shows "answer_type (WsClientNew p len) r"
proof (cases "and_then (map_err invalid (ws_de_config sdk data)) (ws_check_config sdk)")
  case (Inl e)
  then have "err_kind e \<in> {''invalid_input'', ''tls''}"
    by (auto simp: result_simps dest: ws_check_config_kind)
  with assms Inl show ?thesis by (auto simp: ws_create_def answer_defs)
next
  case (Inr x)
  obtain cfg con where x: "x = (cfg, con)" by (cases x)
  obtain h tk where new: "tok_new api (ww_tokens w) = (h, tk)" by (cases "tok_new api (ww_tokens w)")
  from assms Inr x have "ws_register api cfg con w = (r, w')" by (simp add: ws_create_def)
  then show ?thesis
    by (auto simp: ws_register_def new ws_registry_def ws_next_def Let_def answer_defs
        split: if_splits option.splits dest: checked_add_nonzero)
qed

lemma ws_close_answer: "ws_close api i w = (r, w') \<Longrightarrow> answer_type (WsClientClose j) r"
  by (auto simp: ws_close_def ws_registry_def answer_defs split: if_splits prod.splits)

lemma ws_close_connection_answer:
  "ws_close_connection api i w = (r, w') \<Longrightarrow> answer_type (WsConnectionClose j) r"
  by (auto simp: ws_close_connection_def ws_registry_def answer_defs split: if_splits prod.splits)

lemma ws_prepare_kind:
  "ws_prepare sdk data = Inl e \<Longrightarrow>
     err_kind e \<in> {''invalid_input'', ''unexpected_eof'', ''closing'', ''websocket''}"
  using ws_kind_in
  by (fastforce simp: ws_prepare_def result_simps split: if_splits dest: decode_headers_Inl)

lemma ws_create_connection_answer:
  assumes "ws_create_connection sdk api i data w = (r, w')"
  shows "answer_type (WsConnectionNew j p len) r"
proof (cases "ws_find_client i w")
  case (Inl e)
  then have "err_kind e \<in> {''closed'', ''internal''}"
    by (auto simp: ws_find_client_def ws_registry_def ws_client_closed_def result_simps split: if_splits)
  with assms Inl show ?thesis by (auto simp: ws_create_connection_def answer_defs)
next
  case (Inr client)
  note found = Inr
  show ?thesis
  proof (cases "ws_prepare sdk data")
    case (Inl e)
    with assms found ws_prepare_kind [OF Inl] show ?thesis
      by (auto simp: ws_create_connection_def answer_defs)
  next
    case (Inr req)
    obtain ref w1 where "ws_new_conn api i client req w = (ref, w1)"
      by (cases "ws_new_conn api i client req w")
    with assms found Inr have "ws_add_conn i ref w1 = (r, w')"
      by (simp add: ws_create_connection_def)
    then show ?thesis
      by (auto simp: ws_add_conn_def ws_registry_def ws_next_def ws_client_closed_def answer_defs
          split: if_splits option.splits dest: checked_add_nonzero)
  qed
qed

text \<open>A task on a connection that is there never panics: what it may answer carries over to the
  call.\<close>

lemma run_on_answer:
  assumes "run_on api build ref body cell w = (r, cell', w')" "ww_store w ref = Some conn"
    and "P (Inl connection_closed)"
    and "\<And>t c n. body conn (ww_net w) = (t, c, n) \<Longrightarrow> \<exists>x. t = Finished x \<and> P x"
    and "\<And>e. err_kind e = ''internal'' \<Longrightarrow> P (Inl e)"
  shows "P r"
  using assms(1) unfolding run_on_def
proof (rule run_answer)
  fix t w1
  assume task: "select_cancelled (conn_fired api ref w) connection_closed
       (\<lambda>w. case ww_store w ref of None \<Rightarrow> (TaskPanicked, w)
            | Some c \<Rightarrow> (let (t, c', n) = body c (ww_net w) in (t, set_conn ref c' (w\<lparr>ww_net := n\<rparr>)))) w = (t, w1)"
  obtain t1 c1 n1 where "body conn (ww_net w) = (t1, c1, n1)" by (cases "body conn (ww_net w)")
  with task assms(2-4) show "\<exists>x. t = Finished x \<and> P x"
    by (fastforce simp: select_cancelled_def split: if_splits)
qed (rule assms(5))

lemma ws_lookup_kind: "ws_lookup i w = Inl e \<Longrightarrow> err_kind e \<in> {''closed'', ''internal''}"
  by (auto simp: ws_lookup_def ws_registry_def connection_closed_def result_simps split: if_splits)

lemma ws_lookup_store:
  "\<forall>i ref. ww_conns w i = Some ref \<longrightarrow> ww_store w ref \<noteq> None \<Longrightarrow> ws_lookup i w = Inr ref \<Longrightarrow>
     \<exists>conn. ww_store w ref = Some conn"
  by (auto simp: ws_lookup_def result_simps)

lemma dial_answer_answer:
  "dial_answer sdk cfg answer = (t, sock) \<Longrightarrow> \<exists>x. t = Finished x \<and> answer_type (WsConnect j) x"
proof (cases answer)
  case (Inl e)
  assume a: "dial_answer sdk cfg answer = (t, sock)"
  show ?thesis
  proof (cases "we_class e")
    case (WsHttp resp)
    obtain b f where "handshake_body (ws_http sdk) resp (wc_max_handshake_body_bytes cfg) = Some (b, f)"
      using handshake_body_bounded by blast
    with a Inl WsHttp show ?thesis
      by (auto simp: dial_answer_def rejected_error_def Let_def answer_defs with_details_def split: sum.splits)
  qed (use a Inl ws_kind_in [of e] in \<open>auto simp: dial_answer_def answer_defs\<close>)
next
  case (Inr x)
  assume "dial_answer sdk cfg answer = (t, sock)"
  with Inr show ?thesis
    by (cases x) (auto simp: dial_answer_def Let_def answer_defs split: sum.splits)
qed

lemma ws_connect_task_answer:
  assumes "ws_connect_task sdk fire conn n = (t, conn', n')"
  shows "\<exists>x. t = Finished x \<and> answer_type (WsConnect j) x"
proof -
  have ok: "answer_type (WsConnect j) (Inl connection_closed)" "answer_type (WsConnect j) (Inl (invalid m))"
    "answer_type (WsConnect j) (Inl (bridge_error_new ''timeout'' m))" for m
    by (simp_all add: answer_defs connection_closed_def)
  show ?thesis
  proof (cases "fire = Some 0 \<or> co_pending conn = None")
    case True
    then have "t \<in> {Finished (Inl connection_closed), Finished (Inl (invalid ''connection already started''))}"
      using assms by (auto simp: ws_connect_task_def split: if_splits)
    with ok(1) ok(2) [of "''connection already started''"] show ?thesis by auto
  next
    case False
    then obtain req where req: "co_pending conn = Some req" by auto
    let ?cfg = "wl_config (co_owner conn)"
    obtain answer n1 where dialled: "dial sdk (wl_connector (co_owner conn)) req
        (connect_limits sdk ?cfg) (connect_route ?cfg) n = (answer, n1)"
      by (cases "dial sdk (wl_connector (co_owner conn)) req (connect_limits sdk ?cfg) (connect_route ?cfg) n")
    obtain res sock where da: "dial_answer sdk ?cfg answer = (res, sock)"
      by (cases "dial_answer sdk ?cfg answer")
    have "t \<in> {res, Finished (Inl connection_closed),
        Finished (Inl (bridge_error_new ''timeout'' ''WebSocket handshake timed out''))}"
      using assms False req dialled da
      by (auto simp: ws_connect_task_def Let_def split: if_splits option.splits)
    with dial_answer_answer [OF da, of j] ok(1) ok(3) [of "''WebSocket handshake timed out''"]
    show ?thesis by auto
  qed
qed

lemma message_parts_kind_in: "message_parts sdk m = Some (kind, payload) \<Longrightarrow> kind \<in> {1, 2, 8, 9, 10}"
  by (auto simp: message_parts_def split: message.splits)

lemma acknowledge_kind:
  "acknowledge sdk kind writer = (Some e, k) \<Longrightarrow> err_kind e \<in> {''unexpected_eof'', ''closing'', ''websocket''}"
  using ws_kind_in by (auto simp: acknowledge_def split: option.splits prod.splits sum.splits if_splits)

lemma ws_read_loop_answer:
  "ws_read_loop sdk fire items conn = (Completed r, conn') \<Longrightarrow> answer_type (WsRead j) r"
proof (induction items arbitrary: fire conn)
  case Nil
  then show ?case by (auto simp: ws_read_loop.simps answer_defs split: if_splits)
next
  case (Cons item rest)
  have fire: "fire \<noteq> Some 0" using Cons.prems by (auto simp: ws_read_loop.simps)
  show ?case
  proof (cases item)
    case (Inl e)
    with Cons.prems ws_kind_in [of e] show ?thesis
      by (auto simp: ws_read_loop.simps answer_defs split: if_splits)
  next
    case (Inr m)
    show ?thesis
    proof (cases "message_parts sdk m")
      case None
      have "\<exists>fire' conn1. ws_read_loop sdk fire' rest conn1 = (Completed r, conn')"
        using Cons.prems fire Inr None
        by (subst (asm) ws_read_loop.simps) (auto simp: Let_def split: option.splits nat.splits)
      with Cons.IH show ?thesis by blast
    next
      case (Some parts)
      then obtain kind payload where parts: "message_parts sdk m = Some (kind, payload)"
        by (cases parts) auto
      from message_parts_kind_in [OF this]
      have data: "answer_type (WsRead j) (Inr (output_data (kind # payload)))"
        by (auto simp: answer_defs)
      have "r = Inr (output_data (kind # payload)) \<or>
          (\<exists>e writer k. r = Inl e \<and> acknowledge sdk kind writer = (Some e, k))"
        using Cons.prems fire Inr parts
        by (subst (asm) ws_read_loop.simps)
           (auto simp: Let_def split: if_splits option.splits prod.splits)
      with data show ?thesis by (auto simp: answer_defs dest: acknowledge_kind)
    qed
  qed
qed

lemma ws_read_task_answer:
  assumes "ws_read_task sdk fire conn = (t, conn')"
  shows "\<exists>x. t = Finished x \<and> answer_type (WsRead j) x"
proof -
  have ok: "answer_type (WsRead j) (Inl connection_closed)" "answer_type (WsRead j) (Inr output_eof)"
    "answer_type (WsRead j) (Inl (invalid m))" for m
    by (simp_all add: answer_defs connection_closed_def)
  consider "t \<in> {Finished (Inl connection_closed), Finished (Inr output_eof),
      Finished (Inl (invalid ''connection not established''))}"
    | items fire' x where "ws_read_loop sdk fire' items conn = (Completed x, conn')" "t = Finished x"
    using assms by (auto simp: ws_read_task_def split: if_splits option.splits prod.splits polled.splits)
  then show ?thesis
  proof cases
    case 1
    with ok(1,2) ok(3) [of "''connection not established''"] show ?thesis by auto
  next
    case 2
    with ws_read_loop_answer show ?thesis by blast
  qed
qed

lemma write_answers [simp]:
  "answer_type (WsWrite j k p len) (Inl connection_closed)"
  "answer_type (WsWrite j k p len) (Inl (invalid m))"
  "answer_type (WsWrite j k p len) (Inr (output_handle 0))"
  "answer_type (WsWrite j k p len) (Inl (write_error peer e))"
  using write_kind_in [of peer e] by (auto simp: answer_defs connection_closed_def)

lemma send_fragments_answer:
  "send_fragments sdk fire kind data offset conn = Some y \<Longrightarrow> answer_type (WsWrite j k p len) (fst y)"
proof (induction rule: send_fragments.raw_induct [rotated, consumes 1])
  case (1 f sdk fire kind data offset conn y)
  from 1(2) show ?case
    by (auto simp: Let_def 1(1) simp del: answer_type.simps split: if_splits option.splits prod.splits sum.splits)
qed

lemma ws_write_task_answer:
  assumes "ws_write_task sdk fire plan conn = Some (t, conn')"
  shows "\<exists>x. t = Finished x \<and> answer_type (WsWrite j k p len) x"
proof (cases plan)
  case (WriteData kind data)
  with assms show ?thesis
    by (auto simp: ws_write_task_def ws_send_data_def simp del: answer_type.simps split: if_splits
        dest: send_fragments_answer [where j = j and k = k and p = p and len = len])
next
  case (WriteControl m)
  with assms show ?thesis
    by (auto simp: ws_write_task_def ws_send_control_def Let_def simp del: answer_type.simps
        split: if_splits option.splits prod.splits sum.splits)
qed

lemma plan_write_kind: "plan_write sdk kind data = Inl e \<Longrightarrow> err_kind e = ''invalid_input''"
  by (auto simp: plan_write_def close_payload_def result_simps Let_def from_utf8_def
      split: if_splits list.splits option.splits)

text \<open>Every registered connection is there.\<close>

definition stored :: "('t, 'c, 'k, 'h, 'n) ws_world \<Rightarrow> bool" where
  "stored w \<longleftrightarrow> (\<forall>i ref. ww_conns w i = Some ref \<longrightarrow> ww_store w ref \<noteq> None)"

lemma ws_history_stored:
  assumes "(ws_step sdk api)\<^sup>*\<^sup>* (ws_init n t) s" "token_laws api" "tok_ok api t"
  shows "stored (ss_world s)"
  unfolding stored_def
proof (intro allI impI)
  fix i ref
  assume "ww_conns (ss_world s) i = Some ref"
  then have "own_children (ws_abs s) i = Some ref" by (simp add: ws_abs_def)
  from refs_okD(2) [OF _ this] ws_registry_of.history_inv(1) [OF assms]
  show "ww_store (ss_world s) ref \<noteq> None"
    by (auto simp: own_inv_def ws_abs_def)
qed

lemma stored_lookup:
  assumes "stored w" "ws_lookup i w = Inr ref"
  obtains conn where "ww_store w ref = Some conn"
  using assms by (auto simp: stored_def ws_lookup_def result_simps)

lemma ws_connect_answer:
  assumes "ws_connect sdk api build fire i cell w = (r, cell', w')" "stored w"
  shows "answer_type (WsConnect j) r"
proof (cases "ws_lookup i w")
  case (Inl e)
  with assms(1) ws_lookup_kind [OF Inl] show ?thesis by (auto simp: ws_connect_def answer_defs)
next
  case (Inr ref)
  obtain conn where conn: "ww_store w ref = Some conn" by (rule stored_lookup [OF assms(2) Inr])
  from assms(1) Inr have "run_on api build ref (ws_connect_task sdk fire) cell w = (r, cell', w')"
    by (simp add: ws_connect_def ws_connect_on_def)
  then show ?thesis
    by (rule run_on_answer [OF _ conn])
       (auto simp: answer_defs connection_closed_def dest: ws_connect_task_answer [where j = j, simplified answer_defs answer_type.simps])
qed

lemma ws_read_answer:
  assumes "ws_read sdk api build fire i cell w = (r, cell', w')" "stored w"
  shows "answer_type (WsRead j) r"
proof (cases "ws_lookup i w")
  case (Inl e)
  with assms(1) ws_lookup_kind [OF Inl] show ?thesis by (auto simp: ws_read_def answer_defs)
next
  case (Inr ref)
  obtain conn where conn: "ww_store w ref = Some conn" by (rule stored_lookup [OF assms(2) Inr])
  from assms(1) Inr have
    "run_on api build ref (\<lambda>c n. let (t, c') = ws_read_task sdk fire c in (t, c', n)) cell w = (r, cell', w')"
    by (simp add: ws_read_def ws_read_on_def)
  then show ?thesis
  proof (rule run_on_answer [OF _ conn])
    fix t c n
    assume "(let (t, c') = ws_read_task sdk fire conn in (t, c', ww_net w)) = (t, c, n)"
    then have "ws_read_task sdk fire conn = (t, c)" by (auto split: prod.splits)
    then show "\<exists>x. t = Finished x \<and> answer_type (WsRead j) x" by (rule ws_read_task_answer)
  qed (auto simp: answer_defs connection_closed_def)
qed

lemma ws_write_answer:
  assumes "ws_write sdk api build fire i kind data cell w = Some (r, cell', w')" "stored w"
  shows "answer_type (WsWrite j k p len) r"
proof (cases "ws_lookup i w")
  case (Inl e)
  with assms(1) ws_lookup_kind [OF Inl] show ?thesis by (auto simp: ws_write_def answer_defs)
next
  case (Inr ref)
  obtain conn where conn: "ww_store w ref = Some conn" by (rule stored_lookup [OF assms(2) Inr])
  show ?thesis
  proof (cases "plan_write sdk kind data")
    case (Inl e)
    with assms(1) Inr plan_write_kind [OF Inl] show ?thesis by (auto simp: ws_write_def answer_defs)
  next
    case (Inr plan)
    let ?body = "\<lambda>c n. case ws_write_task sdk fire plan c of
                      None \<Rightarrow> (TaskPanicked, c, n) | Some (t, c') \<Rightarrow> (t, c', n)"
    from assms(1) \<open>ws_lookup i w = Inr ref\<close> Inr
    have on: "ws_write_on sdk api build fire ref plan cell w = Some (r, cell', w')"
      by (simp add: ws_write_def)
    show ?thesis
    proof (cases "ws_write_task sdk fire plan conn")
      case None
      with on conn have "fst (runtime build cell) \<noteq> Inr () \<or> conn_fired api ref w"
        by (auto simp: ws_write_on_def split: if_splits)
      with on conn show ?thesis
        by (auto simp: ws_write_on_def run_on_def run_def select_cancelled_def answer_defs
            connection_closed_def runtime_def Let_def result_simps
            split: if_splits prod.splits sum.splits option.splits)
    next
      case (Some x)
      from on have "run_on api build ref ?body cell w = (r, cell', w')"
        by (simp add: ws_write_on_def split: if_splits)
      then show ?thesis
      proof (rule run_on_answer [OF _ conn])
        fix t c n
        assume "?body conn (ww_net w) = (t, c, n)"
        with Some have "ws_write_task sdk fire plan conn = Some (t, c)" by (cases x) simp
        then show "\<exists>x. t = Finished x \<and> answer_type (WsWrite j k p len) x" by (rule ws_write_task_answer)
      qed (auto simp: answer_defs connection_closed_def)
    qed
  qed
qed

subsection \<open>Every exported function\<close>

lemma with_input_answer:
  assumes "with_input p len f b = Some (r, b1)" "\<And>m. P (Inl (invalid m))"
    and "\<And>bs. f bs b = Some (r, b1) \<Longrightarrow> P r"
  shows "P r"
  using assms by (auto simp: with_input_def input_buffer_def split: if_splits foreign_ptr.splits)

lemma refused_answers:
  "answer_type (HttpClientNew p len) (Inl (invalid m))"
  "answer_type (HttpRequestNew i p len q n) (Inl (invalid m))"
  "answer_type (WsClientNew p len) (Inl (invalid m))"
  "answer_type (WsConnectionNew i p len) (Inl (invalid m))"
  by (simp_all add: answer_defs)

lemma abi_closure_answer:
  assumes "abi_closure env call b = Some (r, b1)" "stored (br_ws b)"
  shows "answer_type call r"
proof (cases call)
  case (HttpClientNew p len)
  with assms(1) show ?thesis
    by (simp only: abi_closure.simps exported_defs)
       (erule with_input_answer, rule refused_answers,
        auto simp: http_task_def simp del: answer_type.simps split: prod.splits dest!: http_create_answer)
next
  case (HttpRequestNew i p len q n)
  with assms(1) show ?thesis
    by (simp only: abi_closure.simps exported_defs)
       (erule with_input_answer, rule refused_answers, erule with_input_answer, rule refused_answers,
        auto simp: http_call_def simp del: answer_type.simps split: prod.splits dest!: http_create_request_answer)
next
  case (WsClientNew p len)
  with assms(1) show ?thesis
    by (simp only: abi_closure.simps exported_defs)
       (erule with_input_answer, rule refused_answers,
        auto simp: ws_call_def simp del: answer_type.simps split: prod.splits dest!: ws_create_answer)
next
  case (WsConnectionNew i p len)
  with assms(1) show ?thesis
    by (simp only: abi_closure.simps exported_defs)
       (erule with_input_answer, rule refused_answers,
        auto simp: ws_call_def simp del: answer_type.simps split: prod.splits dest!: ws_create_connection_answer)
next
  case (WsWrite i kind p len)
  with assms show ?thesis
    by (simp only: abi_closure.simps exported_defs)
       (erule with_input_answer, rule write_answers(2),
        auto simp: ws_task_def simp del: answer_type.simps split: option.splits prod.splits intro: ws_write_answer)
qed (use assms in \<open>auto simp: exported_defs http_call_def http_task_def ws_call_def ws_task_def
        simp del: answer_type.simps split: prod.splits
        intro: http_close_answer http_send_answer http_read_answer http_close_request_answer
          ws_close_answer ws_connect_answer ws_read_answer ws_close_connection_answer\<close>)

lemma answer_documented: "answer_type call r \<Longrightarrow> on_http call \<Longrightarrow> error_in documented_kinds r"
  by (cases call) (auto simp: answer_defs documented_kinds_def reqwest_kinds_def)

text \<open>
  C13. Every exported function answers with the type its caller expects, in every state the
  WebSocket registry can be in: it returns; a constructor gives a fresh nonzero handle, a close
  nothing, a body read an end of file or between 1 and \<open>min(max_len, 64 KiB)\<close> bytes, a message read
  an end of file or one of the five message types and its payload; and an error has a kind the
  function can have, for HTTP always one of those the Go package documents, never a panic.
\<close>

theorem abi_answer_types:
  assumes "(ws_step (en_ws env) (en_tokens env))\<^sup>*\<^sup>* (ws_init n t) s" "br_ws b = ss_world s"
    and "token_laws (en_tokens env)" "tok_ok (en_tokens env) t"
    and "list_all (\<lambda>(p, len). caller_contract p len) (call_inputs call)"
  shows "\<exists>r b1. abi_closure env call b = Some (r, b1) \<and> answer_type call r \<and>
           (on_http call \<longrightarrow> error_in documented_kinds r)"
proof -
  obtain r b1 where c: "abi_closure env call b = Some (r, b1)"
    using abi_closure_ok [OF ws_history_frames [OF assms(1)] assms(2,5), of env]
    unfolding closure_ok_def by blast
  moreover have "stored (br_ws b)"
    unfolding assms(2) by (rule ws_history_stored [OF assms(1,3,4)])
  ultimately show ?thesis
    using abi_closure_answer answer_documented by blast
qed

theorem abi_answer_types_witness:
  "\<exists>r b1. abi_closure sample_env (WsRead 2) sample_bridge = Some (r, b1) \<and> answer_type (WsRead 2) r"
proof -
  have "(ws_step (en_ws sample_env) (en_tokens sample_env))\<^sup>*\<^sup>* (ws_init 0 []) sample_joined"
    "br_ws sample_bridge = ss_world sample_joined" "token_laws (en_tokens sample_env)"
    "tok_ok (en_tokens sample_env) []"
    "list_all (\<lambda>(p, len). caller_contract p len) (call_inputs (WsRead 2))"
    using sample_joined_history list_tokens_laws tok_ok_Nil by (simp_all add: sample_env_def sample_bridge_def)
  from abi_answer_types [OF this] show ?thesis by blast
qed

end
