(* ===== verification/Go_Bridge.thy ===== *)
theory Go_Bridge
  imports Abi_Answers "HOL-Library.Signed_Division"
begin

text \<open>
  The Go side of the C interface: \<open>internal/bridge/bridge.go\<close> and \<open>error.go\<close>. Each function makes
  one exported call with Go's slices as the borrowed inputs and hands the result to \<open>takeResult\<close>.
  \<open>None\<close> is an aborted process, undefined behaviour, or a call that never returns.
\<close>

subsection \<open>Calls\<close>

text \<open>\<open>unsafe.SliceData\<close>: nil for the empty slice here; its length is 0 in any case.\<close>

definition go_ptr :: "bytes \<Rightarrow> foreign_ptr" where
  "go_ptr bs = (if bs = [] then NullPtr else PtrTo bs)"

type_synonym unmarshal = "bytes \<Rightarrow> (string \<times> string) option"

definition go_invoke ::
  "('t, 'c, 'k, 'h, 'n, 'm) bridge_env \<Rightarrow> unmarshal \<Rightarrow> abi_call \<Rightarrow> ('t, 'c, 'k, 'h, 'n, 'm) bridge \<Rightarrow>
     ((u64 \<times> bytes \<times> go_error option) \<times> ('t, 'c, 'k, 'h, 'n, 'm) bridge) option" where
  "go_invoke env um call b =
     Option.bind (abi_invoke env call b) (\<lambda>(res, b1).
       map_option (\<lambda>(a, h). (a, b1\<lparr>br_heap := h\<rparr>)) (take_result um res (br_heap b1)))"

definition only_handle :: "(u64 \<times> bytes \<times> go_error option) \<times> 'b \<Rightarrow> (u64 \<times> go_error option) \<times> 'b" where
  "only_handle x = ((fst (fst x), snd (snd (fst x))), snd x)"

definition only_data :: "(u64 \<times> bytes \<times> go_error option) \<times> 'b \<Rightarrow> (bytes \<times> go_error option) \<times> 'b" where
  "only_data x = (snd (fst x), snd x)"

definition only_error :: "(u64 \<times> bytes \<times> go_error option) \<times> 'b \<Rightarrow> go_error option \<times> 'b" where
  "only_error x = (snd (snd (fst x)), snd x)"

definition bridge_http_client_new where
  "bridge_http_client_new env um config b =
     map_option only_handle (go_invoke env um (HttpClientNew (go_ptr config) (length config)) b)"

definition bridge_http_client_close where
  "bridge_http_client_close env um i b =
     map_option only_error (go_invoke env um (HttpClientClose i) b)"

definition bridge_http_request_new where
  "bridge_http_request_new env um i metadata body b =
     map_option only_handle
       (go_invoke env um (HttpRequestNew i (go_ptr metadata) (length metadata) (go_ptr body) (length body)) b)"

definition bridge_http_request_send where
  "bridge_http_request_send env um i b =
     map_option only_data (go_invoke env um (HttpRequestSend i) b)"

definition bridge_http_response_read where
  "bridge_http_response_read env um i max_len b =
     map_option only_data (go_invoke env um (HttpResponseRead i max_len) b)"

definition bridge_http_request_close where
  "bridge_http_request_close env um i b =
     map_option only_error (go_invoke env um (HttpRequestClose i) b)"

definition bridge_ws_client_new where
  "bridge_ws_client_new env um config b =
     map_option only_handle (go_invoke env um (WsClientNew (go_ptr config) (length config)) b)"

definition bridge_ws_client_close where
  "bridge_ws_client_close env um i b = map_option only_error (go_invoke env um (WsClientClose i) b)"

definition bridge_ws_connection_new where
  "bridge_ws_connection_new env um i metadata b =
     map_option only_handle (go_invoke env um (WsConnectionNew i (go_ptr metadata) (length metadata)) b)"

definition bridge_ws_connect where
  "bridge_ws_connect env um i b = map_option only_data (go_invoke env um (WsConnect i) b)"

definition bridge_ws_read where
  "bridge_ws_read env um i b = map_option only_data (go_invoke env um (WsRead i) b)"

definition bridge_ws_write where
  "bridge_ws_write env um i kind data b =
     map_option only_error (go_invoke env um (WsWrite i kind (go_ptr data) (length data)) b)"

definition bridge_ws_connection_close where
  "bridge_ws_connection_close env um i b =
     map_option only_error (go_invoke env um (WsConnectionClose i) b)"

subsection \<open>Error\<close>

text \<open>The methods of \<open>bridge.Error\<close> on its kind and message; \<open>Is\<close> is asked about
  \<open>io.ErrUnexpectedEOF\<close>, the only target it knows.\<close>

definition go_error_text :: "string \<Rightarrow> string \<Rightarrow> string" where
  "go_error_text kind message =
     ''gocodex: '' @ kind @ '': '' @
       (if kind = ''unexpected_eof'' then ''unexpected EOF'' @ '': '' @ message else message)"

definition go_error_is_unexpected_eof :: "string \<Rightarrow> bool" where
  "go_error_is_unexpected_eof kind \<longleftrightarrow> kind = ''unexpected_eof''"

definition go_error_timeout :: "string \<Rightarrow> bool" where
  "go_error_timeout kind \<longleftrightarrow> kind = ''timeout''"

definition go_error_temporary :: "string \<Rightarrow> bool" where
  "go_error_temporary kind \<longleftrightarrow> go_error_timeout kind"

subsection \<open>Contexts\<close>

text \<open>The caller's context: nil, or one with its \<open>Err()\<close>.\<close>

datatype go_ctx = NilCtx | LiveCtx | DoneCtx string

subsection \<open>Durations\<close>

text \<open>\<open>durationMS\<close> of \<open>httpclient\<close>, written out in \<open>websocket.NewClient\<close> too: an \<open>int64\<close> of nanoseconds, truncated division, \<open>uint64\<close> addition.\<close>

definition duration_ms :: "int \<Rightarrow> u64" where
  "duration_ms d =
     (let ms = word_of_int (d sdiv 1000000) in if d smod 1000000 \<noteq> 0 then ms + 1 else ms)"

lemma duration_ms_value:
  assumes "0 \<le> d" "d < 2 ^ 63"
  shows "int (unat (duration_ms d)) = (d + 999999) div 1000000 \<and> (duration_ms d = 0 \<longleftrightarrow> d = 0)"
proof -
  have q: "d sdiv 1000000 = d div 1000000" "d smod 1000000 = d mod 1000000"
    using assms(1) by (simp_all add: signed_divide_int_def signed_modulo_int_def sgn_if)
  have bound: "d div 1000000 + 1 < 2 ^ 64" using assms by simp
  have u: "int (unat (word_of_int k :: u64)) = k" if "0 \<le> k" "k < 2 ^ 64" for k
    using that by (simp add: unsigned_of_int take_bit_int_eq_self)
  have "duration_ms d = word_of_int ((d + 999999) div 1000000)"
  proof (cases "d mod 1000000 = 0")
    case True
    then have "(d + 999999) div 1000000 = d div 1000000"
      using mult_div_mod_eq [of 1000000 d] by (intro int_div_pos_eq [where r = 999999]) simp_all
    with True q show ?thesis by (simp add: duration_ms_def Let_def)
  next
    case False
    have "0 \<le> d mod 1000000" "d mod 1000000 < 1000000" by simp_all
    then have "(d + 999999) div 1000000 = d div 1000000 + 1"
      using False mult_div_mod_eq [of 1000000 d]
      by (intro int_div_pos_eq [where r = "d mod 1000000 - 1"]) auto
    with False q show ?thesis by (simp add: duration_ms_def Let_def)
  qed
  moreover have "0 \<le> (d + 999999) div 1000000" "(d + 999999) div 1000000 < 2 ^ 64"
    using assms by simp_all
  ultimately have "int (unat (duration_ms d)) = (d + 999999) div 1000000"
    by (simp only: u)
  moreover have "(d + 999999) div 1000000 = 0 \<longleftrightarrow> d = 0"
    using assms(1) by (simp add: zdiv_eq_0_iff) linarith
  moreover have "duration_ms d = 0 \<longleftrightarrow> int (unat (duration_ms d)) = 0"
    by (simp add: unsigned_eq_0_iff)
  ultimately show ?thesis by (simp only: simp_thms)
qed

subsection \<open>Headers\<close>

text \<open>A Go header list as Rust reads it once the base64 between them is undone.\<close>

fun plain_headers :: "header_codec \<Rightarrow> (string \<times> bytes) list \<Rightarrow> bridge_error + headers" where
  "plain_headers codec [] = Inr []"
| "plain_headers codec ((name, v) # rest) =
     and_then (map_err invalid (name_from_bytes codec name)) (\<lambda>n.
     and_then (map_err invalid (value_from_bytes codec v)) (\<lambda>v'.
     and_then (plain_headers codec rest) (\<lambda>hs. Inr ((n, v') # hs))))"

lemma decode_go_headers:
  assumes "\<forall>v. b64_decode hc (enc v) = Inr v"
  shows "decode_headers hc (map (\<lambda>(name, v). (name, enc v)) xs) = plain_headers hc xs"
  using assms by (induction xs) auto

subsection \<open>What Go gets\<close>

text \<open>The answer of a call as \<open>takeResult\<close> hands it out, whatever its size and its codec.\<close>

definition go_answer ::
  "(bridge_error \<Rightarrow> string + bytes) \<Rightarrow> unmarshal \<Rightarrow> call_result \<Rightarrow> u64 \<times> bytes \<times> go_error option" where
  "go_answer to_vec um r =
     (case r of
        Inr out \<Rightarrow>
          (if isize_max < length (out_data out) then (0, [], Some GoTooLarge)
           else if out_eof out then (0, [], Some GoEOF)
           else (out_handle out, out_data out, None))
      | Inl e \<Rightarrow>
          (let bs = projr (to_vec e)
           in if isize_max < length bs then (0, [], Some GoTooLarge)
              else (case um bs of
                      None \<Rightarrow> (0, [], Some GoInvalidError)
                    | Some (k, m) \<Rightarrow> (0, bs, Some (GoNative k m)))))"

text \<open>Serialising an error's three strings does not fail.\<close>

definition serialises :: "('t, 'c, 'k, 'h, 'n, 'm) bridge_env \<Rightarrow> bool" where
  "serialises env \<longleftrightarrow> (\<forall>e. \<exists>bs. en_to_vec env e = Inr bs)"

lemma take_result_any:
  assumes "heap_ok h" "res_buffer res = fst (buffer_new bs h)"
  shows "\<exists>h'. take_result um res (snd (buffer_new bs h)) =
            Some ((if isize_max < length bs then (0, [], Some GoTooLarge)
                   else if res_code res = 0 then (res_handle res, bs, None)
                   else if res_code res = 1 then
                     (case um bs of None \<Rightarrow> (0, [], Some GoInvalidError)
                      | Some (k, m) \<Rightarrow> (0, bs, Some (GoNative k m)))
                   else if res_code res = 2 then (0, [], Some GoEOF)
                   else (0, [], Some (GoUnknownCode (res_code res)))), h')
          \<and> live h' = live h \<and> heap_ok h'"
proof (cases "isize_max < length bs")
  case True
  obtain b h1 where new: "buffer_new bs h = (b, h1)"
    by (cases "buffer_new bs h")
  obtain h2 where free: "gocodex_buffer_free b h1 = Some h2" "live h2 = live h" "heap_ok h2"
    using buffer_new_free [OF assms(1) new] by blast
  show ?thesis
    using assms new free True buffer_new_len [OF new] by (simp add: take_result_def)
next
  case False
  then show ?thesis using take_result_new [OF assms(1) _ assms(2), of um] by simp
qed

lemma go_invoke_eq:
  assumes "abi_closure env call b = Some (r, b1)" "heap_ok (br_heap b1)" "serialises env"
  shows "\<exists>h. go_invoke env um call b = Some (go_answer (en_to_vec env) um r, b1\<lparr>br_heap := h\<rparr>) \<and>
           live h = live (br_heap b1) \<and> heap_ok h"
proof (cases r)
  case (Inl e)
  obtain bs where bs: "en_to_vec env e = Inr bs" using assms(3) by (auto simp: serialises_def)
  let ?res = "\<lparr>res_handle = 0, res_code = 1, res_buffer = fst (buffer_new bs (br_heap b1))\<rparr>"
  from take_result_any [OF assms(2), of ?res bs um]
  obtain h where "take_result um ?res (snd (buffer_new bs (br_heap b1))) =
      Some (go_answer (en_to_vec env) um r, h)" "live h = live (br_heap b1)" "heap_ok h"
    using Inl bs by (auto simp: go_answer_def)
  then show ?thesis
    using assms(1) Inl
    by (intro exI [of _ h]) (simp add: go_invoke_def abi_invoke_def ffi_error [of "en_to_vec env", OF bs])
next
  case (Inr out)
  let ?res = "\<lparr>res_handle = out_handle out, res_code = (if out_eof out then 2 else 0),
      res_buffer = fst (buffer_new (out_data out) (br_heap b1))\<rparr>"
  from take_result_any [OF assms(2), of ?res "out_data out" um]
  obtain h where "take_result um ?res (snd (buffer_new (out_data out) (br_heap b1))) =
      Some (go_answer (en_to_vec env) um r, h)" "live h = live (br_heap b1)" "heap_ok h"
    using Inr by (auto simp: go_answer_def)
  then show ?thesis
    using assms(1) Inr
    by (intro exI [of _ h]) (simp add: go_invoke_def abi_invoke_def ffi_returned)
qed

lemma go_ptr_contract [simp]: "caller_contract (go_ptr bs) (length bs)"
  by (simp add: go_ptr_def caller_contract_def)

lemma with_input_go [simp]: "length bs \<le> isize_max \<Longrightarrow> with_input (go_ptr bs) (length bs) f b = f bs b"
  by (auto simp: with_input_def input_buffer_def go_ptr_def)

subsection \<open>The calls on the HTTP registry\<close>

text \<open>What one call does to the state: the part it works on, and a heap as full as before.\<close>

definition http_after ::
  "('t, 'c, 'k, 'h, 'n, 'm) bridge \<Rightarrow> runtime_cell \<Rightarrow> ('t, 'h, 'n) http_world \<Rightarrow>
     ('t, 'c, 'k, 'h, 'n, 'm) bridge \<Rightarrow> bool" where
  "http_after b cell w b' \<longleftrightarrow>
     (\<exists>h. b' = b\<lparr>br_http := w, br_runtime := cell, br_heap := h\<rparr> \<and> live h = live (br_heap b) \<and> heap_ok h)"

lemma http_after_sel:
  "http_after b cell w b' \<Longrightarrow>
     br_http b' = w \<and> br_runtime b' = cell \<and> br_ws b' = br_ws b \<and> heap_ok (br_heap b')"
  by (auto simp: http_after_def)

lemma go_invoke_http:
  assumes "abi_closure env call b = Some (r, b\<lparr>br_http := w, br_runtime := cell\<rparr>)"
    and "heap_ok (br_heap b)" "serialises env"
  shows "\<exists>b'. go_invoke env um call b = Some (go_answer (en_to_vec env) um r, b') \<and> http_after b cell w b'"
  using go_invoke_eq [OF assms(1) _ assms(3), of um] assms(2) by (auto simp: http_after_def)

lemma bridge_request_new_after:
  assumes "heap_ok (br_heap b)" "serialises env" "length metadata \<le> isize_max" "length body \<le> isize_max"
    and "http_create_request (en_http env) (en_tokens env) i metadata body (br_http b) = (r, w)"
  shows "\<exists>b'. bridge_http_request_new env um i metadata body b =
             Some ((fst (go_answer (en_to_vec env) um r), snd (snd (go_answer (en_to_vec env) um r))), b') \<and>
           http_after b (br_runtime b) w b'"
proof -
  have "abi_closure env (HttpRequestNew i (go_ptr metadata) (length metadata) (go_ptr body) (length body)) b
      = Some (r, b\<lparr>br_http := w, br_runtime := br_runtime b\<rparr>)"
    using assms(3-5) by (simp add: exported_defs http_call_def)
  from go_invoke_http [OF this assms(1,2), of um] show ?thesis
    by (elim exE conjE, intro exI conjI) (simp only: bridge_http_request_new_def only_handle_def option.map fst_conv snd_conv, assumption)
qed

lemma bridge_request_send_after:
  assumes "heap_ok (br_heap b)" "serialises env"
    and "http_send (en_http env) (en_tokens env) (en_build env) (en_fire env) i (br_runtime b) (br_http b)
           = (r, cell, w)"
  shows "\<exists>b'. bridge_http_request_send env um i b = Some (snd (go_answer (en_to_vec env) um r), b') \<and>
           http_after b cell w b'"
proof -
  have "abi_closure env (HttpRequestSend i) b = Some (r, b\<lparr>br_http := w, br_runtime := cell\<rparr>)"
    using assms(3) by (simp add: exported_defs http_task_def)
  from go_invoke_http [OF this assms(1,2), of um] show ?thesis
    by (elim exE conjE, intro exI conjI) (simp only: bridge_http_request_send_def only_data_def option.map fst_conv snd_conv, assumption)
qed

lemma bridge_response_read_after:
  assumes "heap_ok (br_heap b)" "serialises env"
    and "http_read (en_tokens env) (en_build env) (en_fire env) i n (br_runtime b) (br_http b) = (r, cell, w)"
  shows "\<exists>b'. bridge_http_response_read env um i n b = Some (snd (go_answer (en_to_vec env) um r), b') \<and>
           http_after b cell w b'"
proof -
  have "abi_closure env (HttpResponseRead i n) b = Some (r, b\<lparr>br_http := w, br_runtime := cell\<rparr>)"
    using assms(3) by (simp add: exported_defs http_task_def)
  from go_invoke_http [OF this assms(1,2), of um] show ?thesis
    by (elim exE conjE, intro exI conjI) (simp only: bridge_http_response_read_def only_data_def option.map fst_conv snd_conv, assumption)
qed

lemma bridge_request_close_after:
  assumes "heap_ok (br_heap b)" "serialises env"
    and "http_close_request (en_tokens env) i (br_http b) = (r, w)"
  shows "\<exists>b'. bridge_http_request_close env um i b =
             Some (snd (snd (go_answer (en_to_vec env) um r)), b') \<and> http_after b (br_runtime b) w b'"
proof -
  have "abi_closure env (HttpRequestClose i) b = Some (r, b\<lparr>br_http := w, br_runtime := br_runtime b\<rparr>)"
    using assms(3) by (simp add: exported_defs http_call_def)
  from go_invoke_http [OF this assms(1,2), of um] show ?thesis
    by (elim exE conjE, intro exI conjI) (simp only: bridge_http_request_close_def only_error_def option.map fst_conv snd_conv, assumption)
qed

lemma bridge_client_close_after:
  assumes "heap_ok (br_heap b)" "serialises env"
    and "http_close (en_tokens env) i (br_http b) = (r, w)"
  shows "\<exists>b'. bridge_http_client_close env um i b =
             Some (snd (snd (go_answer (en_to_vec env) um r)), b') \<and> http_after b (br_runtime b) w b'"
proof -
  have "abi_closure env (HttpClientClose i) b = Some (r, b\<lparr>br_http := w, br_runtime := br_runtime b\<rparr>)"
    using assms(3) by (simp add: exported_defs http_call_def)
  from go_invoke_http [OF this assms(1,2), of um] show ?thesis
    by (elim exE conjE, intro exI conjI) (simp only: bridge_http_client_close_def only_error_def option.map fst_conv snd_conv, assumption)
qed

subsection \<open>A concrete codec\<close>

text \<open>One character per byte in place of base64.\<close>

definition byte_text :: "bytes \<Rightarrow> string" where
  "byte_text bs = map (\<lambda>b. char_of (unat b)) bs"

lemma ascii_byte_text [simp]: "ascii (byte_text v) = v"
proof -
  have "byte_of (char_of (unat b)) = b" for b
  proof -
    have "byte_of (char_of (unat b)) = of_nat (of_char (char_of (unat b)))"
      by (simp only: byte_of_def of_nat_of_char)
    also have "\<dots> = of_nat (unat b)"
      using unsigned_less [of b, where ?'a = nat] by (simp only: of_char_of) simp
    finally show ?thesis by simp
  qed
  then show ?thesis by (induction v) (simp_all add: byte_text_def)
qed

definition sample_text_codec :: header_codec where
  "sample_text_codec =
     \<lparr>name_from_bytes = Inr, value_from_bytes = Inr, value_from_str = (\<lambda>s. Inr (ascii s)),
      b64_decode = (\<lambda>s. Inr (ascii s)), b64_encode = byte_text\<rparr>"

end
