(* ===== verification/Go_Http.thy ===== *)
theory Go_Http
  imports Go_Bridge
begin

text \<open>
  \<open>httpclient/client.go\<close>: the client, \<open>Do\<close> and the response body, over the bridge's calls. One
  client, one context and one request at a time, with what other goroutines may do in between (the
  context ending, the client or the body being closed) as events at the points where \<open>Do\<close> and
  \<open>Read\<close> are not holding a lock.
\<close>

subsection \<open>Options\<close>

record go_http_options =
  go_timeout :: int
  go_proxy_policy :: string
  go_proxy_url :: string
  go_no_proxy :: bool
  go_disable_redirects :: bool
  go_user_agent :: string
  go_chatgpt_cookies :: "string list option"
  go_tls_fallback :: bool

text \<open>What the package uses of \<open>encoding/json\<close>, \<open>encoding/base64\<close> and \<open>net/textproto\<close>; \<open>'j\<close> is a
  Go value given as a JSON body. The structs it encodes have the fields of the Rust ones.\<close>

record 'j go_codec =
  gc_config :: "http_config \<Rightarrow> string + bytes"
  gc_request :: "request_meta \<Rightarrow> string + bytes"
  gc_response :: "bytes \<Rightarrow> string + response_meta"
  gc_value :: "'j \<Rightarrow> string + bytes"
  gc_b64_encode :: "bytes \<Rightarrow> string"
  gc_b64_decode :: "string \<Rightarrow> string + bytes"
  gc_canonical :: "string \<Rightarrow> string"

subsection \<open>Errors and state\<close>

text \<open>The errors the package returns: the context's, its own two values, one of the bridge, one of
  the bridge inside \<open>net.OpError\<close> (with a \<open>net.DNSError\<close> in between), anything else as a text.\<close>

datatype http_fault =
    FaultContext string
  | FaultClientClosed
  | FaultBodyClosed
  | FaultBridge go_error
  | FaultDial go_error
  | FaultDns go_error
  | FaultOther string

record go_body =
  gb_handle :: u64
  gb_closed :: bool
  gb_err :: "http_fault option"

text \<open>\<open>gh_hook\<close>: the \<open>context.AfterFunc\<close> that closes a request's handle, while it has neither run
  nor been stopped.\<close>

record ('t, 'c, 'k, 'h, 'n, 'm) go_http =
  gh_bridge :: "('t, 'c, 'k, 'h, 'n, 'm) bridge"
  gh_client :: u64
  gh_ctx :: go_ctx
  gh_hook :: "u64 option"
  gh_body :: "go_body option"

subsection \<open>The client\<close>

definition go_new_client ::
  "'j go_codec \<Rightarrow> ('t, 'c, 'k, 'h, 'n, 'm) bridge_env \<Rightarrow> unmarshal \<Rightarrow> go_http_options \<Rightarrow>
     ('t, 'c, 'k, 'h, 'n, 'm) bridge \<Rightarrow>
     ((http_fault + u64) \<times> ('t, 'c, 'k, 'h, 'n, 'm) bridge) option" where
  "go_new_client codec env um opts b =
     (if go_timeout opts < 0 then
        Some (Inl (FaultOther ''codexhttp: Timeout must not be negative''), b)
      else if go_no_proxy opts \<and> go_proxy_url opts \<noteq> '''' then
        Some (Inl (FaultOther ''httpclient: ProxyURL and NoProxy are mutually exclusive''), b)
      else if (go_no_proxy opts \<or> go_proxy_url opts \<noteq> '''') \<and> go_tls_fallback opts then
        Some (Inl (FaultOther ''httpclient: TLSBackendFallback requires automatic proxy routing''), b)
      else
        (let policy = (if go_proxy_policy opts = '''' then ''respect_system_proxy'' else go_proxy_policy opts)
         in if policy \<noteq> ''respect_system_proxy'' \<and> policy \<noteq> ''reqwest_default'' then
              Some (Inl (FaultOther ''codexhttp: invalid ProxyPolicy''), b)
            else
              (case gc_config codec
                      \<lparr>hc_timeout_ms = duration_ms (go_timeout opts), hc_proxy_policy = policy,
                       hc_proxy_url = go_proxy_url opts, hc_no_proxy = go_no_proxy opts,
                       hc_disable_redirects = go_disable_redirects opts,
                       hc_user_agent = go_user_agent opts,
                       hc_chatgpt_cookies = go_chatgpt_cookies opts,
                       hc_tls_backend_fallback = go_tls_fallback opts\<rparr> of
                 Inl e \<Rightarrow> Some (Inl (FaultOther e), b)
               | Inr config \<Rightarrow>
                   map_option (\<lambda>((i, err), b'). (case err of None \<Rightarrow> Inr i | Some e \<Rightarrow> Inl (FaultBridge e), b'))
                     (bridge_http_client_new env um config b))))"

definition go_client_close ::
  "('t, 'c, 'k, 'h, 'n, 'm) bridge_env \<Rightarrow> unmarshal \<Rightarrow> ('t, 'c, 'k, 'h, 'n, 'm, 'z) go_http_scheme \<Rightarrow>
     (go_error option \<times> ('t, 'c, 'k, 'h, 'n, 'm, 'z) go_http_scheme) option" where
  "go_client_close env um g =
     (if gh_client g = 0 then Some (None, g)
      else map_option (\<lambda>(err, b). (err, g\<lparr>gh_client := 0, gh_bridge := b\<rparr>))
             (bridge_http_client_close env um (gh_client g) (gh_bridge g)))"

subsection \<open>What other goroutines do\<close>

text \<open>Stopping the hook, and closing the request's handle.\<close>

definition go_stop :: "('t, 'c, 'k, 'h, 'n, 'm, 'z) go_http_scheme \<Rightarrow> ('t, 'c, 'k, 'h, 'n, 'm, 'z) go_http_scheme" where
  "go_stop g = g\<lparr>gh_hook := None\<rparr>"

definition go_close_handle ::
  "('t, 'c, 'k, 'h, 'n, 'm) bridge_env \<Rightarrow> unmarshal \<Rightarrow> u64 \<Rightarrow> ('t, 'c, 'k, 'h, 'n, 'm, 'z) go_http_scheme \<Rightarrow>
     (go_error option \<times> ('t, 'c, 'k, 'h, 'n, 'm, 'z) go_http_scheme) option" where
  "go_close_handle env um i g =
     map_option (\<lambda>(err, b). (err, g\<lparr>gh_bridge := b\<rparr>)) (bridge_http_request_close env um i (gh_bridge g))"

definition go_body_close ::
  "('t, 'c, 'k, 'h, 'n, 'm) bridge_env \<Rightarrow> unmarshal \<Rightarrow> ('t, 'c, 'k, 'h, 'n, 'm, 'z) go_http_scheme \<Rightarrow>
     (go_error option \<times> ('t, 'c, 'k, 'h, 'n, 'm, 'z) go_http_scheme) option" where
  "go_body_close env um g =
     (case gh_body g of
        None \<Rightarrow> Some (None, g)
      | Some bd \<Rightarrow>
          if gb_closed bd then Some (None, g)
          else go_close_handle env um (gb_handle bd) (go_stop (g\<lparr>gh_body := Some (bd\<lparr>gb_closed := True\<rparr>)\<rparr>)))"

text \<open>The context's hook, when it is set and the context is over.\<close>

definition go_run_hook ::
  "('t, 'c, 'k, 'h, 'n, 'm) bridge_env \<Rightarrow> unmarshal \<Rightarrow> ('t, 'c, 'k, 'h, 'n, 'm, 'z) go_http_scheme \<Rightarrow>
     ('t, 'c, 'k, 'h, 'n, 'm, 'z) go_http_scheme option" where
  "go_run_hook env um g =
     (case (gh_ctx g, gh_hook g) of
        (DoneCtx m, Some i) \<Rightarrow> map_option (\<lambda>(_, g'). go_stop g') (go_close_handle env um i g)
      | _ \<Rightarrow> Some g)"

datatype go_event = CtxDone string | CloseClient | CloseBody

definition go_event_step ::
  "('t, 'c, 'k, 'h, 'n, 'm) bridge_env \<Rightarrow> unmarshal \<Rightarrow> go_event \<Rightarrow> ('t, 'c, 'k, 'h, 'n, 'm, 'z) go_http_scheme \<Rightarrow>
     ('t, 'c, 'k, 'h, 'n, 'm, 'z) go_http_scheme option" where
  "go_event_step env um ev g =
     (case ev of
        CtxDone m \<Rightarrow> go_run_hook env um (if gh_ctx g = LiveCtx then g\<lparr>gh_ctx := DoneCtx m\<rparr> else g)
      | CloseClient \<Rightarrow> map_option snd (go_client_close env um g)
      | CloseBody \<Rightarrow> map_option snd (go_body_close env um g))"

fun go_events ::
  "('t, 'c, 'k, 'h, 'n, 'm) bridge_env \<Rightarrow> unmarshal \<Rightarrow> go_event list \<Rightarrow> ('t, 'c, 'k, 'h, 'n, 'm, 'z) go_http_scheme \<Rightarrow>
     ('t, 'c, 'k, 'h, 'n, 'm, 'z) go_http_scheme option" where
  "go_events env um [] g = Some g"
| "go_events env um (ev # evs) g = Option.bind (go_event_step env um ev g) (go_events env um evs)"

text \<open>What may happen at the \<open>k\<close>-th point of an operation at which it holds no lock; \<open>quiet\<close>: nothing.\<close>

type_synonym ('t, 'c, 'k, 'h, 'n, 'm, 'z) interference =
  "nat \<Rightarrow> ('t, 'c, 'k, 'h, 'n, 'm, 'z) go_http_scheme \<Rightarrow> ('t, 'c, 'k, 'h, 'n, 'm, 'z) go_http_scheme option"

definition quiet :: "('t, 'c, 'k, 'h, 'n, 'm, 'z) interference" where
  [simp]: "quiet k g = Some g"

subsection \<open>Do\<close>

record 'j go_request =
  gr_method :: string
  gr_url :: string
  gr_headers :: "(string \<times> bytes list) list"
  gr_body :: "bytes option"
  gr_json :: "'j option"

record go_response =
  gp_status :: nat
  gp_url :: string
  gp_protocol :: string
  gp_headers :: "(string \<times> bytes) list"
  gp_content_length :: int

text \<open>\<open>requestError\<close>: the context first, then a closed client, then the error itself, inside
  \<open>net.OpError\<close> where the connection could not be made.\<close>

definition request_error :: "('t, 'c, 'k, 'h, 'n, 'm, 'z) go_http_scheme \<Rightarrow> go_error \<Rightarrow> http_fault" where
  "request_error g e =
     (case gh_ctx g of
        DoneCtx m \<Rightarrow> FaultContext m
      | _ \<Rightarrow>
          if gh_client g = 0 then FaultClientClosed
          else (case e of
                  GoNative k m \<Rightarrow>
                    if k = ''dns'' then FaultDns e else if k = ''connect'' then FaultDial e else FaultBridge e
                | _ \<Rightarrow> FaultBridge e))"

text \<open>The checks and the encoding before the first call.\<close>

definition go_metadata :: "'j go_codec \<Rightarrow> 'j go_request \<Rightarrow> bytes option \<Rightarrow> request_meta" where
  "go_metadata codec req json =
     \<lparr>rm_method = (if gr_method req = '''' then ''GET'' else gr_method req), rm_url = gr_url req,
      rm_headers = concat (map (\<lambda>(name, vs). map (\<lambda>v. (name, gc_b64_encode codec v)) vs) (gr_headers req)),
      rm_has_body = (gr_body req \<noteq> None), rm_has_json = (gr_json req \<noteq> None), rm_json = json\<rparr>"

definition go_encode :: "'j go_codec \<Rightarrow> 'j go_request \<Rightarrow> http_fault + bytes" where
  "go_encode codec req =
     (if gr_body req \<noteq> None \<and> gr_json req \<noteq> None then
        Inl (FaultOther ''codexhttp: Body and JSON are mutually exclusive'')
      else
        and_then (case gr_json req of
                    None \<Rightarrow> Inr None
                  | Some v \<Rightarrow> and_then (map_err (\<lambda>e. FaultOther (''codexhttp: encode JSON request: '' @ e)) (gc_value codec v))
                               (\<lambda>bs. Inr (Some bs)))
          (\<lambda>json. map_err FaultOther (gc_request codec (go_metadata codec req json))))"

definition go_body_bytes :: "'j go_request \<Rightarrow> bytes" where
  "go_body_bytes req = (case gr_body req of None \<Rightarrow> [] | Some bs \<Rightarrow> bs)"

text \<open>The response from its metadata; headers are added in order, under their canonical names.\<close>

fun go_decode_headers :: "'j go_codec \<Rightarrow> (string \<times> string) list \<Rightarrow> string + (string \<times> bytes) list" where
  "go_decode_headers codec [] = Inr []"
| "go_decode_headers codec ((name, v) # rest) =
     and_then (gc_b64_decode codec v) (\<lambda>raw.
     and_then (go_decode_headers codec rest) (\<lambda>hs. Inr ((gc_canonical codec name, raw) # hs)))"

definition go_decode_response :: "'j go_codec \<Rightarrow> bytes \<Rightarrow> http_fault + go_response" where
  "go_decode_response codec data =
     and_then (map_err (\<lambda>e. FaultOther (''codexhttp: decode response metadata: '' @ e)) (gc_response codec data)) (\<lambda>m.
     and_then (map_err (\<lambda>e. FaultOther (''codexhttp: decode response header: '' @ e))
                 (go_decode_headers codec (mt_headers m))) (\<lambda>hs.
       Inr \<lparr>gp_status = mt_status m, gp_url = mt_url m, gp_protocol = mt_protocol m, gp_headers = hs,
            gp_content_length = (case mt_content_length m of None \<Rightarrow> -1 | Some n \<Rightarrow> int n)\<rparr>))"

text \<open>Every failure after the request exists: stop the hook, close the handle.\<close>

definition go_abandon ::
  "('t, 'c, 'k, 'h, 'n, 'm) bridge_env \<Rightarrow> unmarshal \<Rightarrow> u64 \<Rightarrow> ('t, 'c, 'k, 'h, 'n, 'm, 'z) go_http_scheme \<Rightarrow>
     ('t, 'c, 'k, 'h, 'n, 'm, 'z) go_http_scheme option" where
  "go_abandon env um i g = map_option snd (go_close_handle env um i (go_stop g))"

definition go_send ::
  "'j go_codec \<Rightarrow> ('t, 'c, 'k, 'h, 'n, 'm) bridge_env \<Rightarrow> unmarshal \<Rightarrow>
     ('t, 'c, 'k, 'h, 'n, 'm, 'z) interference \<Rightarrow> nat option \<Rightarrow> u64 \<Rightarrow>
     ('t, 'c, 'k, 'h, 'n, 'm, 'z) go_http_scheme \<Rightarrow>
     ((http_fault + go_response) \<times> ('t, 'c, 'k, 'h, 'n, 'm, 'z) go_http_scheme) option" where
  "go_send codec env um ev fire i g =
     Option.bind (bridge_http_request_send (env\<lparr>en_fire := fire\<rparr>) um i (gh_bridge g)) (\<lambda>((data, err), b).
     Option.bind (ev 2 (g\<lparr>gh_bridge := b\<rparr>)) (\<lambda>g1.
       case err of
         Some e \<Rightarrow> map_option (\<lambda>g2. (Inl (request_error g2 e), g2)) (go_abandon env um i g1)
       | None \<Rightarrow>
           (case go_decode_response codec data of
              Inl e \<Rightarrow> map_option (\<lambda>g2. (Inl e, g2)) (go_abandon env um i g1)
            | Inr resp \<Rightarrow>
                Some (Inr resp, g1\<lparr>gh_body := Some \<lparr>gb_handle = i, gb_closed = False, gb_err = None\<rparr>\<rparr>))))"

text \<open>\<open>ev k\<close>: what happens before the request is created, before it is sent, after it was sent;
  \<open>fire\<close>: the await of the send at which the call is cancelled, if any.\<close>

definition go_do ::
  "'j go_codec \<Rightarrow> ('t, 'c, 'k, 'h, 'n, 'm) bridge_env \<Rightarrow> unmarshal \<Rightarrow>
     ('t, 'c, 'k, 'h, 'n, 'm, 'z) interference \<Rightarrow> nat option \<Rightarrow>
     'j go_request \<Rightarrow> ('t, 'c, 'k, 'h, 'n, 'm, 'z) go_http_scheme \<Rightarrow>
     ((http_fault + go_response) \<times> ('t, 'c, 'k, 'h, 'n, 'm, 'z) go_http_scheme) option" where
  "go_do codec env um ev fire req g =
     (case gh_ctx g of
        NilCtx \<Rightarrow> Some (Inl (FaultOther ''codexhttp: nil context''), g)
      | DoneCtx m \<Rightarrow> Some (Inl (FaultContext m), g)
      | LiveCtx \<Rightarrow>
          let client = gh_client g in
          if client = 0 then Some (Inl FaultClientClosed, g)
          else
            (case go_encode codec req of
               Inl e \<Rightarrow> Some (Inl e, g)
             | Inr metadata \<Rightarrow>
                 Option.bind (ev 0 g) (\<lambda>g1.
                 Option.bind (bridge_http_request_new env um client metadata (go_body_bytes req) (gh_bridge g1))
                   (\<lambda>((i, err), b).
                     let g2 = g1\<lparr>gh_bridge := b\<rparr> in
                     case err of
                       Some e \<Rightarrow> Some (Inl (request_error g2 e), g2)
                     | None \<Rightarrow>
                         Option.bind (go_run_hook env um (g2\<lparr>gh_hook := Some i\<rparr>)) (\<lambda>g3.
                         Option.bind (ev 1 g3) (\<lambda>g4.
                           go_send codec env um ev fire i g4))))))"

text \<open>\<open>Get\<close> and \<open>PostJSON\<close>; \<open>json_null\<close> is \<open>json.RawMessage("null")\<close>.\<close>

definition go_get where
  "go_get codec env um ev fire url g =
     go_do codec env um ev fire
       \<lparr>gr_method = '''', gr_url = url, gr_headers = [], gr_body = None, gr_json = None\<rparr> g"

definition go_post_json where
  "go_post_json codec env um ev fire json_null url value g =
     go_do codec env um ev fire
       \<lparr>gr_method = ''POST'', gr_url = url, gr_headers = [], gr_body = None,
        gr_json = Some (case value of None \<Rightarrow> json_null | Some v \<Rightarrow> v)\<rparr> g"

subsection \<open>The response body\<close>

text \<open>\<open>responseBody.Read\<close> with a buffer of \<open>n\<close> bytes; \<open>ev 0\<close> and \<open>ev 1\<close> come before and after the
  bridge's read.\<close>

definition go_body_read ::
  "('t, 'c, 'k, 'h, 'n, 'm) bridge_env \<Rightarrow> unmarshal \<Rightarrow>
     ('t, 'c, 'k, 'h, 'n, 'm, 'z) interference \<Rightarrow> nat option \<Rightarrow> nat \<Rightarrow>
     ('t, 'c, 'k, 'h, 'n, 'm, 'z) go_http_scheme \<Rightarrow>
     ((bytes \<times> http_fault option) \<times> ('t, 'c, 'k, 'h, 'n, 'm, 'z) go_http_scheme) option" where
  "go_body_read env um ev fire n g =
     (case gh_body g of
        None \<Rightarrow> None
      | Some bd \<Rightarrow>
          if gb_closed bd then Some (([], Some FaultBodyClosed), g)
          else if gb_err bd \<noteq> None then Some (([], gb_err bd), g)
          else if n = 0 then Some (([], None), g)
          else
            Option.bind (ev 0 g) (\<lambda>g1.
            Option.bind (bridge_http_response_read (env\<lparr>en_fire := fire\<rparr>) um (gb_handle bd) n (gh_bridge g1))
              (\<lambda>((data, err), b).
            Option.bind (ev 1 (g1\<lparr>gh_bridge := b\<rparr>)) (\<lambda>g2.
              case err of
                None \<Rightarrow> Some ((take n data, None), g2)
              | Some e \<Rightarrow>
                  (let bd2 = the (gh_body g2);
                       fault = (if gb_closed bd2 then FaultBodyClosed else request_error g2 e);
                       g3 = g2\<lparr>gh_body := Some (bd2\<lparr>gb_err := Some fault\<rparr>)\<rparr>
                   in map_option (\<lambda>g4. (([], Some fault), g4)) (go_abandon env um (gb_handle bd) g3))))))"

subsection \<open>What the steps keep\<close>

text \<open>The request handles that are registered; and a state in which calls return: the heap is well
  formed and no thread has panicked with the registry's lock.\<close>

definition open_handles :: "('t, 'c, 'k, 'h, 'n, 'm, 'z) go_http_scheme \<Rightarrow> u64 set" where
  "open_handles g = dom (hw_calls (br_http (gh_bridge g)))"

definition calm :: "('t, 'c, 'k, 'h, 'n, 'm, 'z) go_http_scheme \<Rightarrow> bool" where
  "calm g \<longleftrightarrow> heap_ok (br_heap (gh_bridge g)) \<and> \<not> hw_poisoned (br_http (gh_bridge g))"

text \<open>A body may be closed by others; its handle and its error stay.\<close>

definition body_le :: "go_body option \<Rightarrow> go_body option \<Rightarrow> bool" where
  "body_le = rel_option (\<lambda>bd bd'. gb_handle bd' = gb_handle bd \<and> gb_err bd' = gb_err bd \<and>
                                  (gb_closed bd \<longrightarrow> gb_closed bd'))"

definition go_le :: "('t, 'c, 'k, 'h, 'n, 'm, 'z) go_http_scheme \<Rightarrow> ('t, 'c, 'k, 'h, 'n, 'm, 'z) go_http_scheme \<Rightarrow> bool" where
  "go_le g g' \<longleftrightarrow> calm g' \<and> open_handles g' \<subseteq> open_handles g \<and> body_le (gh_body g) (gh_body g') \<and>
     (gh_hook g = None \<longrightarrow> gh_hook g' = None)"

lemma body_le_refl [simp]: "body_le bd bd"
  by (simp add: body_le_def option.rel_refl)

lemma body_le_trans: "body_le a b \<Longrightarrow> body_le b c \<Longrightarrow> body_le a c"
  unfolding body_le_def
  by (erule option.rel_cases; erule option.rel_cases) auto

lemma go_le_refl: "calm g \<Longrightarrow> go_le g g"
  by (simp add: go_le_def)

lemma go_le_trans: "go_le a b \<Longrightarrow> go_le b c \<Longrightarrow> go_le a c"
  unfolding go_le_def by (blast intro: body_le_trans)

lemma http_close_request_calls:
  assumes "http_close_request api i w = (r, w')" "\<not> hw_poisoned w"
  shows "dom (hw_calls w') = dom (hw_calls w) - {i} \<and> hw_poisoned w' = hw_poisoned w \<and> r = Inr (output_handle 0)"
  using assms
  by (auto simp: http_close_request_def http_registry_def http_remove_call_def http_cancel_def
      split: option.splits if_splits)

lemma http_close_calls:
  assumes "http_close api i w = (r, w')" "\<not> hw_poisoned w"
  shows "dom (hw_calls w') \<subseteq> dom (hw_calls w) \<and> hw_poisoned w' = hw_poisoned w"
  using assms
  by (auto simp: http_close_def http_registry_def http_unregister_def http_cancel_def dom_def
      split: option.splits if_splits)

lemma go_close_handle_keeps:
  assumes "calm g" "serialises env"
  obtains b where "go_close_handle env um i g = Some (None, g\<lparr>gh_bridge := b\<rparr>)"
    "calm (g\<lparr>gh_bridge := b\<rparr>)" "open_handles (g\<lparr>gh_bridge := b\<rparr>) = open_handles g - {i}"
proof -
  let ?b = "gh_bridge g"
  obtain r w where c: "http_close_request (en_tokens env) i (br_http ?b) = (r, w)"
    by (cases "http_close_request (en_tokens env) i (br_http ?b)")
  with assms(1) http_close_request_calls [OF c]
  have w: "dom (hw_calls w) = open_handles g - {i}" "\<not> hw_poisoned w" "r = Inr (output_handle 0)"
    by (simp_all add: calm_def open_handles_def)
  obtain b where "bridge_http_request_close env um i ?b = Some (snd (snd (go_answer (en_to_vec env) um r)), b)"
    "http_after ?b (br_runtime ?b) w b"
    using bridge_request_close_after [OF _ assms(2) c] assms(1) by (auto simp: calm_def)
  with w http_after_sel [OF this(2)] that [of b] show ?thesis
    by (simp add: go_close_handle_def go_answer_def calm_def open_handles_def)
qed

lemma go_client_close_keeps:
  assumes "calm g" "serialises env"
  obtains err g' where "go_client_close env um g = Some (err, g')" "go_le g g'"
    "gh_body g' = gh_body g" "gh_ctx g' = gh_ctx g" "gh_hook g' = gh_hook g"
proof (cases "gh_client g = 0")
  case True
  with that [of None g] go_le_refl [OF assms(1)] show ?thesis by (simp add: go_client_close_def)
next
  case False
  let ?b = "gh_bridge g"
  obtain r w where c: "http_close (en_tokens env) (gh_client g) (br_http ?b) = (r, w)"
    by (cases "http_close (en_tokens env) (gh_client g) (br_http ?b)")
  with assms(1) http_close_calls [OF c]
  have w: "dom (hw_calls w) \<subseteq> open_handles g" "\<not> hw_poisoned w"
    by (simp_all add: calm_def open_handles_def)
  obtain err b where "bridge_http_client_close env um (gh_client g) ?b = Some (err, b)"
    "http_after ?b (br_runtime ?b) w b"
    using bridge_client_close_after [OF _ assms(2) c, of um] assms(1) by (auto simp: calm_def)
  with w False http_after_sel [OF this(2)] that [of err "g\<lparr>gh_client := 0, gh_bridge := b\<rparr>"] show ?thesis
    by (simp add: go_client_close_def go_le_def calm_def open_handles_def)
qed

lemma go_le_stop: "go_le g h \<Longrightarrow> go_le g (go_stop h)"
  by (simp add: go_le_def go_stop_def calm_def open_handles_def)

lemma go_abandon_keeps:
  assumes "calm g" "serialises env"
  obtains b where "go_abandon env um i g = Some (g\<lparr>gh_hook := None, gh_bridge := b\<rparr>)"
    "calm (g\<lparr>gh_hook := None, gh_bridge := b\<rparr>)"
    "open_handles (g\<lparr>gh_hook := None, gh_bridge := b\<rparr>) = open_handles g - {i}"
proof -
  have "calm (go_stop g)" using assms(1) by (simp add: calm_def go_stop_def)
  from go_close_handle_keeps [OF this assms(2), of um i] that show ?thesis
    by (fastforce simp: go_abandon_def go_stop_def open_handles_def calm_def)
qed

lemma go_body_close_keeps:
  assumes "calm g" "serialises env"
  obtains g' where "go_body_close env um g = Some (None, g')" "go_le g g'"
    "gh_client g' = gh_client g" "gh_ctx g' = gh_ctx g"
proof (cases "\<exists>bd. gh_body g = Some bd \<and> \<not> gb_closed bd")
  case False
  with go_le_refl [OF assms(1)] that [of g] show ?thesis
    by (auto simp: go_body_close_def split: option.splits)
next
  case True
  then obtain bd where bd: "gh_body g = Some bd" "\<not> gb_closed bd" by blast
  let ?g = "go_stop (g\<lparr>gh_body := Some (bd\<lparr>gb_closed := True\<rparr>)\<rparr>)"
  have "calm ?g" using assms(1) by (simp add: calm_def go_stop_def)
  from go_close_handle_keeps [OF this assms(2), of um "gb_handle bd"]
  obtain b where b: "go_close_handle env um (gb_handle bd) ?g = Some (None, ?g\<lparr>gh_bridge := b\<rparr>)"
    "calm (?g\<lparr>gh_bridge := b\<rparr>)" "open_handles (?g\<lparr>gh_bridge := b\<rparr>) = open_handles ?g - {gb_handle bd}" .
  with bd that [of "?g\<lparr>gh_bridge := b\<rparr>"] show ?thesis
    by (auto simp: go_body_close_def go_le_def body_le_def go_stop_def open_handles_def)
qed

lemma go_run_hook_keeps:
  assumes "calm g" "serialises env"
  obtains g' where "go_run_hook env um g = Some g'" "go_le g g'" "gh_body g' = gh_body g"
    "gh_client g' = gh_client g" "gh_ctx g' = gh_ctx g"
proof (cases "(\<exists>m. gh_ctx g = DoneCtx m) \<and> gh_hook g \<noteq> None")
  case False
  with go_le_refl [OF assms(1)] that [of g] show ?thesis
    by (auto simp: go_run_hook_def split: go_ctx.splits option.splits)
next
  case True
  then obtain m i where c: "gh_ctx g = DoneCtx m" "gh_hook g = Some i" by blast
  from go_close_handle_keeps [OF assms, of um i]
  obtain b where b: "go_close_handle env um i g = Some (None, g\<lparr>gh_bridge := b\<rparr>)"
    "calm (g\<lparr>gh_bridge := b\<rparr>)" "open_handles (g\<lparr>gh_bridge := b\<rparr>) = open_handles g - {i}" .
  then have "go_le g (go_stop (g\<lparr>gh_bridge := b\<rparr>))"
    by (auto simp: go_le_def go_stop_def calm_def open_handles_def)
  with b c that [of "go_stop (g\<lparr>gh_bridge := b\<rparr>)"] show ?thesis
    by (simp add: go_run_hook_def go_stop_def)
qed

lemma go_event_keeps:
  assumes "calm g" "serialises env"
  obtains g' where "go_event_step env um ev g = Some g'" "go_le g g'"
proof (cases ev)
  case (CtxDone m)
  let ?g = "if gh_ctx g = LiveCtx then g\<lparr>gh_ctx := DoneCtx m\<rparr> else g"
  have "calm ?g" "go_le g ?g" using assms(1) by (auto simp: calm_def go_le_def open_handles_def)
  moreover from go_run_hook_keeps [OF this(1) assms(2), of um] obtain g' where
    "go_run_hook env um ?g = Some g'" "go_le ?g g'" by metis
  ultimately show ?thesis using CtxDone that go_le_trans by (simp add: go_event_step_def) blast
next
  case CloseClient
  from go_client_close_keeps [OF assms, of um] obtain err g' where
    "go_client_close env um g = Some (err, g')" "go_le g g'" .
  with CloseClient that show ?thesis by (simp add: go_event_step_def)
next
  case CloseBody
  from go_body_close_keeps [OF assms, of um] obtain g' where
    "go_body_close env um g = Some (None, g')" "go_le g g'" .
  with CloseBody that show ?thesis by (simp add: go_event_step_def)
qed

lemma go_events_keep:
  assumes "calm g" "serialises env"
  shows "\<exists>g'. go_events env um evs g = Some g' \<and> go_le g g'"
  using assms(1)
proof (induction evs arbitrary: g)
  case Nil
  then show ?case by (simp add: go_le_refl)
next
  case (Cons ev evs)
  from go_event_keeps [OF Cons.prems assms(2), of um ev]
  obtain g1 where g1: "go_event_step env um ev g = Some g1" "go_le g g1" .
  then have "calm g1" by (simp add: go_le_def)
  from Cons.IH [OF this] obtain g' where "go_events env um evs g1 = Some g'" "go_le g1 g'" by blast
  with g1 go_le_trans show ?case by fastforce
qed

lemma http_send_calls:
  "http_send sdk api build fire i cell w = (r, cell', w') \<Longrightarrow>
     hw_calls w' = hw_calls w \<and> hw_poisoned w' = hw_poisoned w"
  by (auto simp: http_send_def only_phase_def split: sum.splits dest: only_phase_send_on)

lemma http_read_calls:
  "http_read api build fire i n cell w = (r, cell', w') \<Longrightarrow>
     hw_calls w' = hw_calls w \<and> hw_poisoned w' = hw_poisoned w"
  by (auto simp: http_read_def only_phase_def split: sum.splits if_splits dest: only_phase_read_on)

lemma http_create_request_calls:
  assumes "http_create_request sdk api i metadata body w = (r, w')"
  shows "hw_poisoned w' = hw_poisoned w \<and>
    (case r of Inl e \<Rightarrow> hw_calls w' = hw_calls w
     | Inr out \<Rightarrow> \<exists>j. out = output_handle j \<and> dom (hw_calls w') \<subseteq> insert j (dom (hw_calls w)))"
proof (cases "http_find_client i w")
  case (Inl e)
  with assms show ?thesis by (auto simp: http_create_request_def)
next
  case (Inr client)
  show ?thesis
  proof (cases "prepare_request sdk client metadata body")
    case (Inl e)
    with assms \<open>http_find_client i w = Inr client\<close> show ?thesis by (auto simp: http_create_request_def)
  next
    case (Inr p)
    obtain h t where child: "tok_child api (cl_cancel client) (hw_tokens w) = (h, t)"
      by (cases "tok_child api (cl_cancel client) (hw_tokens w)")
    from assms Inr \<open>http_find_client i w = Inr client\<close> child show ?thesis
      by (auto simp: http_create_request_def http_new_call_def http_add_call_def http_registry_def
          http_next_def Let_def split: if_splits option.splits)
  qed
qed

text \<open>What \<open>Do\<close> keeps: on failure no request handle is left, on success the body's at most.\<close>

definition go_done :: "('t, 'c, 'k, 'h, 'n, 'm, 'z) go_http_scheme \<Rightarrow> (http_fault + go_response) \<Rightarrow> ('t, 'c, 'k, 'h, 'n, 'm, 'z) go_http_scheme \<Rightarrow> bool" where
  "go_done g r g' \<longleftrightarrow> calm g' \<and>
     (case r of
        Inl fault \<Rightarrow> open_handles g' \<subseteq> open_handles g \<and> (gh_hook g = None \<longrightarrow> gh_hook g' = None)
      | Inr resp \<Rightarrow> (\<exists>i. gh_body g' = Some \<lparr>gb_handle = i, gb_closed = False, gb_err = None\<rparr> \<and>
                      open_handles g' \<subseteq> insert i (open_handles g)))"

lemma bridge_request_new_keeps:
  assumes "calm g" "serialises env"
  obtains i err b where "bridge_http_request_new env um client metadata body (gh_bridge g) = Some ((i, err), b)"
    "calm (g\<lparr>gh_bridge := b\<rparr>)"
    "open_handles (g\<lparr>gh_bridge := b\<rparr>) \<subseteq> (if err = None then insert i (open_handles g) else open_handles g)"
proof -
  let ?b = "gh_bridge g"
  let ?call = "HttpRequestNew client (go_ptr metadata) (length metadata) (go_ptr body) (length body)"
  obtain x w0 where n: "http_create_request (en_http env) (en_tokens env) client metadata body (br_http ?b) = (x, w0)"
    by (cases "http_create_request (en_http env) (en_tokens env) client metadata body (br_http ?b)")
  have "\<exists>r w. abi_closure env ?call ?b = Some (r, ?b\<lparr>br_http := w, br_runtime := br_runtime ?b\<rparr>) \<and>
      hw_poisoned w = hw_poisoned (br_http ?b) \<and>
      (case r of Inl e \<Rightarrow> hw_calls w = hw_calls (br_http ?b)
       | Inr out \<Rightarrow> \<exists>j. out = output_handle j \<and> dom (hw_calls w) \<subseteq> insert j (dom (hw_calls (br_http ?b))))"
  proof (cases "length metadata \<le> isize_max \<and> length body \<le> isize_max")
    case True
    with n http_create_request_calls [OF n] show ?thesis
      by (intro exI [of _ x] exI [of _ w0]) (simp add: exported_defs http_call_def)
  next
    case False
    then have "abi_closure env ?call ?b = Some (Inl (invalid ''invalid input buffer''), ?b)"
      by (intro abi_closure_refused) (auto simp: refused_input_def)
    then show ?thesis
      by (intro exI [of _ "Inl (invalid ''invalid input buffer'')"] exI [of _ "br_http ?b"]) simp
  qed
  then obtain r w where r: "abi_closure env ?call ?b = Some (r, ?b\<lparr>br_http := w, br_runtime := br_runtime ?b\<rparr>)"
    "hw_poisoned w = hw_poisoned (br_http ?b)"
    "case r of Inl e \<Rightarrow> hw_calls w = hw_calls (br_http ?b)
     | Inr out \<Rightarrow> \<exists>j. out = output_handle j \<and> dom (hw_calls w) \<subseteq> insert j (dom (hw_calls (br_http ?b)))"
    by blast
  obtain b where b: "go_invoke env um ?call ?b = Some (go_answer (en_to_vec env) um r, b)"
    "http_after ?b (br_runtime ?b) w b"
    using go_invoke_http [OF r(1) _ assms(2), of um] assms(1) by (auto simp: calm_def)
  have "open_handles (g\<lparr>gh_bridge := b\<rparr>) \<subseteq>
      (if snd (snd (go_answer (en_to_vec env) um r)) = None
       then insert (fst (go_answer (en_to_vec env) um r)) (open_handles g) else open_handles g)"
    using r(3) http_after_sel [OF b(2)]
    by (cases r) (auto simp: go_answer_def open_handles_def split: option.splits prod.splits)
  with that [of "fst (go_answer (en_to_vec env) um r)" "snd (snd (go_answer (en_to_vec env) um r))" b]
    b(1) r(2) http_after_sel [OF b(2)] assms(1)
  show ?thesis by (simp add: bridge_http_request_new_def only_handle_def calm_def)
qed

text \<open>What the operations suppose of the other goroutines, whatever they are: their steps return, open
  no request, and at most close what is open.\<close>

locale goroutines =
  fixes env :: "('t, 'c, 'k, 'h, 'n, 'm) bridge_env"
    and ev :: "('t, 'c, 'k, 'h, 'n, 'm, 'z) interference"
  assumes kept: "calm g \<Longrightarrow> serialises env \<Longrightarrow> \<exists>g'. ev k g = Some g' \<and> go_le g g'"
begin

lemma go_send_keeps:
  assumes "calm g" "serialises env"
  shows "\<exists>r g'. go_send codec env um ev fire i g = Some (r, g') \<and> calm g' \<and>
     (case r of Inl fault \<Rightarrow> open_handles g' \<subseteq> open_handles g - {i} \<and> gh_hook g' = None
      | Inr resp \<Rightarrow> gh_body g' = Some \<lparr>gb_handle = i, gb_closed = False, gb_err = None\<rparr> \<and>
                   open_handles g' \<subseteq> open_handles g)"
proof -
  let ?env = "env\<lparr>en_fire := fire\<rparr>" and ?b = "gh_bridge g"
  obtain x cell w where s: "http_send (en_http ?env) (en_tokens ?env) (en_build ?env) (en_fire ?env) i
      (br_runtime ?b) (br_http ?b) = (x, cell, w)"
    using prod_cases3 by blast
  have "serialises ?env" using assms(2) by (simp add: serialises_def)
  from bridge_request_send_after [OF _ this s, of um] assms(1)
  obtain b where b: "bridge_http_request_send ?env um i ?b = Some (snd (go_answer (en_to_vec ?env) um x), b)"
    "http_after ?b cell w b" by (auto simp: calm_def)
  obtain data err where a: "snd (go_answer (en_to_vec ?env) um x) = (data, err)"
    by (cases "snd (go_answer (en_to_vec ?env) um x)")
  have "calm (g\<lparr>gh_bridge := b\<rparr>)" and same: "open_handles (g\<lparr>gh_bridge := b\<rparr>) = open_handles g"
    using http_after_sel [OF b(2)] http_send_calls [OF s] assms(1) by (simp_all add: calm_def open_handles_def)
  from kept [OF this(1) assms(2), of 2] obtain g1 where
    g1: "ev 2 (g\<lparr>gh_bridge := b\<rparr>) = Some g1" "go_le (g\<lparr>gh_bridge := b\<rparr>) g1" by blast
  then have c1: "calm g1" "open_handles g1 \<subseteq> open_handles g" using same by (simp_all add: go_le_def)
  from go_abandon_keeps [OF c1(1) assms(2), of um i] obtain b2 where
    b2: "go_abandon env um i g1 = Some (g1\<lparr>gh_hook := None, gh_bridge := b2\<rparr>)"
      "calm (g1\<lparr>gh_hook := None, gh_bridge := b2\<rparr>)"
      "open_handles (g1\<lparr>gh_hook := None, gh_bridge := b2\<rparr>) = open_handles g1 - {i}" .
  show ?thesis
  proof (cases "err = None \<and> \<not> isl (go_decode_response codec data)")
    case True
    then obtain resp where "go_decode_response codec data = Inr resp"
      by (cases "go_decode_response codec data") auto
    with True b(1) a g1 c1 show ?thesis
      by (intro exI [of _ "Inr resp"]
          exI [of _ "g1\<lparr>gh_body := Some \<lparr>gb_handle = i, gb_closed = False, gb_err = None\<rparr>\<rparr>"])
         (simp add: go_send_def calm_def open_handles_def)
  next
    case False
    then obtain f where "go_send codec env um ev fire i g = Some (Inl f, g1\<lparr>gh_hook := None, gh_bridge := b2\<rparr>)"
      using b(1) a g1 b2(1)
      by (cases err; cases "go_decode_response codec data") (auto simp: go_send_def)
    with b2 c1 show ?thesis
      by (intro exI [of _ "Inl f"] exI [of _ "g1\<lparr>gh_hook := None, gh_bridge := b2\<rparr>"]) auto
  qed
qed

lemma go_do_keeps:
  assumes "calm g" "serialises env"
  shows "\<exists>r g'. go_do codec env um ev fire req g = Some (r, g') \<and> go_done g r g'"
proof -
  have early: "go_done g (Inl f) g" for f
    using assms(1) by (simp add: go_done_def)
  consider (refused) f where "go_do codec env um ev fire req g = Some (Inl f, g)"
    | (sent) metadata where "gh_ctx g = LiveCtx" "gh_client g \<noteq> 0" "go_encode codec req = Inr metadata"
    by (cases "gh_ctx g"; cases "gh_client g = 0"; cases "go_encode codec req") (auto simp: go_do_def)
  then show ?thesis
  proof cases
    case refused
    with early show ?thesis by blast
  next
    case sent
    from kept [OF assms, of 0] obtain g1 where
      g1: "ev 0 g = Some g1" "go_le g g1" by blast
    then have c1: "calm g1" "open_handles g1 \<subseteq> open_handles g" "gh_hook g = None \<longrightarrow> gh_hook g1 = None"
      by (simp_all add: go_le_def)
    from bridge_request_new_keeps [OF c1(1) assms(2)] obtain i err b where
      b: "bridge_http_request_new env um (gh_client g) metadata (go_body_bytes req) (gh_bridge g1) = Some ((i, err), b)"
        "calm (g1\<lparr>gh_bridge := b\<rparr>)"
        "open_handles (g1\<lparr>gh_bridge := b\<rparr>) \<subseteq> (if err = None then insert i (open_handles g1) else open_handles g1)"
      by metis
    show ?thesis
    proof (cases err)
      case (Some e)
      with sent g1(1) b c1 show ?thesis
        by (auto simp: go_do_def Let_def go_done_def)
    next
      case None
      let ?g2 = "g1\<lparr>gh_bridge := b, gh_hook := Some i\<rparr>"
      have "calm ?g2" "open_handles ?g2 \<subseteq> insert i (open_handles g)"
        using b(2,3) c1(2) None by (auto simp: calm_def open_handles_def)
      moreover from go_run_hook_keeps [OF this(1) assms(2), of um] obtain g3 where
        g3: "go_run_hook env um ?g2 = Some g3" "go_le ?g2 g3" by metis
      moreover from this(2) have "calm g3" by (simp add: go_le_def)
      from kept [OF this assms(2), of 1] obtain g4 where
        g4: "ev 1 g3 = Some g4" "go_le g3 g4" by blast
      ultimately have c4: "calm g4" "open_handles g4 \<subseteq> insert i (open_handles g)"
        by (auto simp: go_le_def)
      from go_send_keeps [OF c4(1) assms(2)] obtain r g5 where
        g5: "go_send codec env um ev fire i g4 = Some (r, g5)" "calm g5"
          "case r of Inl fault \<Rightarrow> open_handles g5 \<subseteq> open_handles g4 - {i} \<and> gh_hook g5 = None
           | Inr resp \<Rightarrow> gh_body g5 = Some \<lparr>gb_handle = i, gb_closed = False, gb_err = None\<rparr> \<and>
               open_handles g5 \<subseteq> open_handles g4"
        by metis
      have "go_do codec env um ev fire req g = Some (r, g5)"
        using sent g1(1) b(1) None g3(1) g4(1) g5(1) by (simp add: go_do_def Let_def)
      moreover have "go_done g r g5"
        using g5(2,3) c4(2) unfolding go_done_def by (cases r) auto
      ultimately show ?thesis by blast
    qed
  qed
qed

text \<open>A read keeps the registered handles, and a failing one takes its own away.\<close>

lemma go_body_read_keeps:
  assumes "calm g" "serialises env" "gh_body g = Some bd" "\<not> gb_closed bd" "gb_err bd = None" "n \<noteq> 0"
  shows "\<exists>d e g' bd'. go_body_read env um ev fire n g = Some ((d, e), g') \<and> calm g' \<and>
     open_handles g' \<subseteq> open_handles g \<and> length d \<le> n \<and> gh_body g' = Some bd' \<and>
     gb_handle bd' = gb_handle bd \<and>
     (case e of None \<Rightarrow> gb_err bd' = None
      | Some f \<Rightarrow> d = [] \<and> gb_err bd' = Some f \<and> gb_handle bd \<notin> open_handles g' \<and> gh_hook g' = None \<and>
                  (gb_closed bd' \<longrightarrow> f = FaultBodyClosed))"
proof -
  let ?env = "env\<lparr>en_fire := fire\<rparr>"
  from kept [OF assms(1,2), of 0] obtain g1 where
    g1: "ev 0 g = Some g1" "go_le g g1" by blast
  then have c1: "calm g1" "open_handles g1 \<subseteq> open_handles g" by (simp_all add: go_le_def)
  let ?b = "gh_bridge g1"
  obtain x cell w where s: "http_read (en_tokens ?env) (en_build ?env) (en_fire ?env) (gb_handle bd) n
      (br_runtime ?b) (br_http ?b) = (x, cell, w)"
    using prod_cases3 by blast
  have "serialises ?env" using assms(2) by (simp add: serialises_def)
  from bridge_response_read_after [OF _ this s, of um] c1(1)
  obtain b where b: "bridge_http_response_read ?env um (gb_handle bd) n ?b = Some (snd (go_answer (en_to_vec ?env) um x), b)"
    "http_after ?b cell w b" by (auto simp: calm_def)
  obtain data err where a: "snd (go_answer (en_to_vec ?env) um x) = (data, err)"
    by (cases "snd (go_answer (en_to_vec ?env) um x)")
  have "calm (g1\<lparr>gh_bridge := b\<rparr>)" and same: "open_handles (g1\<lparr>gh_bridge := b\<rparr>) = open_handles g1"
    using http_after_sel [OF b(2)] http_read_calls [OF s] c1(1) by (simp_all add: calm_def open_handles_def)
  from kept [OF this(1) assms(2), of 1] obtain g2 where
    g2: "ev 1 (g1\<lparr>gh_bridge := b\<rparr>) = Some g2" "go_le (g1\<lparr>gh_bridge := b\<rparr>) g2" by blast
  have "body_le (gh_body g) (gh_body g2)"
    using g1(2) g2(2) body_le_trans by (fastforce simp: go_le_def)
  then obtain bd2 where bd2: "gh_body g2 = Some bd2" "gb_handle bd2 = gb_handle bd" "gb_err bd2 = None"
    using assms(3,5) by (auto simp: body_le_def elim: option.rel_cases)
  have c2: "calm g2" "open_handles g2 \<subseteq> open_handles g"
    using g2(2) same c1(2) by (auto simp: go_le_def)
  show ?thesis
  proof (cases err)
    case None
    with assms(3-6) g1(1) b(1) a g2(1) c2 bd2 show ?thesis
      by (auto simp: go_body_read_def)
  next
    case (Some e)
    let ?f = "if gb_closed bd2 then FaultBodyClosed else request_error g2 e"
    let ?g3 = "g2\<lparr>gh_body := Some (bd2\<lparr>gb_err := Some ?f\<rparr>)\<rparr>"
    have "calm ?g3" using c2(1) by (simp add: calm_def)
    from go_abandon_keeps [OF this assms(2), of um "gb_handle bd"] obtain b3 where
      b3: "go_abandon env um (gb_handle bd) ?g3 = Some (?g3\<lparr>gh_hook := None, gh_bridge := b3\<rparr>)"
        "calm (?g3\<lparr>gh_hook := None, gh_bridge := b3\<rparr>)"
        "open_handles (?g3\<lparr>gh_hook := None, gh_bridge := b3\<rparr>) = open_handles ?g3 - {gb_handle bd}" .
    have "go_body_read env um ev fire n g =
        Some (([], Some ?f), ?g3\<lparr>gh_hook := None, gh_bridge := b3\<rparr>)"
      using assms(3-6) g1(1) b(1) a g2(1) bd2(1) Some b3(1) by (simp add: go_body_read_def Let_def)
    moreover have "open_handles ?g3 = open_handles g2" by (simp add: open_handles_def)
    ultimately show ?thesis
      using b3 c2(2) bd2 by (intro exI [of _ "[]"] exI [of _ "Some ?f"]) auto
  qed
qed

end

interpretation events: goroutines env "\<lambda>k. go_events env um (evs k)"
  by unfold_locales (rule go_events_keep)

interpretation alone: goroutines env quiet
  by unfold_locales (simp add: go_le_refl)

subsection \<open>What the client's operations leave alone\<close>

text \<open>A property of the state that the client's own fields do not matter for.\<close>

definition go_stable :: "(('t, 'c, 'k, 'h, 'n, 'm, 'z) go_http_scheme \<Rightarrow> bool) \<Rightarrow> bool" where
  "go_stable I \<longleftrightarrow>
     (\<forall>g b. I g \<longrightarrow> I (g\<lparr>gh_bridge := b\<rparr>)) \<and> (\<forall>g c. I g \<longrightarrow> I (g\<lparr>gh_client := c\<rparr>)) \<and>
     (\<forall>g h. I g \<longrightarrow> I (g\<lparr>gh_hook := h\<rparr>)) \<and> (\<forall>g bd. I g \<longrightarrow> I (g\<lparr>gh_body := bd\<rparr>))"

lemma go_stableD:
  assumes "go_stable I" "I g"
  shows "I (g\<lparr>gh_bridge := b\<rparr>)" "I (g\<lparr>gh_client := c\<rparr>)" "I (g\<lparr>gh_hook := h\<rparr>)" "I (g\<lparr>gh_body := bd\<rparr>)"
  using assms by (simp_all add: go_stable_def)

lemma go_close_handle_stable:
  "go_close_handle env um i g = Some (e, g') \<Longrightarrow> go_stable I \<Longrightarrow> I g \<Longrightarrow> I g'"
  by (auto simp: go_close_handle_def go_stableD)

lemma go_run_hook_stable: "go_run_hook env um g = Some g' \<Longrightarrow> go_stable I \<Longrightarrow> I g \<Longrightarrow> I g'"
  by (auto simp: go_run_hook_def go_stop_def go_stableD split: go_ctx.splits option.splits
      dest: go_close_handle_stable)

lemma go_client_close_stable:
  assumes "go_client_close env um g = Some (e, g')" "go_stable I" "I g"
  shows "I g'"
proof -
  have "I (g\<lparr>gh_client := c, gh_bridge := b\<rparr>)" for c b
    using go_stableD(1) [OF assms(2) go_stableD(2) [OF assms(2,3)]] .
  with assms(1,3) show ?thesis by (auto simp: go_client_close_def split: if_splits)
qed

lemma go_abandon_stable: "go_abandon env um i g = Some g' \<Longrightarrow> go_stable I \<Longrightarrow> I g \<Longrightarrow> I g'"
  by (auto simp: go_abandon_def go_stop_def go_stableD dest: go_close_handle_stable)

lemma go_body_close_stable:
  assumes "go_body_close env um g = Some (e, g')" "go_stable I" "I g"
  shows "I g'"
proof -
  have "I (go_stop (g\<lparr>gh_body := bd\<rparr>))" for bd
    using go_stableD(3) [OF assms(2) go_stableD(4) [OF assms(2,3)]] by (simp add: go_stop_def)
  with assms show ?thesis
    by (auto simp: go_body_close_def split: option.splits if_splits dest: go_close_handle_stable)
qed

lemma go_send_stable:
  assumes "go_send codec env um ev fire i g = Some (r, g')" "go_stable I" "I g"
    and "\<forall>k g g'. ev k g = Some g' \<longrightarrow> I g \<longrightarrow> I g'"
  shows "I g'"
  using assms(1) go_stableD [OF assms(2)] go_abandon_stable [OF _ assms(2)] assms(3,4)
  by (fastforce simp: go_send_def bind_eq_Some_conv split: option.splits sum.splits)

lemma go_do_stable:
  assumes "go_do codec env um ev fire req g = Some (r, g')" "go_stable I" "I g"
    and "\<forall>k g g'. ev k g = Some g' \<longrightarrow> I g \<longrightarrow> I g'"
  shows "I g'"
proof -
  consider "g' = g" | g1 b i g3 g4 where "ev 0 g = Some g1"
      "g' = g1\<lparr>gh_bridge := b\<rparr> \<or>
       go_run_hook env um (g1\<lparr>gh_bridge := b, gh_hook := Some i\<rparr>) = Some g3 \<and> ev 1 g3 = Some g4 \<and>
       go_send codec env um ev fire i g4 = Some (r, g')"
    using assms(1)
    by (fastforce simp: go_do_def Let_def bind_eq_Some_conv split: go_ctx.splits option.splits sum.splits if_splits)
  then show ?thesis
  proof cases
    case 1
    with assms(3) show ?thesis by simp
  next
    case 2
    with assms(3,4) have "I g1" by blast
    then have "I (g1\<lparr>gh_bridge := b\<rparr>)" "I (g1\<lparr>gh_bridge := b, gh_hook := Some i\<rparr>)"
      using go_stableD [OF assms(2)] by blast+
    with 2(2) show ?thesis
      using assms(4) go_run_hook_stable [OF _ assms(2)] go_send_stable [OF _ assms(2) _ assms(4)] by metis
  qed
qed

lemma go_body_read_stable:
  assumes "go_body_read env um ev fire n g = Some (r, g')" "go_stable I" "I g"
    and "\<forall>k g g'. ev k g = Some g' \<longrightarrow> I g \<longrightarrow> I g'"
  shows "I g'"
proof (cases "g' = g")
  case False
  from assms(1) False obtain bd where bd: "gh_body g = Some bd" "\<not> gb_closed bd" "gb_err bd = None" "n \<noteq> 0"
    by (auto simp: go_body_read_def split: option.splits if_splits)
  from assms(1) bd obtain g1 data err b g2 where steps: "ev 0 g = Some g1"
    "bridge_http_response_read (env\<lparr>en_fire := fire\<rparr>) um (gb_handle bd) n (gh_bridge g1) = Some ((data, err), b)"
    "ev 1 (g1\<lparr>gh_bridge := b\<rparr>) = Some g2"
    by (auto simp: go_body_read_def bind_eq_Some_conv)
  with assms(3,4) have "I g2" using go_stableD(1) [OF assms(2)] by blast
  from steps assms(1) bd show ?thesis
  proof (cases err)
    case None
    with steps assms(1) bd \<open>I g2\<close> show ?thesis by (simp add: go_body_read_def)
  next
    case (Some e)
    with steps assms(1) bd obtain bd' where "go_abandon env um (gb_handle bd) (g2\<lparr>gh_body := bd'\<rparr>) = Some g'"
      by (auto simp: go_body_read_def Let_def)
    from go_abandon_stable [OF this assms(2) go_stableD(4) [OF assms(2) \<open>I g2\<close>]] show ?thesis .
  qed
qed (use assms(3) in simp)

subsection \<open>A body read to its end\<close>

fun go_reads ::
  "('t, 'c, 'k, 'h, 'n, 'm) bridge_env \<Rightarrow> unmarshal \<Rightarrow> nat list \<Rightarrow> ('t, 'c, 'k, 'h, 'n, 'm, 'z) go_http_scheme \<Rightarrow>
     ((bytes \<times> http_fault option) list \<times> ('t, 'c, 'k, 'h, 'n, 'm, 'z) go_http_scheme) option" where
  "go_reads env um [] g = Some ([], g)"
| "go_reads env um (n # ns) g =
     Option.bind (go_body_read env um quiet None n g) (\<lambda>(r, g1).
       map_option (\<lambda>(rs, g2). (r # rs, g2)) (go_reads env um ns g1))"

text \<open>What such a sequence may answer: the body in pieces, then one error for ever.\<close>

definition go_reads_deliver ::
  "nat list \<Rightarrow> bytes \<Rightarrow> http_fault \<Rightarrow> (bytes \<times> http_fault option) list \<Rightarrow> bool" where
  "go_reads_deliver ns body final rs \<longleftrightarrow>
     (\<exists>ds k. rs = map (\<lambda>d. (d, None)) ds @ replicate k ([], Some final) \<and>
        list_all2 (\<lambda>d n. d \<noteq> [] \<and> length d \<le> min n read_cap) ds (take (length ds) ns) \<and>
        (if k = 0 then prefix (concat ds) body \<and> length ns \<le> length body else concat ds = body))"

definition go_final ::
  "('t, 'c, 'k, 'h, 'n, 'm) bridge_env \<Rightarrow> unmarshal \<Rightarrow> ('t, 'c, 'k, 'h, 'n, 'm, 'z) go_http_scheme \<Rightarrow> body_item list \<Rightarrow> http_fault" where
  "go_final env um g items =
     request_error g (the (snd (snd (go_answer (en_to_vec env) um (stream_end items)))))"

definition fresh_body :: "u64 \<Rightarrow> go_body" where
  "fresh_body i = \<lparr>gb_handle = i, gb_closed = False, gb_err = None\<rparr>"

lemma go_body_read_stuck:
  "gh_body g = Some bd \<Longrightarrow> \<not> gb_closed bd \<Longrightarrow> gb_err bd = Some f \<Longrightarrow>
     go_body_read env um ev fire n g = Some (([], Some f), g)"
  by (simp add: go_body_read_def)

lemma go_reads_stuck:
  "gh_body g = Some bd \<Longrightarrow> \<not> gb_closed bd \<Longrightarrow> gb_err bd = Some f \<Longrightarrow>
     go_reads env um ns g = Some (replicate (length ns) ([], Some f), g)"
  by (induction ns) (simp_all add: go_body_read_stuck)

lemma stream_end_error:
  "\<exists>e. snd (go_answer to_vec um (stream_end items)) = ([], Some e) \<or>
       (\<exists>bs. snd (go_answer to_vec um (stream_end items)) = (bs, Some e))"
  by (cases "stream_error items")
     (auto simp: stream_end_def go_answer_def Let_def isize_max_def split: option.split)

lemma go_answer_piece:
  "d \<noteq> [] \<Longrightarrow> length d \<le> read_cap \<Longrightarrow> go_answer to_vec um (Inr (output_data d)) = (0, d, None)"
  by (simp add: go_answer_def isize_max_def read_cap_def)

definition streaming ::
  "('t, 'c, 'k, 'h, 'n, 'm) bridge_env \<Rightarrow> nat \<Rightarrow> body_item list \<Rightarrow> bytes \<Rightarrow> ('t, 'c, 'k, 'h, 'n, 'm, 'z) go_http_scheme \<Rightarrow> bool" where
  "streaming env r items pending g \<longleftrightarrow> calm g \<and>
     (\<exists>i. gh_body g = Some (fresh_body i) \<and>
          open_call (en_tokens env) (br_runtime (gh_bridge g)) i r (Streaming items pending) (br_http (gh_bridge g)))"

lemma go_read_native:
  assumes "streaming env r items pending g" "serialises env" "0 < n"
    and "read_loop (min n read_cap) None items pending = (Completed x, ph)"
  obtains b i where
    "gh_body g = Some (fresh_body i)"
    "bridge_http_response_read (env\<lparr>en_fire := None\<rparr>) um i n (gh_bridge g)
       = Some (snd (go_answer (en_to_vec env) um x), b)"
    "calm (g\<lparr>gh_bridge := b\<rparr>)"
    "open_call (en_tokens env) (br_runtime b) i r ph (br_http b)"
proof -
  let ?env = "env\<lparr>en_fire := None\<rparr>" and ?b = "gh_bridge g"
  obtain i where i: "gh_body g = Some (fresh_body i)"
    "open_call (en_tokens env) (br_runtime ?b) i r (Streaming items pending) (br_http ?b)" and c: "calm g"
    using assms(1) by (auto simp: streaming_def)
  note R = http_read_streaming [OF i(2) assms(3,4)]
  have "http_read (en_tokens ?env) (en_build ?env) (en_fire ?env) i n (br_runtime ?b) (br_http ?b)
      = (x, br_runtime ?b, set_phase r ph (br_http ?b))"
    using R(1) by simp
  from bridge_response_read_after [OF _ _ this, of um] c assms(2) obtain b where
    "bridge_http_response_read ?env um i n ?b = Some (snd (go_answer (en_to_vec ?env) um x), b)"
    "http_after ?b (br_runtime ?b) (set_phase r ph (br_http ?b)) b"
    by (auto simp: calm_def serialises_def)
  with i R(2) c http_after_sel [OF this(2)] show ?thesis
    by (intro that [of i b]) (simp_all add: calm_def)
qed

lemma go_reads_stream:
  assumes "streaming env r items pending g" "serialises env" "0 \<notin> set ns"
  shows "\<exists>rs g'. go_reads env um ns g = Some (rs, g') \<and>
           go_reads_deliver ns (pending @ stream_bytes items) (go_final env um g items) rs"
  using assms(1,3)
proof (induction ns arbitrary: items pending g)
  case Nil
  then show ?case by (simp add: go_reads_deliver_def)
next
  case (Cons n ns)
  let ?body = "pending @ stream_bytes items"
  have n: "0 < n" "0 < min n read_cap" "0 \<notin> set ns"
    using Cons.prems(2) by (auto simp: read_cap_def)
  show ?case
  proof (cases "?body = []")
    case True
    then have "read_loop (min n read_cap) None items pending = (Completed (stream_end items), Done)"
      using read_loop_end by simp
    from go_read_native [OF Cons.prems(1) assms(2) n(1) this] obtain b i where b:
      "gh_body g = Some (fresh_body i)"
      "bridge_http_response_read (env\<lparr>en_fire := None\<rparr>) um i n (gh_bridge g)
         = Some (snd (go_answer (en_to_vec env) um (stream_end items)), b)"
      "calm (g\<lparr>gh_bridge := b\<rparr>)" by metis
    obtain data e where e: "snd (go_answer (en_to_vec env) um (stream_end items)) = (data, Some e)"
      using stream_end_error [of "en_to_vec env" um items] by auto
    have final: "go_final env um g items = request_error g e" by (simp add: go_final_def e)
    let ?bd = "(fresh_body i)\<lparr>gb_err := Some (request_error g e)\<rparr>"
    let ?g1 = "g\<lparr>gh_bridge := b, gh_body := Some ?bd\<rparr>"
    have "calm ?g1" using b(3) by (simp add: calm_def)
    from go_abandon_keeps [OF this assms(2), of um i] obtain b2 where
      ab: "go_abandon env um i ?g1 = Some (?g1\<lparr>gh_hook := None, gh_bridge := b2\<rparr>)" .
    have "request_error (g\<lparr>gh_bridge := b\<rparr>) e = request_error g e"
      by (simp add: request_error_def split: go_ctx.split go_error.split)
    then have read: "go_body_read env um quiet None n g =
        Some (([], Some (request_error g e)), ?g1\<lparr>gh_hook := None, gh_bridge := b2\<rparr>)"
      using b(1,2) e ab n(1) by (simp add: go_body_read_def fresh_body_def Let_def)
    have "go_reads env um ns (?g1\<lparr>gh_hook := None, gh_bridge := b2\<rparr>) =
        Some (replicate (length ns) ([], Some (request_error g e)), ?g1\<lparr>gh_hook := None, gh_bridge := b2\<rparr>)"
      by (rule go_reads_stuck [of _ ?bd]) (simp_all add: fresh_body_def)
    with read show ?thesis
      unfolding True final
      by (intro exI [of _ "replicate (Suc (length ns)) ([], Some (request_error g e))"]
          exI [of _ "?g1\<lparr>gh_hook := None, gh_bridge := b2\<rparr>"] conjI)
         (simp, unfold go_reads_deliver_def, rule exI [of _ "[]"], rule exI [of _ "Suc (length ns)"], simp)
  next
    case False
    obtain d items' pending' where d:
      "read_loop (min n read_cap) None items pending = (Completed (Inr (output_data d)), Streaming items' pending')"
      "d \<noteq> []" "length d \<le> min n read_cap" "stream_end items' = stream_end items"
      "?body = d @ pending' @ stream_bytes items'"
      using read_loop_data [OF n(2) False] by blast
    from go_read_native [OF Cons.prems(1) assms(2) n(1) d(1)] obtain b i where b:
      "gh_body g = Some (fresh_body i)"
      "bridge_http_response_read (env\<lparr>en_fire := None\<rparr>) um i n (gh_bridge g)
         = Some (snd (go_answer (en_to_vec env) um (Inr (output_data d))), b)"
      "calm (g\<lparr>gh_bridge := b\<rparr>)"
      "open_call (en_tokens env) (br_runtime b) i r (Streaming items' pending') (br_http b)" by metis
    let ?g1 = "g\<lparr>gh_bridge := b\<rparr>"
    have "go_answer (en_to_vec env) um (Inr (output_data d)) = (0, d, None)"
      using go_answer_piece d(2,3) by simp
    with b(1,2) d(2,3) n(1) have read: "go_body_read env um quiet None n g = Some ((d, None), ?g1)"
      by (simp add: go_body_read_def fresh_body_def)
    have "streaming env r items' pending' ?g1"
      using b by (auto simp: streaming_def)
    from Cons.IH [OF this n(3)] obtain rs g' where rs: "go_reads env um ns ?g1 = Some (rs, g')"
      "go_reads_deliver ns (pending' @ stream_bytes items') (go_final env um ?g1 items') rs" by blast
    have "go_final env um ?g1 items' = go_final env um g items"
      by (simp add: go_final_def d(4) request_error_def split: go_ctx.split go_error.split)
    with rs(2) obtain ds k where ds: "rs = map (\<lambda>d. (d, None)) ds @ replicate k ([], Some (go_final env um g items))"
      "list_all2 (\<lambda>d n. d \<noteq> [] \<and> length d \<le> min n read_cap) ds (take (length ds) ns)"
      "if k = 0 then prefix (concat ds) (pending' @ stream_bytes items') \<and> length ns \<le> length (pending' @ stream_bytes items')
       else concat ds = pending' @ stream_bytes items'"
      unfolding go_reads_deliver_def by auto
    have "length ns < length ?body" if "length ns \<le> length (pending' @ stream_bytes items')"
      using that d(2,5) by (cases d) simp_all
    with ds d(2,3,5) have "go_reads_deliver (n # ns) ?body (go_final env um g items) ((d, None) # rs)"
      unfolding go_reads_deliver_def
      by (intro exI [of _ "d # ds"] exI [of _ k]) (auto split: if_splits)
    with read rs(1) show ?thesis by auto
  qed
qed

subsection \<open>From the Go request to the wire and back\<close>

text \<open>What \<open>create_request\<close> should prepare for a Go request, without JSON or base64: \<open>json\<close> is
  how the request's JSON text is read back.\<close>

definition go_header_list :: "'j go_request \<Rightarrow> (string \<times> bytes) list" where
  "go_header_list req = concat (map (\<lambda>(name, vs). map (Pair name) vs) (gr_headers req))"

definition go_prepared ::
  "'n http_sdk \<Rightarrow> 'h http_client \<Rightarrow> bytes option \<Rightarrow> 'j go_request \<Rightarrow> bridge_error + prepared" where
  "go_prepared sdk client json req =
     and_then (map_err invalid (method_from_bytes sdk (if gr_method req = '''' then ''GET'' else gr_method req))) (\<lambda>verb.
     and_then (map_err invalid (url_parse (sdk_url sdk) (gr_url req))) (\<lambda>u.
       if \<not> http_scheme u then Inl (invalid ''URL must use http or https'')
       else
         and_then (plain_headers (sdk_codec sdk) (go_header_list req)) (\<lambda>hs.
           let b0 = \<lparr>bd_method = verb, bd_url = u,
                     bd_headers = default_user_agent (cl_user_agent client) hs,
                     bd_timeout = (if 0 < cl_timeout_ms client then Some (unat (cl_timeout_ms client)) else None),
                     bd_body = None\<rparr>;
               b = (case gr_json req of None \<Rightarrow> b0\<lparr>bd_body := gr_body req\<rparr> | Some v \<Rightarrow> set_json sdk json b0)
           in (case cl_backend client of
                 Automatic pool \<Rightarrow> Inr (PreparedAutomatic pool b)
               | Fixed fixed \<Rightarrow>
                   and_then (map_err bridge_error_of_http (build_request sdk fixed b))
                     (\<lambda>r. Inr (PreparedFixed fixed r (fx_follow fixed)))))))"

definition go_expected :: "'j go_codec \<Rightarrow> response \<Rightarrow> go_response" where
  "go_expected codec resp =
     \<lparr>gp_status = rs_status resp, gp_url = url_text (rs_url resp), gp_protocol = rs_version resp,
      gp_headers = map (\<lambda>(name, v). (gc_canonical codec name, v)) (rs_headers resp),
      gp_content_length = (case rs_content_length resp of None \<Rightarrow> -1 | Some n \<Rightarrow> int n)\<rparr>"

text \<open>Base64 as both sides speak it, and the two JSON messages of one exchange: Rust reads the
  request Go wrote (a raw JSON value as \<open>json\<close>), Go the response Rust wrote.\<close>

definition base64_agrees :: "'j go_codec \<Rightarrow> header_codec \<Rightarrow> bool" where
  "base64_agrees codec hc \<longleftrightarrow>
     (\<forall>v. b64_decode hc (gc_b64_encode codec v) = Inr v) \<and>
     (\<forall>v. gc_b64_decode codec (b64_encode hc v) = Inr v)"

definition request_read_back ::
  "'j go_codec \<Rightarrow> 'n http_sdk \<Rightarrow> 'j go_request \<Rightarrow> bytes \<Rightarrow> bytes option \<Rightarrow> bool" where
  "request_read_back codec sdk req metadata json \<longleftrightarrow>
     go_encode codec req = Inr metadata \<and>
     de_request sdk metadata = Inr (go_metadata codec req json)"

definition response_read_back :: "'j go_codec \<Rightarrow> 'n http_sdk \<Rightarrow> response \<Rightarrow> bytes \<Rightarrow> bool" where
  "response_read_back codec sdk resp data \<longleftrightarrow>
     to_json sdk (response_metadata sdk resp) = Inr data \<and>
     gc_response codec data = Inr (response_metadata sdk resp)"

lemma go_metadata_headers:
  "rm_headers (go_metadata codec req json) = map (\<lambda>(name, v). (name, gc_b64_encode codec v)) (go_header_list req)"
  by (simp add: go_metadata_def go_header_list_def map_concat comp_def split_def)

lemma go_decode_plain_headers:
  assumes "\<forall>v. gc_b64_decode codec (b64_encode hc v) = Inr v"
  shows "go_decode_headers codec (encode_headers hc hs) = Inr (map (\<lambda>(name, v). (gc_canonical codec name, v)) hs)"
  using assms by (induction hs) (auto simp: encode_headers_def)

lemma go_request_prepared:
  assumes "request_read_back codec sdk req metadata json" "base64_agrees codec (sdk_codec sdk)"
  shows "prepare_request sdk client metadata (go_body_bytes req) = go_prepared sdk client json req"
proof -
  have one: "gr_body req = None \<or> gr_json req = None"
    using assms(1) by (auto simp: request_read_back_def go_encode_def split: if_splits)
  have hs: "decode_headers (sdk_codec sdk) (rm_headers (go_metadata codec req json)) =
      plain_headers (sdk_codec sdk) (go_header_list req)"
    unfolding go_metadata_headers using assms(2) by (intro decode_go_headers) (simp add: base64_agrees_def)
  have builder: "prepare_builder sdk client (go_metadata codec req json) (go_body_bytes req) verb u hs =
      (let b0 = \<lparr>bd_method = verb, bd_url = u, bd_headers = hs,
                 bd_timeout = (if 0 < cl_timeout_ms client then Some (unat (cl_timeout_ms client)) else None),
                 bd_body = None\<rparr>
       in case gr_json req of None \<Rightarrow> b0\<lparr>bd_body := gr_body req\<rparr> | Some v \<Rightarrow> set_json sdk json b0)" for verb u hs
    by (auto simp: prepare_builder_def go_metadata_def go_body_bytes_def Let_def split: option.split)
  have sel: "rm_method (go_metadata codec req json) = (if gr_method req = '''' then ''GET'' else gr_method req)"
    "rm_url (go_metadata codec req json) = gr_url req"
    "\<not> (rm_has_json (go_metadata codec req json) \<and> rm_has_body (go_metadata codec req json))"
    using one by (auto simp: go_metadata_def)
  have "de_request sdk metadata = Inr (go_metadata codec req json)"
    using assms(1) by (simp add: request_read_back_def)
  then show ?thesis
    unfolding prepare_request_def go_prepared_def
    by (simp only: map_err.simps and_then.simps sel if_False hs builder Let_def)
qed

lemma go_response_decoded:
  assumes "response_read_back codec sdk resp data" "base64_agrees codec (sdk_codec sdk)"
  shows "go_decode_response codec data = Inr (go_expected codec resp)"
  using assms
  by (simp add: go_decode_response_def response_read_back_def response_metadata_def go_expected_def
      go_decode_plain_headers base64_agrees_def)

text \<open>A client that is open for requests: its handle is registered, its token has not fired (so a
  child's has not), the runtime is up and there are handles left.\<close>

definition go_ready ::
  "('t, 'c, 'k, 'h, 'n, 'm) bridge_env \<Rightarrow> 'h http_client \<Rightarrow> ('t, 'c, 'k, 'h, 'n, 'm, 'z) go_http_scheme \<Rightarrow> bool" where
  "go_ready env client g \<longleftrightarrow>
     (let w = br_http (gh_bridge g); (h, t) = tok_child (en_tokens env) (cl_cancel client) (hw_tokens w)
      in calm g \<and> serialises env \<and> gh_ctx g = LiveCtx \<and> gh_client g \<noteq> 0 \<and>
         hw_clients w (gh_client g) = Some client \<and> br_runtime (gh_bridge g) = Some (Inr ()) \<and>
         unat (hw_next w) + 1 < 2 ^ 64 \<and> \<not> is_cancelled (en_tokens env) t h)"

lemma go_ready_create:
  assumes "go_ready env client g"
    and "prepare_request (en_http env) client metadata body = Inr p"
  obtains j w where
    "http_create_request (en_http env) (en_tokens env) (gh_client g) metadata body (br_http (gh_bridge g))
       = (Inr (output_handle j), w)"
    "open_call (en_tokens env) (Some (Inr ())) j (hw_fresh (br_http (gh_bridge g))) (Ready p) w"
    "hw_net w = hw_net (br_http (gh_bridge g))"
proof -
  let ?w = "br_http (gh_bridge g)"
  obtain h t where child: "tok_child (en_tokens env) (cl_cancel client) (hw_tokens ?w) = (h, t)"
    by (cases "tok_child (en_tokens env) (cl_cancel client) (hw_tokens ?w)")
  from assms(1) child have r: "\<not> hw_poisoned ?w" "hw_clients ?w (gh_client g) = Some client"
    "unat (hw_next ?w) + 1 < 2 ^ 64" "\<not> is_cancelled (en_tokens env) t h"
    by (simp_all add: go_ready_def calm_def Let_def)
  obtain j where j: "u64_checked_add (hw_next ?w) 1 = Some j"
    using r(3) by (cases "u64_checked_add (hw_next ?w) 1") (auto simp: u64_checked_add_None_iff)
  show ?thesis
    by (rule that [of j "?w\<lparr>hw_store := (hw_store ?w)(hw_fresh ?w \<mapsto>
              \<lparr>ca_client = gh_client g, ca_cancel = h, ca_phase = Ready p\<rparr>),
            hw_fresh := Suc (hw_fresh ?w), hw_tokens := t, hw_next := j,
            hw_calls := (hw_calls ?w)(j \<mapsto> hw_fresh ?w)\<rparr>"])
       (use r j assms(2) child in \<open>simp_all add: http_create_request_def http_find_client_def http_registry_def
          http_new_call_def http_add_call_def http_next_def open_call_def call_fired_def\<close>)
qed

lemma go_exchange_runs:
  assumes "go_ready env client g"
    and "request_read_back codec (en_http env) req metadata json"
    and "base64_agrees codec (sdk_codec (en_http env))"
    and "go_prepared (en_http env) client json req = Inr p"
    and "send_prepared (en_http env) None p (hw_net (br_http (gh_bridge g))) = (Completed (Inr resp), n)"
    and "response_read_back codec (en_http env) resp data"
    and "length metadata \<le> isize_max" "length (go_body_bytes req) \<le> isize_max" "length data \<le> isize_max"
  shows "\<exists>g1. go_do codec env um quiet None req g = Some (Inr (go_expected codec resp), g1) \<and>
           (\<exists>r. streaming env r (rs_items resp) [] g1) \<and> gh_ctx g1 = gh_ctx g \<and> gh_client g1 = gh_client g"
proof -
  let ?b = "gh_bridge g" and ?env = "env\<lparr>en_fire := None\<rparr>"
  have ready: "calm g" "serialises env" "gh_ctx g = LiveCtx" "gh_client g \<noteq> 0" "br_runtime ?b = Some (Inr ())"
    using assms(1) by (auto simp: go_ready_def Let_def split: prod.splits)
  have "prepare_request (en_http env) client metadata (go_body_bytes req) = Inr p"
    using go_request_prepared [OF assms(2,3), of client] assms(4) by simp
  from go_ready_create [OF assms(1) this] obtain j w where w:
    "http_create_request (en_http env) (en_tokens env) (gh_client g) metadata (go_body_bytes req) (br_http ?b)
       = (Inr (output_handle j), w)"
    "open_call (en_tokens env) (Some (Inr ())) j (hw_fresh (br_http ?b)) (Ready p) w"
    "hw_net w = hw_net (br_http ?b)" .
  from bridge_request_new_after [OF _ ready(2) assms(7,8) w(1), of um] ready(1)
  obtain b1 where b1: "bridge_http_request_new env um (gh_client g) metadata (go_body_bytes req) ?b = Some ((j, None), b1)"
    "http_after ?b (br_runtime ?b) w b1"
    by (auto simp: calm_def go_answer_def)
  let ?g1 = "g\<lparr>gh_bridge := b1, gh_hook := Some j\<rparr>"
  note after1 = http_after_sel [OF b1(2)]
  have json: "to_json (en_http env) (response_metadata (en_http env) resp) = Inr data"
    using assms(6) by (simp add: response_read_back_def)
  from http_send_streams [OF w(2) assms(5) [folded w(3)] json, of "en_build env"]
  obtain w2 where w2: "http_send (en_http env) (en_tokens env) (en_build env) None j (Some (Inr ())) w
      = (Inr (output_data data), Some (Inr ()), w2)"
    "open_call (en_tokens env) (Some (Inr ())) j (hw_fresh (br_http ?b)) (Streaming (rs_items resp) []) w2" by blast
  have "http_send (en_http ?env) (en_tokens ?env) (en_build ?env) (en_fire ?env) j (br_runtime b1) (br_http b1)
      = (Inr (output_data data), Some (Inr ()), w2)"
    using w2(1) after1 ready(5) by simp
  from bridge_request_send_after [OF _ _ this, of um] after1 ready(2)
  obtain b2 where b2: "bridge_http_request_send ?env um j b1 = Some ((data, None), b2)"
    "http_after b1 (Some (Inr ())) w2 b2"
    using assms(9) by (auto simp: serialises_def go_answer_def)
  let ?g2 = "?g1\<lparr>gh_bridge := b2, gh_body := Some (fresh_body j)\<rparr>"
  have "go_do codec env um quiet None req g = Some (Inr (go_expected codec resp), ?g2)"
    using ready b1(1) b2(1) assms(2) go_response_decoded [OF assms(6,3)]
    by (simp add: go_do_def request_read_back_def go_run_hook_def go_send_def fresh_body_def Let_def)
  moreover have "streaming env (hw_fresh (br_http ?b)) (rs_items resp) [] ?g2"
    using w2(2) http_after_sel [OF b2(2)] by (auto simp: streaming_def calm_def open_call_def)
  ultimately show ?thesis by auto
qed

subsection \<open>Properties of the Go client\<close>

text \<open>
  C4. A request from Go to the wire and back. On an open client, with the codecs agreeing on the
  two messages of the exchange and no cancellation, \<open>Do\<close> sends exactly the Go request (method or
  GET, URL, every header value byte for byte and in order, the body's bytes or the JSON) with the
  client's user agent and timeout, and returns the response's status, URL, protocol, headers and
  length; and any sequence of \<open>Read\<close>s with nonempty buffers gives its body in order in nonempty
  pieces, complete after as many reads as it has bytes and one more, then one error for ever:
  \<open>io.EOF\<close>, or the stream's own failure if it broke.
\<close>

theorem go_exchange:
  assumes "go_ready env client g"
    and "request_read_back codec (en_http env) req metadata json"
    and "base64_agrees codec (sdk_codec (en_http env))"
    and "go_prepared (en_http env) client json req = Inr p"
    and "send_prepared (en_http env) None p (hw_net (br_http (gh_bridge g))) = (Completed (Inr resp), n)"
    and "response_read_back codec (en_http env) resp data"
    and "length metadata \<le> isize_max" "length (go_body_bytes req) \<le> isize_max" "length data \<le> isize_max"
    and "0 \<notin> set ns"
  shows "\<exists>g1 rs g2. go_do codec env um quiet None req g = Some (Inr (go_expected codec resp), g1) \<and>
           go_reads env um ns g1 = Some (rs, g2) \<and>
           go_reads_deliver ns (stream_bytes (rs_items resp)) (go_final env um g (rs_items resp)) rs"
proof -
  obtain g1 r where g1: "go_do codec env um quiet None req g = Some (Inr (go_expected codec resp), g1)"
    "streaming env r (rs_items resp) [] g1" "gh_ctx g1 = gh_ctx g" "gh_client g1 = gh_client g"
    using go_exchange_runs [OF assms(1-9), of um] by blast
  have "serialises env" using assms(1) by (auto simp: go_ready_def Let_def split: prod.splits)
  from go_reads_stream [OF g1(2) this assms(10), of um] obtain rs g2 where
    "go_reads env um ns g1 = Some (rs, g2)"
    "go_reads_deliver ns (stream_bytes (rs_items resp)) (go_final env um g1 (rs_items resp)) rs" by auto
  moreover have "go_final env um g1 (rs_items resp) = go_final env um g (rs_items resp)"
    by (simp add: go_final_def request_error_def g1(3,4) split: go_ctx.split go_error.split)
  ultimately show ?thesis using g1(1) by metis
qed

text \<open>A codec with one character per byte for base64, an SDK that speaks it, and a ready client.\<close>

definition sample_go_sdk :: "(nat \<times> response list) http_sdk" where
  "sample_go_sdk = sample_sdk\<lparr>sdk_codec := sample_text_codec\<rparr>"

definition sample_go_codec :: "unit go_codec" where
  "sample_go_codec =
     \<lparr>gc_config = (\<lambda>c. Inr [1]), gc_request = (\<lambda>m. Inr [1]),
      gc_response = (\<lambda>d. Inr (response_metadata sample_go_sdk sample_stream)),
      gc_value = (\<lambda>v. Inr []), gc_b64_encode = byte_text,
      gc_b64_decode = (\<lambda>s. Inr (ascii s)), gc_canonical = id\<rparr>"

definition sample_go_request :: "unit go_request" where
  "sample_go_request =
     \<lparr>gr_method = '''', gr_url = ''a'', gr_headers = [(''accept'', [ascii ''x''])],
      gr_body = None, gr_json = None\<rparr>"

definition sample_go_env :: "(token_list, u16, u16 message list, nat, nat \<times> response list, nat) bridge_env" where
  "sample_go_env = sample_env\<lparr>en_http := sample_go_sdk\<rparr>"

definition sample_go :: "(token_list, u16, u16 message list, nat, nat \<times> response list, nat) go_http" where
  "sample_go =
     \<lparr>gh_bridge = sample_bridge\<lparr>br_http := (hs_world sample_live)\<lparr>hw_net := (0, [sample_stream])\<rparr>\<rparr>,
      gh_client = 1, gh_ctx = LiveCtx, gh_hook = None, gh_body = None\<rparr>"

lemma sample_go_serialises: "serialises sample_go_env"
  by (simp add: serialises_def sample_go_env_def sample_env_def)

lemma sample_go_calm: "calm sample_go"
  by (simp add: calm_def sample_go_def sample_bridge_def heap_ok_empty sample_live_def)

lemma sample_go_ready: "go_ready sample_go_env sample_client sample_go"
  using sample_go_calm sample_go_serialises
  by (simp add: go_ready_def, simp add: sample_go_def sample_go_env_def sample_env_def sample_bridge_def
      sample_live_def sample_client_def list_tokens_def)

lemma sample_base64: "base64_agrees sample_go_codec (sdk_codec sample_go_sdk)"
  by (simp add: base64_agrees_def sample_go_codec_def sample_go_sdk_def sample_text_codec_def)

lemma sample_request_back:
  "request_read_back sample_go_codec sample_go_sdk sample_go_request [1] None"
  by code_simp

lemma sample_go_prepared:
  "go_prepared sample_go_sdk sample_client None sample_go_request = Inr sample_prepared"
  by code_simp

lemma sample_go_sent:
  "send_prepared sample_go_sdk None sample_prepared (0, [sample_stream]) = (Completed (Inr sample_stream), (1, []))"
  by code_simp

lemma sample_response_back:
  "response_read_back sample_go_codec sample_go_sdk sample_stream (ascii ''http://a/'')"
  by code_simp

theorem go_exchange_witness:
  "\<exists>g1 rs g2. go_do sample_go_codec sample_go_env sample_unmarshal quiet None sample_go_request sample_go
       = Some (Inr (go_expected sample_go_codec sample_stream), g1) \<and>
     go_reads sample_go_env sample_unmarshal [1, 1, 9, 9, 9] g1 = Some (rs, g2) \<and>
     go_reads_deliver [1, 1, 9, 9, 9] [1, 2, 3]
       (go_final sample_go_env sample_unmarshal sample_go (rs_items sample_stream)) rs"
proof -
  have env: "en_http sample_go_env = sample_go_sdk" "hw_net (br_http (gh_bridge sample_go)) = (0, [sample_stream])"
    "stream_bytes (rs_items sample_stream) = [1, 2, 3]" "length [1 :: u8] \<le> isize_max"
    "length (go_body_bytes sample_go_request) \<le> isize_max" "length (ascii ''http://a/'') \<le> isize_max"
    by (simp_all add: sample_go_env_def sample_go_def sample_stream_def go_body_bytes_def
        sample_go_request_def isize_max_def)
  show ?thesis
    using go_exchange [OF sample_go_ready, unfolded env(1,2), OF sample_request_back sample_base64
        sample_go_prepared sample_go_sent sample_response_back env(4-6),
        of "[1, 1, 9, 9, 9]" sample_unmarshal] unfolding env(3)
    by simp
qed

text \<open>
  C14. Whatever other goroutines do meanwhile (the context ends, the client is closed) and however
  the calls below it fail, \<open>Do\<close> returns and leaks nothing: on an error no request handle is
  registered that was not before and no context hook is left behind; on success the one new handle
  is the body's.
\<close>

theorem go_do_leaks_nothing:
  assumes "calm g" "serialises env"
  shows "\<exists>r g'. go_do codec env um (\<lambda>k. go_events env um (evs k)) fire req g = Some (r, g') \<and> calm g' \<and>
     (case r of
        Inl fault \<Rightarrow> open_handles g' \<subseteq> open_handles g \<and> (gh_hook g = None \<longrightarrow> gh_hook g' = None)
      | Inr resp \<Rightarrow> (\<exists>i. gh_body g' = Some \<lparr>gb_handle = i, gb_closed = False, gb_err = None\<rparr> \<and>
                      open_handles g' \<subseteq> insert i (open_handles g)))"
  using events.go_do_keeps [OF assms] by (simp add: go_done_def)

theorem go_do_leaks_nothing_witness:
  "\<exists>r g'. go_do sample_go_codec sample_go_env sample_unmarshal
      (\<lambda>k. go_events sample_go_env sample_unmarshal [CtxDone ''late'', CloseClient]) (Some 1)
      sample_go_request sample_go = Some (r, g') \<and> calm g'"
  using go_do_leaks_nothing [OF sample_go_calm sample_go_serialises, of sample_go_codec sample_unmarshal
      "\<lambda>k. [CtxDone ''late'', CloseClient]" "Some 1" sample_go_request]
  by blast

text \<open>
  C16. A failed \<open>Read\<close> is final. Under any interference, a \<open>Read\<close> returns, with at most as many
  bytes as the buffer has, and bytes only without an error; once it has returned an error its
  request is released for good, and every later \<open>Read\<close>, with any buffer and after any further
  events, returns that error again (or that the body is closed, once somebody closes it) without
  touching anything.
\<close>

theorem go_body_read_final:
  assumes "calm g" "serialises env" "gh_body g = Some bd" "\<not> gb_closed bd" "gb_err bd = None" "n \<noteq> 0"
  shows "\<exists>d e g'. go_body_read env um (\<lambda>k. go_events env um (evs k)) fire n g = Some ((d, e), g') \<and> length d \<le> n \<and>
     (\<forall>f later g''. e = Some f \<and> go_events env um later g' = Some g'' \<longrightarrow>
        d = [] \<and> gb_handle bd \<notin> open_handles g'' \<and>
        (\<exists>bd''. gh_body g'' = Some bd'' \<and>
           go_body_read env um ev' fire' m g''
             = Some (([], Some (if gb_closed bd'' then FaultBodyClosed else f)), g'')))"
proof -
  from events.go_body_read_keeps [OF assms] obtain d e g' bd' where r:
    "go_body_read env um (\<lambda>k. go_events env um (evs k)) fire n g = Some ((d, e), g')" "calm g'" "length d \<le> n" "gh_body g' = Some bd'"
    "case e of None \<Rightarrow> gb_err bd' = None
      | Some f \<Rightarrow> d = [] \<and> gb_err bd' = Some f \<and> gb_handle bd \<notin> open_handles g' \<and> gh_hook g' = None \<and>
                  (gb_closed bd' \<longrightarrow> f = FaultBodyClosed)"
    by blast
  have "d = [] \<and> gb_handle bd \<notin> open_handles g'' \<and>
        (\<exists>bd''. gh_body g'' = Some bd'' \<and>
           go_body_read env um ev' fire' m g''
             = Some (([], Some (if gb_closed bd'' then FaultBodyClosed else f)), g''))"
    if "e = Some f" "go_events env um later g' = Some g''" for f later g''
  proof -
    have "go_le g' g''" using go_events_keep [OF r(2) assms(2), of um later] that(2) by auto
    then obtain bd'' where "gh_body g'' = Some bd''" "gb_err bd'' = gb_err bd'" "open_handles g'' \<subseteq> open_handles g'"
      using r(4) by (auto simp: go_le_def body_le_def elim: option.rel_cases)
    with r(5) that(1) show ?thesis by (auto simp: go_body_read_def)
  qed
  with r(1,3) show ?thesis by blast
qed

definition sample_reading :: "(token_list, u16, u16 message list, nat, nat \<times> response list, nat) go_http" where
  "sample_reading = sample_go\<lparr>gh_body := Some (fresh_body 2)\<rparr>"

theorem go_body_read_final_witness:
  "\<exists>d e g'. go_body_read sample_go_env sample_unmarshal
      (\<lambda>k. go_events sample_go_env sample_unmarshal [CloseClient]) None 5 sample_reading
      = Some ((d, e), g') \<and> length d \<le> 5"
proof -
  have "calm sample_reading" "gh_body sample_reading = Some (fresh_body 2)" "\<not> gb_closed (fresh_body 2)"
    "gb_err (fresh_body 2) = None" "(5 :: nat) \<noteq> 0"
    using sample_go_calm by (simp_all add: calm_def sample_reading_def fresh_body_def)
  from go_body_read_final [OF this(1) sample_go_serialises this(2-5), of sample_unmarshal "\<lambda>k. [CloseClient]" None]
  show ?thesis by blast
qed

text \<open>
  \<open>Close\<close> of a body is idempotent and final: it releases the request at once, whatever happens
  later every \<open>Read\<close> answers that the body is closed, and closing again returns nil; neither
  touches the bridge any more.
\<close>

theorem go_body_close_final:
  assumes "calm g" "serialises env" "gh_body g = Some bd" "\<not> gb_closed bd"
  shows "\<exists>g'. go_body_close env um g = Some (None, g') \<and> gb_handle bd \<notin> open_handles g' \<and> gh_hook g' = None \<and>
     (\<forall>later g''. go_events env um later g' = Some g'' \<longrightarrow>
        gb_handle bd \<notin> open_handles g'' \<and>
        go_body_read env um ev fire n g'' = Some (([], Some FaultBodyClosed), g'') \<and>
        go_body_close env um g'' = Some (None, g''))"
proof -
  let ?g = "go_stop (g\<lparr>gh_body := Some (bd\<lparr>gb_closed := True\<rparr>)\<rparr>)"
  have "calm ?g" using assms(1) by (simp add: calm_def go_stop_def)
  from go_close_handle_keeps [OF this assms(2), of um "gb_handle bd"] obtain b where
    b: "go_close_handle env um (gb_handle bd) ?g = Some (None, ?g\<lparr>gh_bridge := b\<rparr>)"
      "calm (?g\<lparr>gh_bridge := b\<rparr>)" "open_handles (?g\<lparr>gh_bridge := b\<rparr>) = open_handles ?g - {gb_handle bd}" .
  let ?g' = "?g\<lparr>gh_bridge := b\<rparr>"
  have "gb_handle bd \<notin> open_handles g'' \<and>
        go_body_read env um ev fire n g'' = Some (([], Some FaultBodyClosed), g'') \<and>
        go_body_close env um g'' = Some (None, g'')"
    if "go_events env um later ?g' = Some g''" for later g''
  proof -
    have "go_le ?g' g''" using go_events_keep [OF b(2) assms(2), of um later] that by auto
    then obtain bd'' where "gh_body g'' = Some bd''" "gb_closed bd''" "open_handles g'' \<subseteq> open_handles ?g'"
      by (auto simp: go_le_def body_le_def go_stop_def elim: option.rel_cases)
    with b(3) show ?thesis by (auto simp: go_body_read_def go_body_close_def)
  qed
  moreover have "go_body_close env um g = Some (None, ?g')"
    using assms(3,4) b(1) by (simp add: go_body_close_def)
  moreover have "gh_hook ?g' = None" by (simp add: go_stop_def)
  ultimately show ?thesis using b(3) by blast
qed

theorem go_body_close_final_witness:
  "\<exists>g'. go_body_close sample_go_env sample_unmarshal sample_reading = Some (None, g') \<and> 2 \<notin> open_handles g'"
proof -
  have "calm sample_reading" "gh_body sample_reading = Some (fresh_body 2)" "\<not> gb_closed (fresh_body 2)"
    using sample_go_calm by (simp_all add: calm_def sample_reading_def fresh_body_def)
  from go_body_close_final [OF this(1) sample_go_serialises this(2,3), of sample_unmarshal quiet None 1]
  show ?thesis by (auto simp: fresh_body_def)
qed

text \<open>
  The timeout Rust gets is the Go duration in milliseconds, rounded up, without overflow: no
  positive duration becomes 0, which would mean no timeout at all.
\<close>

theorem duration_ms_rounds_up:
  assumes "0 \<le> d" "d < 2 ^ 63"
  shows "int (unat (duration_ms d)) = (d + 999999) div 1000000 \<and> (duration_ms d = 0 \<longleftrightarrow> d = 0)"
  by (rule duration_ms_value [OF assms])

theorem duration_ms_rounds_up_witness: "int (unat (duration_ms 1)) = 1"
proof -
  have "int (unat (duration_ms 1)) = (1 + 999999) div 1000000"
    using duration_ms_rounds_up [of 1] by simp
  then show ?thesis by simp
qed

end
