(* ===== verification/Go_Websocket.thy ===== *)
theory Go_Websocket
  imports Go_Bridge
begin

text \<open>
  \<open>websocket/client.go\<close>: the client, \<open>Dial\<close>, \<open>ReadMessage\<close>, \<open>WriteMessage\<close> and the close payloads,
  over the bridge's calls. One client, one connection and one context at a time; what other
  goroutines do is a list of events at each point between two steps of an operation.
\<close>

subsection \<open>Options\<close>

record go_ws_options =
  gow_proxy_policy :: string
  gow_proxy_url :: string
  gow_no_proxy :: bool
  gow_handshake_timeout :: int
  gow_loopback_direct :: bool
  gow_tcp_nodelay :: bool
  gow_max_message_size :: int
  gow_max_frame_size :: int
  gow_chatgpt_cookies :: "string list option"
  gow_write_frame_size :: int
  gow_max_handshake_body :: int

text \<open>The native handshake as \<open>encoding/json\<close> decodes it, and what the package makes of it.\<close>

record go_wire =
  wh_status :: int
  wh_headers :: "(string \<times> string) list"
  wh_body :: bytes
  wh_truncated :: bool

record go_handshake =
  gk_status :: int
  gk_headers :: "(string \<times> bytes) list"
  gk_body :: bytes
  gk_truncated :: bool

text \<open>What the package uses of \<open>encoding/json\<close>, \<open>encoding/base64\<close> and \<open>net/textproto\<close>;
  \<open>wg_details\<close> is the \<open>details\<close> member of an error, as raw JSON.\<close>

record go_ws_codec =
  wg_config :: "ws_config \<Rightarrow> string + bytes"
  wg_dial :: "dial_request \<Rightarrow> string + bytes"
  wg_details :: "bytes \<Rightarrow> string + bytes"
  wg_handshake :: "bytes \<Rightarrow> string + go_wire"
  wg_b64_encode :: "bytes \<Rightarrow> string"
  wg_b64_decode :: "string \<Rightarrow> string + bytes"
  wg_canonical :: "string \<Rightarrow> string"

subsection \<open>Errors and state\<close>

text \<open>The context's error, the package's two values, one of the bridge, a rejected upgrade with its
  handshake around one of these, anything else as a text.\<close>

datatype ws_fault =
    WsContext string
  | WsClientClosed
  | WsConnClosed
  | WsBridge go_error
  | WsRejected go_handshake go_error
  | WsOther string

text \<open>\<open>context.AfterFunc\<close>: not set, waiting for the context, or about to close the connection in a
  goroutine of its own.\<close>

datatype go_watch = Unwatched | Watching | Pending

record ('t, 'c, 'k, 'h, 'n, 'm) go_ws =
  gw_bridge :: "('t, 'c, 'k, 'h, 'n, 'm) bridge"
  gw_client :: u64
  gw_conn :: u64
  gw_ctx :: go_ctx
  gw_watch :: go_watch

subsection \<open>The client\<close>

text \<open>The checks of \<open>NewClient\<close>, and the configuration it sends.\<close>

definition go_ws_policy :: "go_ws_options \<Rightarrow> string" where
  "go_ws_policy opts =
     (if gow_proxy_policy opts = '''' then ''respect_system_proxy'' else gow_proxy_policy opts)"

definition go_ws_check :: "go_ws_options \<Rightarrow> ws_fault option" where
  "go_ws_check opts =
     (if gow_handshake_timeout opts < 0 \<or> gow_max_message_size opts < 0 \<or> gow_max_frame_size opts < 0 \<or>
         gow_write_frame_size opts < 0 \<or> gow_max_handshake_body opts < 0 then
        Some (WsOther ''codexws: timeouts and size limits must not be negative'')
      else if gow_proxy_url opts \<noteq> '''' \<and> (gow_no_proxy opts \<or> gow_loopback_direct opts) then
        Some (WsOther ''codexws: ProxyURL is mutually exclusive with NoProxy and LoopbackDirect'')
      else if 2 ^ 20 < gow_write_frame_size opts \<or> 2 ^ 20 < gow_max_handshake_body opts then
        Some (WsOther ''codexws: frame and handshake body limits must not exceed 1 MiB'')
      else if go_ws_policy opts \<noteq> ''respect_system_proxy'' \<and> go_ws_policy opts \<noteq> ''reqwest_default'' then
        Some (WsOther ''codexws: invalid ProxyPolicy'')
      else None)"

definition omit_empty :: "int \<Rightarrow> nat option" where
  "omit_empty n = (if n = 0 then None else Some (nat n))"

definition go_ws_config :: "go_ws_options \<Rightarrow> ws_config" where
  "go_ws_config opts =
     \<lparr>wc_proxy_policy = go_ws_policy opts, wc_proxy_url = gow_proxy_url opts, wc_no_proxy = gow_no_proxy opts,
      wc_handshake_timeout_ms = duration_ms (gow_handshake_timeout opts),
      wc_loopback_direct = gow_loopback_direct opts, wc_tcp_nodelay = gow_tcp_nodelay opts,
      wc_max_message_size = omit_empty (gow_max_message_size opts),
      wc_max_frame_size = omit_empty (gow_max_frame_size opts),
      wc_chatgpt_cookies = gow_chatgpt_cookies opts,
      wc_write_frame_size = nat (gow_write_frame_size opts),
      wc_max_handshake_body_bytes = nat (gow_max_handshake_body opts)\<rparr>"

definition go_new_ws_client ::
  "go_ws_codec \<Rightarrow> ('t, 'c, 'k, 'h, 'n, 'm) bridge_env \<Rightarrow> unmarshal \<Rightarrow> go_ws_options \<Rightarrow>
     ('t, 'c, 'k, 'h, 'n, 'm) bridge \<Rightarrow>
     ((ws_fault + u64) \<times> ('t, 'c, 'k, 'h, 'n, 'm) bridge) option" where
  "go_new_ws_client codec env um opts b =
     (case go_ws_check opts of
        Some fault \<Rightarrow> Some (Inl fault, b)
      | None \<Rightarrow>
          (case wg_config codec (go_ws_config opts) of
             Inl e \<Rightarrow> Some (Inl (WsOther e), b)
           | Inr config \<Rightarrow>
               map_option (\<lambda>((i, err), b'). (case err of None \<Rightarrow> Inr i | Some e \<Rightarrow> Inl (WsBridge e), b'))
                 (bridge_ws_client_new env um config b)))"

text \<open>\<open>Close\<close> of the client and of the connection: the handle is taken once.\<close>

definition go_ws_client_close ::
  "('t, 'c, 'k, 'h, 'n, 'm) bridge_env \<Rightarrow> unmarshal \<Rightarrow> ('t, 'c, 'k, 'h, 'n, 'm) go_ws \<Rightarrow>
     (go_error option \<times> ('t, 'c, 'k, 'h, 'n, 'm) go_ws) option" where
  "go_ws_client_close env um g =
     (if gw_client g = 0 then Some (None, g)
      else map_option (\<lambda>(err, b). (err, g\<lparr>gw_client := 0, gw_bridge := b\<rparr>))
             (bridge_ws_client_close env um (gw_client g) (gw_bridge g)))"

definition go_conn_close ::
  "('t, 'c, 'k, 'h, 'n, 'm) bridge_env \<Rightarrow> unmarshal \<Rightarrow> ('t, 'c, 'k, 'h, 'n, 'm) go_ws \<Rightarrow>
     (go_error option \<times> ('t, 'c, 'k, 'h, 'n, 'm) go_ws) option" where
  "go_conn_close env um g =
     (if gw_conn g = 0 then Some (None, g)
      else map_option (\<lambda>(err, b). (err, g\<lparr>gw_conn := 0, gw_bridge := b\<rparr>))
             (bridge_ws_connection_close env um (gw_conn g) (gw_bridge g)))"

subsection \<open>The context and other goroutines\<close>

definition check_context :: "go_ctx \<Rightarrow> ws_fault option" where
  "check_context ctx =
     (case ctx of
        NilCtx \<Rightarrow> Some (WsOther ''codexws: nil context'')
      | DoneCtx m \<Rightarrow> Some (WsContext m)
      | LiveCtx \<Rightarrow> None)"

text \<open>\<open>watchContext\<close>, the goroutine it may start, and the \<open>stop\<close> it returns, which waits for that
  goroutine.\<close>

definition go_watch_context :: "('t, 'c, 'k, 'h, 'n, 'm) go_ws \<Rightarrow> ('t, 'c, 'k, 'h, 'n, 'm) go_ws" where
  "go_watch_context g =
     g\<lparr>gw_watch := (case gw_ctx g of DoneCtx m \<Rightarrow> Pending | _ \<Rightarrow> Watching)\<rparr>"

definition go_run_watch ::
  "('t, 'c, 'k, 'h, 'n, 'm) bridge_env \<Rightarrow> unmarshal \<Rightarrow> ('t, 'c, 'k, 'h, 'n, 'm) go_ws \<Rightarrow>
     ('t, 'c, 'k, 'h, 'n, 'm) go_ws option" where
  "go_run_watch env um g =
     (if gw_watch g = Pending
      then map_option (\<lambda>(_, g'). g'\<lparr>gw_watch := Unwatched\<rparr>) (go_conn_close env um g)
      else Some g)"

definition go_stop_watch ::
  "('t, 'c, 'k, 'h, 'n, 'm) bridge_env \<Rightarrow> unmarshal \<Rightarrow> ('t, 'c, 'k, 'h, 'n, 'm) go_ws \<Rightarrow>
     ('t, 'c, 'k, 'h, 'n, 'm) go_ws option" where
  "go_stop_watch env um g =
     map_option (\<lambda>g'. g'\<lparr>gw_watch := Unwatched\<rparr>) (go_run_watch env um g)"

datatype ws_event = WsCtxDone string | WsWatchRuns | WsCloseClient | WsCloseConn

definition ws_event_step ::
  "('t, 'c, 'k, 'h, 'n, 'm) bridge_env \<Rightarrow> unmarshal \<Rightarrow> ws_event \<Rightarrow> ('t, 'c, 'k, 'h, 'n, 'm) go_ws \<Rightarrow>
     ('t, 'c, 'k, 'h, 'n, 'm) go_ws option" where
  "ws_event_step env um ev g =
     (case ev of
        WsCtxDone m \<Rightarrow>
          Some (if gw_ctx g = LiveCtx
                then g\<lparr>gw_ctx := DoneCtx m, gw_watch := (if gw_watch g = Watching then Pending else gw_watch g)\<rparr>
                else g)
      | WsWatchRuns \<Rightarrow> go_run_watch env um g
      | WsCloseClient \<Rightarrow> map_option snd (go_ws_client_close env um g)
      | WsCloseConn \<Rightarrow> map_option snd (go_conn_close env um g))"

fun ws_events ::
  "('t, 'c, 'k, 'h, 'n, 'm) bridge_env \<Rightarrow> unmarshal \<Rightarrow> ws_event list \<Rightarrow> ('t, 'c, 'k, 'h, 'n, 'm) go_ws \<Rightarrow>
     ('t, 'c, 'k, 'h, 'n, 'm) go_ws option" where
  "ws_events env um [] g = Some g"
| "ws_events env um (ev # evs) g = Option.bind (ws_event_step env um ev g) (ws_events env um evs)"

subsection \<open>ReadMessage and WriteMessage\<close>

definition operation_error ::
  "('t, 'c, 'k, 'h, 'n, 'm) go_ws \<Rightarrow> go_error option \<Rightarrow> ws_fault option" where
  "operation_error g err =
     (case gw_ctx g of
        DoneCtx m \<Rightarrow> Some (WsContext m)
      | _ \<Rightarrow>
          if gw_client g = 0 then Some WsClientClosed
          else if gw_conn g = 0 then Some WsConnClosed
          else map_option WsBridge err)"

text \<open>The watched middle of both operations: \<open>call\<close> is the bridge's call on the handle loaded before.
  Events come before the watch is set, before the call, after it, and after the watch is stopped.\<close>

definition go_watched ::
  "('t, 'c, 'k, 'h, 'n, 'm) bridge_env \<Rightarrow> unmarshal \<Rightarrow> (nat \<Rightarrow> ws_event list) \<Rightarrow>
     (('t, 'c, 'k, 'h, 'n, 'm) bridge \<Rightarrow> ('a \<times> ('t, 'c, 'k, 'h, 'n, 'm) bridge) option) \<Rightarrow>
     ('t, 'c, 'k, 'h, 'n, 'm) go_ws \<Rightarrow> ('a \<times> ('t, 'c, 'k, 'h, 'n, 'm) go_ws) option" where
  "go_watched env um evs call g =
     Option.bind (ws_events env um (evs 0) g) (\<lambda>g1.
     Option.bind (ws_events env um (evs 1) (go_watch_context g1)) (\<lambda>g2.
     Option.bind (call (gw_bridge g2)) (\<lambda>(answer, b).
     Option.bind (ws_events env um (evs 2) (g2\<lparr>gw_bridge := b\<rparr>)) (\<lambda>g3.
     Option.bind (go_stop_watch env um g3) (\<lambda>g4.
       map_option (\<lambda>g5. (answer, g5)) (ws_events env um (evs 3) g4))))))"

definition go_read_message ::
  "('t, 'c, 'k, 'h, 'n, 'm) bridge_env \<Rightarrow> unmarshal \<Rightarrow> (nat \<Rightarrow> ws_event list) \<Rightarrow> nat option \<Rightarrow>
     ('t, 'c, 'k, 'h, 'n, 'm) go_ws \<Rightarrow>
     ((ws_fault + u8 \<times> bytes) \<times> ('t, 'c, 'k, 'h, 'n, 'm) go_ws) option" where
  "go_read_message env um evs fire g =
     (case check_context (gw_ctx g) of
        Some fault \<Rightarrow> Some (Inl fault, g)
      | None \<Rightarrow>
          let i = gw_conn g in
          if i = 0 then Some (Inl WsConnClosed, g)
          else
            Option.bind (go_watched env um evs (bridge_ws_read (env\<lparr>en_fire := fire\<rparr>) um i) g) (\<lambda>((data, err), g1).
              case operation_error g1 err of
                Some fault \<Rightarrow> map_option (\<lambda>(_, g2). (Inl fault, g2)) (go_conn_close env um g1)
              | None \<Rightarrow>
                  (case data of
                     [] \<Rightarrow> map_option (\<lambda>(_, g2). (Inl (WsOther ''codexws: empty native message''), g2))
                             (go_conn_close env um g1)
                   | kind # payload \<Rightarrow> Some (Inr (kind, payload), g1))))"

text \<open>\<open>errors.As\<close> finds a \<open>*bridge.Error\<close> of one of the two kinds that leave the connection usable.\<close>

definition keeps_connection :: "ws_fault \<Rightarrow> bool" where
  "keeps_connection fault =
     (case fault of
        WsBridge (GoNative kind _) \<Rightarrow> kind = ''invalid_input'' \<or> kind = ''closing''
      | _ \<Rightarrow> False)"

definition go_write_message ::
  "('t, 'c, 'k, 'h, 'n, 'm) bridge_env \<Rightarrow> unmarshal \<Rightarrow> (nat \<Rightarrow> ws_event list) \<Rightarrow> nat option \<Rightarrow>
     u8 \<Rightarrow> bytes \<Rightarrow> ('t, 'c, 'k, 'h, 'n, 'm) go_ws \<Rightarrow>
     (ws_fault option \<times> ('t, 'c, 'k, 'h, 'n, 'm) go_ws) option" where
  "go_write_message env um evs fire kind data g =
     (case check_context (gw_ctx g) of
        Some fault \<Rightarrow> Some (Some fault, g)
      | None \<Rightarrow>
          let i = gw_conn g in
          if i = 0 then Some (Some WsConnClosed, g)
          else
            Option.bind (go_watched env um evs (bridge_ws_write (env\<lparr>en_fire := fire\<rparr>) um i kind data) g) (\<lambda>(err, g1).
              case operation_error g1 err of
                None \<Rightarrow> Some (None, g1)
              | Some fault \<Rightarrow>
                  if keeps_connection fault then Some (Some fault, g1)
                  else map_option (\<lambda>(_, g2). (Some fault, g2)) (go_conn_close env um g1)))"

definition go_write_control where
  "go_write_control env um evs fire kind data g =
     (if kind \<noteq> 9 \<and> kind \<noteq> 10 \<and> kind \<noteq> 8
      then Some (Some (WsOther ''codexws: WriteControl requires Ping, Pong or Close''), g)
      else go_write_message env um evs fire kind data g)"

subsection \<open>Dial\<close>

text \<open>Headers are added in order, under their canonical names.\<close>

fun go_wire_headers :: "go_ws_codec \<Rightarrow> (string \<times> string) list \<Rightarrow> string + (string \<times> bytes) list" where
  "go_wire_headers codec [] = Inr []"
| "go_wire_headers codec ((name, v) # rest) =
     and_then (wg_b64_decode codec v) (\<lambda>raw.
     and_then (go_wire_headers codec rest) (\<lambda>hs. Inr ((wg_canonical codec name, raw) # hs)))"

definition decode_handshake :: "go_ws_codec \<Rightarrow> bytes \<Rightarrow> string + go_handshake" where
  "decode_handshake codec data =
     and_then (map_err (\<lambda>e. ''codexws: invalid native handshake: '' @ e) (wg_handshake codec data)) (\<lambda>m.
     and_then (go_wire_headers codec (wh_headers m)) (\<lambda>hs.
       Inr \<lparr>gk_status = wh_status m, gk_headers = hs, gk_body = wh_body m, gk_truncated = wh_truncated m\<rparr>))"

definition go_dial_metadata :: "go_ws_codec \<Rightarrow> string \<Rightarrow> (string \<times> bytes list) list \<Rightarrow> dial_request" where
  "go_dial_metadata codec url headers =
     \<lparr>dr_url = url,
      dr_headers = concat (map (\<lambda>(name, vs). map (\<lambda>v. (name, wg_b64_encode codec v)) vs) headers)\<rparr>"

text \<open>The error of the connect: the context's, the closed client's, or the bridge's own, which for a
  rejected upgrade brings the handshake along.\<close>

definition dial_error ::
  "('t, 'c, 'k, 'h, 'n, 'm) go_ws \<Rightarrow> go_error option \<Rightarrow> ws_fault option" where
  "dial_error g err =
     (case gw_ctx g of
        DoneCtx m \<Rightarrow> Some (WsContext m)
      | _ \<Rightarrow> if gw_client g = 0 then Some WsClientClosed else map_option WsBridge err)"

definition dial_failure :: "go_ws_codec \<Rightarrow> bytes \<Rightarrow> ws_fault \<Rightarrow> ws_fault" where
  "dial_failure codec data fault =
     (case fault of
        WsBridge (GoNative kind m) \<Rightarrow>
          if kind = ''handshake'' then
            (case and_then (wg_details codec data) (decode_handshake codec) of
               Inl e \<Rightarrow> WsOther e
             | Inr hs \<Rightarrow> WsRejected hs (GoNative kind m))
          else fault
      | _ \<Rightarrow> fault)"

text \<open>\<open>evs 0\<close>: before the connection exists; \<open>evs 1\<close> to \<open>evs 4\<close>: as in \<open>go_watched\<close>.\<close>

definition go_dial ::
  "go_ws_codec \<Rightarrow> ('t, 'c, 'k, 'h, 'n, 'm) bridge_env \<Rightarrow> unmarshal \<Rightarrow> (nat \<Rightarrow> ws_event list) \<Rightarrow> nat option \<Rightarrow>
     string \<Rightarrow> (string \<times> bytes list) list \<Rightarrow> ('t, 'c, 'k, 'h, 'n, 'm) go_ws \<Rightarrow>
     ((ws_fault + go_handshake) \<times> ('t, 'c, 'k, 'h, 'n, 'm) go_ws) option" where
  "go_dial codec env um evs fire url headers g =
     (case check_context (gw_ctx g) of
        Some fault \<Rightarrow> Some (Inl fault, g)
      | None \<Rightarrow>
          let client = gw_client g in
          if client = 0 then Some (Inl WsClientClosed, g)
          else
            (case wg_dial codec (go_dial_metadata codec url headers) of
               Inl e \<Rightarrow> Some (Inl (WsOther e), g)
             | Inr metadata \<Rightarrow>
                 Option.bind (ws_events env um (evs 0) g) (\<lambda>g0.
                 Option.bind (bridge_ws_connection_new env um client metadata (gw_bridge g0)) (\<lambda>((i, err), b).
                   let g1 = g0\<lparr>gw_bridge := b\<rparr> in
                   case err of
                     Some e \<Rightarrow> Some (Inl (if gw_client g1 = 0 then WsClientClosed else WsBridge e), g1)
                   | None \<Rightarrow>
                       Option.bind (go_watched env um (\<lambda>k. evs (Suc k)) (bridge_ws_connect (env\<lparr>en_fire := fire\<rparr>) um i)
                                      (g1\<lparr>gw_conn := i\<rparr>)) (\<lambda>((data, err), g2).
                         case dial_error g2 err of
                           Some fault \<Rightarrow>
                             map_option (\<lambda>(_, g3). (Inl (dial_failure codec data fault), g3)) (go_conn_close env um g2)
                         | None \<Rightarrow>
                             (case decode_handshake codec data of
                                Inl e \<Rightarrow> map_option (\<lambda>(_, g3). (Inl (WsOther e), g3)) (go_conn_close env um g2)
                              | Inr hs \<Rightarrow> Some (Inr hs, g2)))))))"

subsection \<open>Close payloads\<close>

definition go_close_payload :: "u16 \<Rightarrow> bytes \<Rightarrow> bytes" where
  "go_close_payload code reason = u16_to_be_bytes code @ reason"

definition go_parse_close_payload :: "bytes \<Rightarrow> string + u16 \<times> bytes" where
  "go_parse_close_payload data =
     (case data of
        [] \<Rightarrow> Inr (1005, [])
      | [_] \<Rightarrow> Inl ''codexws: invalid close payload''
      | hi # lo # reason \<Rightarrow> Inr (u16_from_be_bytes hi lo, reason))"

subsection \<open>What the steps keep\<close>

text \<open>The registry's states in which calls return: no thread has panicked under its lock, every
  registered connection is there, and frame sizes are positive.\<close>

definition ws_sound :: "('t, 'c, 'k, 'h, 'n) ws_world \<Rightarrow> bool" where
  "ws_sound w \<longleftrightarrow> \<not> ww_poisoned w \<and> stored w \<and>
     (\<forall>i c. ww_clients w i = Some c \<longrightarrow> 0 < frame_size c) \<and>
     (\<forall>r c. ww_store w r = Some c \<longrightarrow> 0 < frame_size (co_owner c))"

definition ws_calm :: "('t, 'c, 'k, 'h, 'n, 'm) bridge \<Rightarrow> bool" where
  "ws_calm b \<longleftrightarrow> heap_ok (br_heap b) \<and> ws_sound (br_ws b)"

lemma ws_history_sound:
  assumes "(ws_step sdk api)\<^sup>*\<^sup>* (ws_init n t) s" "token_laws api" "tok_ok api t" "\<not> ww_poisoned (ss_world s)"
  shows "ws_sound (ss_world s)"
  using assms ws_history_frames [OF assms(1)] ws_history_stored [OF assms(1-3)]
  by (simp add: ws_sound_def frames_ok_def)

lemma only_conn_sound:
  assumes "only_conn r w w'" "ws_sound w"
  shows "ws_sound w'"
proof -
  have "ww_store w' q \<noteq> None \<longleftrightarrow> ww_store w q \<noteq> None"
    "ww_store w' q = Some c \<Longrightarrow> \<exists>c0. ww_store w q = Some c0 \<and> co_owner c0 = co_owner c" for q c
    using assms(1) by (cases "q = r"; auto simp: only_conn_def conn_le_def elim: option.rel_cases)+
  with assms show ?thesis
    unfolding ws_sound_def stored_def by (simp add: only_conn_def) metis
qed

lemma ws_close_connection_world:
  assumes "ws_close_connection api i w = (r, w')" "ws_sound w"
  shows "r = Inr (output_handle 0)" "ws_sound w'" "ww_conns w' = (ww_conns w)(i := None)"
    "ww_store w' = ww_store w"
  using assms
  by (auto simp: ws_close_connection_def ws_registry_def ws_remove_conn_def ws_cancel_def ws_sound_def stored_def
      split: option.splits if_splits)

lemma ws_close_world:
  assumes "ws_close api i w = (r, w')" "ws_sound w"
  shows "r = Inr (output_handle 0)" "ws_sound w'" "dom (ww_conns w') \<subseteq> dom (ww_conns w)"
    "ww_store w' = ww_store w"
  using assms
  by (auto simp: ws_close_def ws_registry_def ws_unregister_def ws_cancel_def ws_sound_def stored_def
      split: option.splits if_splits)

lemma ws_create_connection_world:
  assumes "ws_create_connection sdk api i data w = (r, w')" "ws_sound w"
  shows "ws_sound w' \<and> (case r of Inl e \<Rightarrow> ww_conns w' = ww_conns w
      | Inr out \<Rightarrow> (\<exists>j q. out = output_handle j \<and> j \<noteq> 0 \<and> ww_conns w' = (ww_conns w)(j \<mapsto> q)))"
  using assms
  by (auto simp: ws_create_connection_def ws_find_client_def ws_registry_def ws_new_conn_def ws_add_conn_def
      ws_next_def ws_sound_def stored_def Let_def result_simps
      split: option.splits if_splits sum.splits prod.splits dest: checked_add_nonzero)

lemma only_conn_world:
  "only_conn r w w' \<Longrightarrow> ws_sound w \<Longrightarrow> ws_sound w' \<and> ww_conns w' = ww_conns w"
  using only_conn_sound by (simp add: only_conn_def)

lemma ws_connect_world:
  assumes "ws_connect sdk api build fire i cell w = (r, cell', w')" "ws_sound w"
  shows "ws_sound w' \<and> ww_conns w' = ww_conns w"
  using assms only_conn_world [OF connect_on_only_conn]
  by (cases "ws_lookup i w") (simp_all add: ws_connect_def)

lemma ws_read_world:
  assumes "ws_read sdk api build fire i cell w = (r, cell', w')" "ws_sound w"
  shows "ws_sound w' \<and> ww_conns w' = ww_conns w"
  using assms only_conn_world [OF read_on_only_conn]
  by (cases "ws_lookup i w") (simp_all add: ws_read_def)

lemma ws_write_world:
  assumes "ws_write sdk api build fire i kind data cell w = Some (r, cell', w')" "ws_sound w"
  shows "ws_sound w' \<and> ww_conns w' = ww_conns w"
  using assms only_conn_world [OF write_on_only_conn]
  by (cases "ws_lookup i w"; cases "plan_write sdk kind data") (simp_all add: ws_write_def)

subsection \<open>The bridge's calls on the WebSocket registry\<close>

definition ws_after ::
  "('t, 'c, 'k, 'h, 'n, 'm) bridge \<Rightarrow> runtime_cell \<Rightarrow> ('t, 'c, 'k, 'h, 'm) ws_world \<Rightarrow>
     ('t, 'c, 'k, 'h, 'n, 'm) bridge \<Rightarrow> bool" where
  "ws_after b cell w b' \<longleftrightarrow> (\<exists>h. b' = b\<lparr>br_ws := w, br_runtime := cell, br_heap := h\<rparr> \<and> heap_ok h)"

lemma ws_after_sel:
  "ws_after b cell w b' \<Longrightarrow> br_ws b' = w \<and> br_runtime b' = cell \<and> br_http b' = br_http b \<and> heap_ok (br_heap b')"
  by (auto simp: ws_after_def)

lemma ws_after_calm: "ws_after b cell w b' \<Longrightarrow> ws_sound w \<Longrightarrow> ws_calm b'"
  by (auto simp: ws_after_def ws_calm_def)

lemma go_invoke_ws:
  assumes "abi_closure env call b = Some (r, b\<lparr>br_ws := w, br_runtime := cell\<rparr>)"
    and "heap_ok (br_heap b)" "serialises env"
  shows "\<exists>b'. go_invoke env um call b = Some (go_answer (en_to_vec env) um r, b') \<and> ws_after b cell w b'"
  using go_invoke_eq [OF assms(1) _ assms(3), of um] assms(2) by (auto simp: ws_after_def)

lemma go_answer_handle [simp]: "go_answer to_vec um (Inr (output_handle j)) = (j, [], None)"
  by (simp add: go_answer_def)

lemma bridge_ws_client_close_calm:
  assumes "ws_calm b" "serialises env"
  obtains b' where "bridge_ws_client_close env um i b = Some (None, b')" "ws_calm b'"
    "dom (ww_conns (br_ws b')) \<subseteq> dom (ww_conns (br_ws b))" "ww_store (br_ws b') = ww_store (br_ws b)"
proof -
  obtain r w where c: "ws_close (en_tokens env) i (br_ws b) = (r, w)" by (cases "ws_close (en_tokens env) i (br_ws b)")
  note world = ws_close_world [OF c assms(1) [unfolded ws_calm_def, THEN conjunct2]]
  have "abi_closure env (WsClientClose i) b = Some (r, b\<lparr>br_ws := w, br_runtime := br_runtime b\<rparr>)"
    using c by (simp add: exported_defs ws_call_def)
  from go_invoke_ws [OF this _ assms(2), of um] assms(1) obtain b' where
    "go_invoke env um (WsClientClose i) b = Some (go_answer (en_to_vec env) um r, b')" "ws_after b (br_runtime b) w b'"
    by (auto simp: ws_calm_def)
  with that [of b'] world ws_after_calm [OF this(2)] ws_after_sel [OF this(2)] show ?thesis
    by (simp add: bridge_ws_client_close_def only_error_def)
qed

lemma bridge_ws_connection_close_calm:
  assumes "ws_calm b" "serialises env"
  obtains b' where "bridge_ws_connection_close env um i b = Some (None, b')" "ws_calm b'"
    "ww_conns (br_ws b') = (ww_conns (br_ws b))(i := None)" "ww_store (br_ws b') = ww_store (br_ws b)"
proof -
  obtain r w where c: "ws_close_connection (en_tokens env) i (br_ws b) = (r, w)"
    by (cases "ws_close_connection (en_tokens env) i (br_ws b)")
  note world = ws_close_connection_world [OF c assms(1) [unfolded ws_calm_def, THEN conjunct2]]
  have "abi_closure env (WsConnectionClose i) b = Some (r, b\<lparr>br_ws := w, br_runtime := br_runtime b\<rparr>)"
    using c by (simp add: exported_defs ws_call_def)
  from go_invoke_ws [OF this _ assms(2), of um] assms(1) obtain b' where
    "go_invoke env um (WsConnectionClose i) b = Some (go_answer (en_to_vec env) um r, b')" "ws_after b (br_runtime b) w b'"
    by (auto simp: ws_calm_def)
  with that [of b'] world ws_after_calm [OF this(2)] ws_after_sel [OF this(2)] show ?thesis
    by (simp add: bridge_ws_connection_close_def only_error_def)
qed

lemma with_input_go_cases:
  obtains "with_input (go_ptr bs) (length bs) f b = Some (Inl (invalid ''invalid input buffer''), b)"
  | "with_input (go_ptr bs) (length bs) f b = f bs b"
proof (cases "length bs \<le> isize_max")
  case False
  then have "refused_input (go_ptr bs) (length bs)" by (auto simp: refused_input_def)
  with that(1) show ?thesis by (simp add: with_input_refused)
qed (use that(2) in simp)

lemma bridge_ws_connection_new_calm:
  assumes "ws_calm b" "serialises env"
  obtains j err b' where "bridge_ws_connection_new env um i metadata b = Some ((j, err), b')" "ws_calm b'"
    "case err of Some e \<Rightarrow> ww_conns (br_ws b') = ww_conns (br_ws b)
       | None \<Rightarrow> j \<noteq> 0 \<and> dom (ww_conns (br_ws b')) = insert j (dom (ww_conns (br_ws b)))"
proof -
  let ?f = "\<lambda>data. ws_call (ws_create_connection (en_ws env) (en_tokens env) i data)"
  obtain r w where c: "with_input (go_ptr metadata) (length metadata) ?f b = Some (r, b\<lparr>br_ws := w, br_runtime := br_runtime b\<rparr>)"
    "ws_sound w" "case r of Inl e \<Rightarrow> ww_conns w = ww_conns (br_ws b)
       | Inr out \<Rightarrow> (\<exists>j q. out = output_handle j \<and> j \<noteq> 0 \<and> ww_conns w = (ww_conns (br_ws b))(j \<mapsto> q))"
  proof (cases rule: with_input_go_cases [of metadata ?f b])
    case 1
    with that [of "Inl (invalid ''invalid input buffer'')" "br_ws b"] assms(1) show ?thesis by (simp add: ws_calm_def)
  next
    case 2
    obtain r w where "ws_create_connection (en_ws env) (en_tokens env) i metadata (br_ws b) = (r, w)"
      by (cases "ws_create_connection (en_ws env) (en_tokens env) i metadata (br_ws b)")
    with 2 that [of r w] ws_create_connection_world [OF this] assms(1) show ?thesis
      by (simp add: ws_call_def ws_calm_def)
  qed
  then have "abi_closure env (WsConnectionNew i (go_ptr metadata) (length metadata)) b
      = Some (r, b\<lparr>br_ws := w, br_runtime := br_runtime b\<rparr>)"
    by (simp add: exported_defs)
  from go_invoke_ws [OF this _ assms(2), of um] assms(1) obtain b' where
    b': "go_invoke env um (WsConnectionNew i (go_ptr metadata) (length metadata)) b = Some (go_answer (en_to_vec env) um r, b')"
      "ws_after b (br_runtime b) w b'"
    by (auto simp: ws_calm_def)
  show ?thesis
  proof (cases r)
    case (Inl e)
    then have "\<exists>err. snd (snd (go_answer (en_to_vec env) um r)) = Some err"
      by (simp add: go_answer_def Let_def split: option.split)
    with Inl b' c(2,3) that ws_after_calm [OF b'(2)] ws_after_sel [OF b'(2)] show ?thesis
      by (auto simp: bridge_ws_connection_new_def only_handle_def)
  next
    case (Inr out)
    with b' c(2,3) that ws_after_calm [OF b'(2)] ws_after_sel [OF b'(2)] show ?thesis
      by (auto simp: bridge_ws_connection_new_def only_handle_def)
  qed
qed

text \<open>A task on a connection: it returns and leaves the registry as it is.\<close>

definition ws_task_calm where
  "ws_task_calm b b' \<longleftrightarrow> ws_calm b' \<and> ww_conns (br_ws b') = ww_conns (br_ws b)"

lemma ws_task_calmI: "ws_after b cell w b' \<Longrightarrow> ws_sound w \<and> ww_conns w = ww_conns (br_ws b) \<Longrightarrow> ws_task_calm b b'"
  using ws_after_calm ws_after_sel by (fastforce simp: ws_task_calm_def)

lemma bridge_ws_connect_calm:
  assumes "ws_calm b" "serialises env"
  obtains r cell w b' where "bridge_ws_connect env um i b = Some (snd (go_answer (en_to_vec env) um r), b')"
    "ws_connect (en_ws env) (en_tokens env) (en_build env) (en_fire env) i (br_runtime b) (br_ws b) = (r, cell, w)"
    "ws_after b cell w b'" "ws_task_calm b b'"
proof -
  obtain r cell w where c: "ws_connect (en_ws env) (en_tokens env) (en_build env) (en_fire env) i (br_runtime b) (br_ws b)
      = (r, cell, w)"
    by (cases "ws_connect (en_ws env) (en_tokens env) (en_build env) (en_fire env) i (br_runtime b) (br_ws b)")
  have "abi_closure env (WsConnect i) b = Some (r, b\<lparr>br_ws := w, br_runtime := cell\<rparr>)"
    using c by (simp add: exported_defs ws_task_def)
  from go_invoke_ws [OF this _ assms(2), of um] assms(1) obtain b' where
    b': "go_invoke env um (WsConnect i) b = Some (go_answer (en_to_vec env) um r, b')" "ws_after b cell w b'"
    by (auto simp: ws_calm_def)
  from c b' that [of r b' cell w] ws_task_calmI [OF b'(2) ws_connect_world [OF c]] assms(1) show ?thesis
    by (simp add: bridge_ws_connect_def only_data_def ws_calm_def)
qed

lemma bridge_ws_read_calm:
  assumes "ws_calm b" "serialises env"
  obtains r cell w b' where "bridge_ws_read env um i b = Some (snd (go_answer (en_to_vec env) um r), b')"
    "ws_read (en_ws env) (en_tokens env) (en_build env) (en_fire env) i (br_runtime b) (br_ws b) = (r, cell, w)"
    "ws_after b cell w b'" "ws_task_calm b b'"
proof -
  obtain r cell w where c: "ws_read (en_ws env) (en_tokens env) (en_build env) (en_fire env) i (br_runtime b) (br_ws b)
      = (r, cell, w)"
    by (cases "ws_read (en_ws env) (en_tokens env) (en_build env) (en_fire env) i (br_runtime b) (br_ws b)")
  have "abi_closure env (WsRead i) b = Some (r, b\<lparr>br_ws := w, br_runtime := cell\<rparr>)"
    using c by (simp add: exported_defs ws_task_def)
  from go_invoke_ws [OF this _ assms(2), of um] assms(1) obtain b' where
    b': "go_invoke env um (WsRead i) b = Some (go_answer (en_to_vec env) um r, b')" "ws_after b cell w b'"
    by (auto simp: ws_calm_def)
  from c b' that [of r b' cell w] ws_task_calmI [OF b'(2) ws_read_world [OF c]] assms(1) show ?thesis
    by (simp add: bridge_ws_read_def only_data_def ws_calm_def)
qed

text \<open>What is still to be read from each connection; a write does not touch it.\<close>

definition inbound :: "('t, 'c, 'k, 'h, 'n) ws_world \<Rightarrow> nat \<Rightarrow> ('c ws_item list option \<times> bool) option" where
  "inbound w r = map_option (\<lambda>c. (co_reader c, co_peer_close c)) (ww_store w r)"

lemma send_fragments_reader:
  "send_fragments sdk fire kind data offset c = Some y \<Longrightarrow>
     co_reader (snd y) = co_reader c \<and> co_peer_close (snd y) = co_peer_close c"
proof (induction rule: send_fragments.raw_induct [rotated, consumes 1])
  case (1 f sdk fire kind data offset c y)
  show ?case
    using 1(2) by (auto simp: Let_def split: if_splits option.splits prod.splits sum.splits dest!: 1(1))
qed

lemma ws_write_task_reader:
  "ws_write_task sdk fire plan c = Some (t, c') \<Longrightarrow> co_reader c' = co_reader c \<and> co_peer_close c' = co_peer_close c"
  by (cases plan)
     (auto simp: ws_write_task_def ws_send_data_def ws_send_control_def Let_def
        split: if_splits option.splits prod.splits dest: send_fragments_reader)

lemma run_on_inbound:
  assumes "run_on api build r body cell w = (res, cell', w')"
    and "\<And>c t c' n. body c (ww_net w) = (t, c', n) \<Longrightarrow>
           co_reader c' = co_reader c \<and> co_peer_close c' = co_peer_close c"
  shows "inbound w' = inbound w"
proof -
  let ?task = "\<lambda>w. case ww_store w r of
              None \<Rightarrow> (TaskPanicked, w)
            | Some c \<Rightarrow> (let (t, c', n) = body c (ww_net w) in (t, set_conn r c' (w\<lparr>ww_net := n\<rparr>)))"
  have task: "inbound (snd (?task w)) = inbound w"
  proof (cases "ww_store w r")
    case (Some c)
    obtain t c' n where "body c (ww_net w) = (t, c', n)" by (cases "body c (ww_net w)")
    with Some assms(2) [OF this] show ?thesis by (auto simp: inbound_def set_conn_def fun_eq_iff)
  qed simp
  have "w' = w \<or> w' = snd (select_cancelled (conn_fired api r w) connection_closed ?task w)"
    using assms(1) unfolding run_on_def run_def
    by (auto split: prod.splits sum.splits task.splits)
  with task show ?thesis by (auto simp: select_cancelled_def)
qed

lemma ws_write_inbound:
  assumes "ws_write sdk api build fire i kind data cell w = Some (res, cell', w')"
  shows "inbound w' = inbound w"
proof -
  have "inbound w' = inbound w" if "ws_write_on sdk api build fire r plan cell w = Some (res, cell', w')" for r plan
    using that unfolding ws_write_on_def
    by (auto split: if_splits option.splits prod.splits elim!: run_on_inbound dest: ws_write_task_reader)
  with assms show ?thesis
    by (auto simp: ws_write_def split: sum.splits)
qed

lemma ws_sound_write_returns:
  assumes "ws_sound w"
  obtains r cell' w' where "ws_write sdk api build fire i kind data cell w = Some (r, cell', w')"
proof -
  have "frames_ok \<lparr>ss_world = w, ss_runtime = None, ss_found = {}, ss_made = {}, ss_cancelling = {}\<rparr>"
    using assms by (simp add: frames_ok_def ws_sound_def)
  from ws_write_returns [OF this, of sdk api build fire i kind data cell] that show ?thesis by auto
qed

lemma bridge_ws_write_calm:
  assumes "ws_calm b" "serialises env"
  obtains err b' where "bridge_ws_write env um i kind data b = Some (err, b')" "ws_task_calm b b'"
    "inbound (br_ws b') = inbound (br_ws b)"
proof -
  let ?f = "\<lambda>d. ws_task (ws_write (en_ws env) (en_tokens env) (en_build env) (en_fire env) i kind d)"
  obtain r cell w where c: "with_input (go_ptr data) (length data) ?f b = Some (r, b\<lparr>br_ws := w, br_runtime := cell\<rparr>)"
    "ws_sound w \<and> ww_conns w = ww_conns (br_ws b)" "inbound w = inbound (br_ws b)"
  proof (cases rule: with_input_go_cases [of data ?f b])
    case 1
    with that [of "Inl (invalid ''invalid input buffer'')" "br_runtime b" "br_ws b"] assms(1)
    show ?thesis by (simp add: ws_calm_def)
  next
    case 2
    obtain r cell w where "ws_write (en_ws env) (en_tokens env) (en_build env) (en_fire env) i kind data
        (br_runtime b) (br_ws b) = Some (r, cell, w)"
      by (rule ws_sound_write_returns [OF assms(1) [unfolded ws_calm_def, THEN conjunct2]])
    with 2 that [of r cell w] ws_write_world [OF this] ws_write_inbound [OF this] assms(1) show ?thesis
      by (simp add: ws_task_def ws_calm_def)
  qed
  then have "abi_closure env (WsWrite i kind (go_ptr data) (length data)) b
      = Some (r, b\<lparr>br_ws := w, br_runtime := cell\<rparr>)"
    by (simp add: exported_defs)
  from go_invoke_ws [OF this _ assms(2), of um] assms(1) obtain b' where
    b': "go_invoke env um (WsWrite i kind (go_ptr data) (length data)) b = Some (go_answer (en_to_vec env) um r, b')"
      "ws_after b cell w b'"
    by (auto simp: ws_calm_def)
  from b' c(3) that [OF _ ws_task_calmI [OF b'(2) c(2)]] ws_after_sel [OF b'(2)] show ?thesis
    by (simp add: bridge_ws_write_def only_error_def)
qed

subsection \<open>Operations under interference\<close>

definition live_conns :: "('t, 'c, 'k, 'h, 'n, 'm) go_ws \<Rightarrow> u64 set" where
  "live_conns g = dom (ww_conns (br_ws (gw_bridge g)))"

text \<open>Connections only disappear; the handles of the client and of the connection stay or are taken,
  and a connection whose handle is taken is gone; with both in place nothing has been closed.\<close>

definition ws_le :: "('t, 'c, 'k, 'h, 'n, 'm) go_ws \<Rightarrow> ('t, 'c, 'k, 'h, 'n, 'm) go_ws \<Rightarrow> bool" where
  "ws_le g g' \<longleftrightarrow> ws_calm (gw_bridge g') \<and> live_conns g' \<subseteq> live_conns g \<and>
     (gw_conn g' = gw_conn g \<or> gw_conn g' = 0) \<and> (gw_client g' = gw_client g \<or> gw_client g' = 0) \<and>
     (gw_conn g' \<noteq> gw_conn g \<longrightarrow> gw_conn g \<notin> live_conns g') \<and>
     (gw_conn g' \<noteq> 0 \<and> gw_client g' \<noteq> 0 \<longrightarrow> live_conns g' = live_conns g)"

definition same_inbound :: "('t, 'c, 'k, 'h, 'n, 'm) go_ws \<Rightarrow> ('t, 'c, 'k, 'h, 'n, 'm) go_ws \<Rightarrow> bool" where
  "same_inbound g g' \<longleftrightarrow> inbound (br_ws (gw_bridge g')) = inbound (br_ws (gw_bridge g))"

definition ws_quiet :: "('t, 'c, 'k, 'h, 'n, 'm) go_ws \<Rightarrow> ('t, 'c, 'k, 'h, 'n, 'm) go_ws \<Rightarrow> bool" where
  "ws_quiet g g' \<longleftrightarrow> ws_le g g' \<and> same_inbound g g' \<and> (gw_watch g = Unwatched \<longrightarrow> gw_watch g' = Unwatched)"

lemma ws_le_refl: "ws_calm (gw_bridge g) \<Longrightarrow> ws_le g g"
  by (simp add: ws_le_def)

lemma ws_le_trans:
  assumes "ws_le a b" "ws_le b c"
  shows "ws_le a c"
proof -
  have "gw_conn c \<noteq> gw_conn a \<longrightarrow> gw_conn a \<notin> live_conns c"
    using assms unfolding ws_le_def by (metis subsetD)
  moreover have "live_conns c = live_conns a" if "gw_conn c \<noteq> 0 \<and> gw_client c \<noteq> 0"
  proof -
    have "gw_conn b \<noteq> 0" "gw_client b \<noteq> 0" using that assms(2) unfolding ws_le_def by metis+
    with that assms show ?thesis unfolding ws_le_def by blast
  qed
  moreover have "gw_conn c = gw_conn a \<or> gw_conn c = 0" "gw_client c = gw_client a \<or> gw_client c = 0"
    using assms unfolding ws_le_def by metis+
  moreover have "ws_calm (gw_bridge c)" "live_conns c \<subseteq> live_conns a"
    using assms unfolding ws_le_def by blast+
  ultimately show ?thesis unfolding ws_le_def by blast
qed

lemma ws_le_calm: "ws_le a b \<Longrightarrow> ws_calm (gw_bridge b)"
  by (simp add: ws_le_def)

lemma ws_le_watch [simp]:
  "ws_le (g\<lparr>gw_watch := v\<rparr>) g' = ws_le g g'" "ws_le g (g'\<lparr>gw_watch := v\<rparr>) = ws_le g g'"
  "same_inbound (g\<lparr>gw_watch := v\<rparr>) g' = same_inbound g g'" "same_inbound g (g'\<lparr>gw_watch := v\<rparr>) = same_inbound g g'"
  by (simp_all add: ws_le_def live_conns_def same_inbound_def)

lemma ws_quiet_refl: "ws_calm (gw_bridge g) \<Longrightarrow> ws_quiet g g"
  by (simp add: ws_quiet_def ws_le_refl same_inbound_def)

lemma ws_quiet_trans: "ws_quiet a b \<Longrightarrow> ws_quiet b c \<Longrightarrow> ws_quiet a c"
  unfolding ws_quiet_def using ws_le_trans by (auto simp: same_inbound_def)

lemma ws_quietD: "ws_quiet a b \<Longrightarrow> ws_calm (gw_bridge b)" "ws_quiet a b \<Longrightarrow> ws_le a b"
  by (simp_all add: ws_quiet_def ws_le_def)

lemma inbound_store: "ww_store w' = ww_store w \<Longrightarrow> inbound w' = inbound w"
  by (simp add: inbound_def fun_eq_iff)

lemma go_conn_close_quiet:
  assumes "ws_calm (gw_bridge g)" "serialises env"
  obtains g' where "go_conn_close env um g = Some (None, g')" "ws_quiet g g'" "gw_conn g' = 0"
    "gw_watch g' = gw_watch g" "gw_ctx g' = gw_ctx g" "gw_client g' = gw_client g"
proof (cases "gw_conn g = 0")
  case True
  with that [of g] ws_quiet_refl [OF assms(1)] show ?thesis by (simp add: go_conn_close_def)
next
  case False
  obtain b where "bridge_ws_connection_close env um (gw_conn g) (gw_bridge g) = Some (None, b)" "ws_calm b"
    "ww_conns (br_ws b) = (ww_conns (br_ws (gw_bridge g)))(gw_conn g := None)"
    "ww_store (br_ws b) = ww_store (br_ws (gw_bridge g))"
    using bridge_ws_connection_close_calm [OF assms] by blast
  with that [of "g\<lparr>gw_conn := 0, gw_bridge := b\<rparr>"] False inbound_store show ?thesis
    by (auto simp: go_conn_close_def ws_quiet_def ws_le_def live_conns_def same_inbound_def)
qed

lemma go_ws_client_close_quiet:
  assumes "ws_calm (gw_bridge g)" "serialises env"
  obtains err g' where "go_ws_client_close env um g = Some (err, g')" "ws_quiet g g'"
proof (cases "gw_client g = 0")
  case True
  with that [of None g] ws_quiet_refl [OF assms(1)] show ?thesis by (simp add: go_ws_client_close_def)
next
  case False
  obtain b where "bridge_ws_client_close env um (gw_client g) (gw_bridge g) = Some (None, b)" "ws_calm b"
    "dom (ww_conns (br_ws b)) \<subseteq> dom (ww_conns (br_ws (gw_bridge g)))"
    "ww_store (br_ws b) = ww_store (br_ws (gw_bridge g))"
    using bridge_ws_client_close_calm [OF assms] by blast
  with that [of None "g\<lparr>gw_client := 0, gw_bridge := b\<rparr>"] False inbound_store [of "br_ws b" "br_ws (gw_bridge g)"]
  show ?thesis
    by (simp add: go_ws_client_close_def ws_quiet_def ws_le_def live_conns_def same_inbound_def)
qed

lemma go_run_watch_quiet:
  assumes "ws_calm (gw_bridge g)" "serialises env"
  obtains g' where "go_run_watch env um g = Some g'" "ws_quiet g g'"
proof (cases "gw_watch g = Pending")
  case True
  obtain g' where "go_conn_close env um g = Some (None, g')" "ws_quiet g g'"
    using go_conn_close_quiet [OF assms] by metis
  with that [of "g'\<lparr>gw_watch := Unwatched\<rparr>"] True show ?thesis
    by (simp add: go_run_watch_def ws_quiet_def)
next
  case False
  with that [of g] ws_quiet_refl [OF assms(1)] show ?thesis by (simp add: go_run_watch_def)
qed

lemma ws_event_quiet:
  assumes "ws_calm (gw_bridge g)" "serialises env"
  shows "\<exists>g'. ws_event_step env um ev g = Some g' \<and> ws_quiet g g'"
proof (cases ev)
  case (WsCtxDone m)
  with assms(1) show ?thesis
    by (auto simp: ws_event_step_def ws_quiet_def ws_le_def live_conns_def same_inbound_def)
next
  case WsWatchRuns
  then show ?thesis
    by (simp add: ws_event_step_def) (rule go_run_watch_quiet [OF assms, of um], blast)
next
  case WsCloseClient
  obtain err g' where "go_ws_client_close env um g = Some (err, g')" "ws_quiet g g'"
    by (rule go_ws_client_close_quiet [OF assms])
  with WsCloseClient show ?thesis by (simp add: ws_event_step_def)
next
  case WsCloseConn
  obtain g' where "go_conn_close env um g = Some (None, g')" "ws_quiet g g'"
    by (rule go_conn_close_quiet [OF assms])
  with WsCloseConn show ?thesis by (simp add: ws_event_step_def)
qed

lemma ws_events_quiet:
  "ws_calm (gw_bridge g) \<Longrightarrow> serialises env \<Longrightarrow> \<exists>g'. ws_events env um evs g = Some g' \<and> ws_quiet g g'"
proof (induction evs arbitrary: g)
  case Nil
  then show ?case by (simp add: ws_quiet_refl)
next
  case (Cons ev evs)
  from ws_event_quiet [OF Cons.prems, of um ev] obtain g1 where
    g1: "ws_event_step env um ev g = Some g1" "ws_quiet g g1" by blast
  from Cons.IH [OF ws_quietD(1) [OF g1(2)] Cons.prems(2)] g1 show ?case
    by (auto intro: ws_quiet_trans)
qed

text \<open>The watched middle: everything returns, the watch is gone, and only the call itself can touch
  what is to be read.\<close>

lemma go_watched_runs:
  assumes "ws_calm (gw_bridge g)" "serialises env"
    and "\<And>b. ws_calm b \<Longrightarrow> \<exists>a b'. call b = Some (a, b') \<and> ws_task_calm b b'"
  obtains a g2 b g' where "go_watched env um evs call g = Some (a, g')" "ws_le g g'"
    "gw_watch g' = Unwatched" "ws_calm (gw_bridge g2)" "call (gw_bridge g2) = Some (a, b)"
    "same_inbound g g2" "same_inbound (g2\<lparr>gw_bridge := b\<rparr>) g'"
proof -
  obtain g1 where g1: "ws_events env um (evs 0) g = Some g1" "ws_quiet g g1"
    using ws_events_quiet [OF assms(1,2)] by blast
  have calm1: "ws_calm (gw_bridge (go_watch_context g1))"
    using ws_quietD(1) [OF g1(2)] by (simp add: go_watch_context_def)
  obtain g2 where g2: "ws_events env um (evs 1) (go_watch_context g1) = Some g2" "ws_quiet (go_watch_context g1) g2"
    using ws_events_quiet [OF calm1 assms(2)] by blast
  obtain a b where call: "call (gw_bridge g2) = Some (a, b)" "ws_task_calm (gw_bridge g2) b"
    using assms(3) [OF ws_quietD(1) [OF g2(2)]] by blast
  let ?g3 = "g2\<lparr>gw_bridge := b\<rparr>"
  have calm2: "ws_calm (gw_bridge ?g3)" and le2: "ws_le g2 ?g3"
    using call(2) by (auto simp: ws_task_calm_def ws_le_def live_conns_def)
  obtain g3 where g3: "ws_events env um (evs 2) ?g3 = Some g3" "ws_quiet ?g3 g3"
    using ws_events_quiet [OF calm2 assms(2)] by blast
  obtain g4 where g4: "go_run_watch env um g3 = Some g4" "ws_quiet g3 g4"
    by (rule go_run_watch_quiet [OF ws_quietD(1) [OF g3(2)] assms(2)])
  have calm4: "ws_calm (gw_bridge (g4\<lparr>gw_watch := Unwatched\<rparr>))"
    using ws_quietD(1) [OF g4(2)] by simp
  obtain g' where g': "ws_events env um (evs 3) (g4\<lparr>gw_watch := Unwatched\<rparr>) = Some g'"
    "ws_quiet (g4\<lparr>gw_watch := Unwatched\<rparr>) g'"
    using ws_events_quiet [OF calm4 assms(2)] by blast
  have "ws_le g g2"
    using ws_le_trans [of g g1 g2] ws_quietD(2) [OF g1(2)] ws_quietD(2) [OF g2(2)]
    by (simp add: go_watch_context_def)
  moreover have "ws_le ?g3 g'"
    using ws_le_trans [of ?g3 g4 g'] ws_quietD(2) [OF g'(2)] ws_quietD(2) [OF ws_quiet_trans [OF g3(2) g4(2)]]
    by simp
  ultimately have "ws_le g g'" using le2 ws_le_trans by blast
  moreover have "same_inbound g g2" "same_inbound ?g3 g'"
    using g1(2) g2(2) g3(2) g4(2) g'(2) by (simp_all add: ws_quiet_def same_inbound_def go_watch_context_def)
  moreover have "gw_watch g' = Unwatched" using g'(2) by (simp add: ws_quiet_def)
  moreover have "go_watched env um evs call g = Some (a, g')"
    using g1(1) g2(1) call(1) g3(1) g4(1) g'(1) by (simp add: go_watched_def go_stop_watch_def)
  ultimately show ?thesis using that call(1) ws_quietD(1) [OF g2(2)] by blast
qed

text \<open>A read's answer in Go: without an error it is a message.\<close>

lemma read_answer_message:
  assumes "answer_type (WsRead i) r" "snd (snd (go_answer to_vec um r)) = None"
  shows "\<exists>kind payload. fst (snd (go_answer to_vec um r)) = kind # payload \<and> kind \<in> {1, 2, 8, 9, 10}"
  using assms
  by (auto simp: go_answer_def answer_defs Let_def split: sum.splits if_splits option.splits)

lemma operation_error_None:
  "operation_error g err = None \<longleftrightarrow> (\<forall>m. gw_ctx g \<noteq> DoneCtx m) \<and> gw_client g \<noteq> 0 \<and> gw_conn g \<noteq> 0 \<and> err = None"
  by (simp add: operation_error_def split: go_ctx.split)

lemma operation_error_kept:
  "operation_error g err = Some fault \<Longrightarrow> keeps_connection fault \<Longrightarrow> gw_client g \<noteq> 0 \<and> gw_conn g \<noteq> 0"
  by (auto simp: operation_error_def keeps_connection_def split: go_ctx.splits if_splits)

lemma operation_error_other: "operation_error g err \<noteq> Some (WsOther s)"
  by (auto simp: operation_error_def split: go_ctx.splits)

text \<open>A closed connection is closed for good, whatever context the next operation brings.\<close>

definition closed_fault :: "go_ctx \<Rightarrow> ws_fault" where
  "closed_fault ctx = (case check_context ctx of Some fault \<Rightarrow> fault | None \<Rightarrow> WsConnClosed)"

lemma closed_operations:
  assumes "gw_conn g = 0"
  shows "go_read_message env um evs fire g = Some (Inl (closed_fault (gw_ctx g)), g)"
    "go_write_message env um evs fire kind data g = Some (Some (closed_fault (gw_ctx g)), g)"
  using assms
  by (simp_all add: go_read_message_def go_write_message_def closed_fault_def split: option.split)

lemma closed_stays:
  assumes "ws_calm (gw_bridge g)" "serialises env" "gw_conn g = 0" "ws_events env um rest g = Some g'"
  shows "gw_conn g' = 0 \<and> live_conns g' \<subseteq> live_conns g"
  using ws_events_quiet [OF assms(1,2), of um rest] assms(3,4) by (auto simp: ws_quiet_def ws_le_def)

lemma go_read_message_runs:
  assumes "ws_calm (gw_bridge g)" "serialises env" "gw_ctx g = LiveCtx" "gw_conn g \<noteq> 0"
  shows "\<exists>r g'. go_read_message env um evs fire g = Some (r, g') \<and> ws_le g g' \<and> gw_watch g' = Unwatched \<and>
     (case r of
        Inr (kind, payload) \<Rightarrow> kind \<in> {1, 2, 8, 9, 10} \<and> gw_conn g' \<noteq> 0 \<and> gw_client g' \<noteq> 0
      | Inl fault \<Rightarrow> gw_conn g' = 0 \<and> (\<forall>s. fault \<noteq> WsOther s))"
proof -
  let ?env = "env\<lparr>en_fire := fire\<rparr>" and ?i = "gw_conn g"
  have ser: "serialises ?env" using assms(2) by (simp add: serialises_def)
  have call: "\<exists>a b'. bridge_ws_read ?env um ?i b = Some (a, b') \<and> ws_task_calm b b' \<and>
      (snd a = None \<longrightarrow> (\<exists>kind payload. fst a = kind # payload \<and> kind \<in> {1, 2, 8, 9, 10}))" if calm: "ws_calm b" for b
  proof -
    obtain r cell w b' where b': "bridge_ws_read ?env um ?i b = Some (snd (go_answer (en_to_vec ?env) um r), b')"
      "ws_read (en_ws ?env) (en_tokens ?env) (en_build ?env) (en_fire ?env) ?i (br_runtime b) (br_ws b) = (r, cell, w)"
      "ws_after b cell w b'" "ws_task_calm b b'" by (rule bridge_ws_read_calm [OF calm ser])
    have "answer_type (WsRead ?i) r"
      by (rule ws_read_answer [OF b'(2)]) (use calm in \<open>simp add: ws_calm_def ws_sound_def\<close>)
    from read_answer_message [OF this] b'(1,4) show ?thesis by blast
  qed
  have "\<exists>a b'. bridge_ws_read ?env um ?i b = Some (a, b') \<and> ws_task_calm b b'" if "ws_calm b" for b
    using call [OF that] by blast
  from go_watched_runs [OF assms(1,2) this] obtain a g2 b g1 where
    w: "go_watched env um evs (bridge_ws_read ?env um ?i) g = Some (a, g1)" "ws_le g g1"
    "gw_watch g1 = Unwatched" "ws_calm (gw_bridge g2)" "bridge_ws_read ?env um ?i (gw_bridge g2) = Some (a, b)"
    "same_inbound g g2" "same_inbound (g2\<lparr>gw_bridge := b\<rparr>) g1" .
  have msg: "\<exists>kind payload. fst a = kind # payload \<and> kind \<in> {1, 2, 8, 9, 10}" if "snd a = None"
    using call [OF w(4)] w(5) that by auto
  obtain g' where g': "go_conn_close env um g1 = Some (None, g')" "ws_quiet g1 g'" "gw_conn g' = 0"
    "gw_watch g' = gw_watch g1"
    using go_conn_close_quiet [OF ws_le_calm [OF w(2)] assms(2)] by metis
  show ?thesis
  proof (cases "operation_error g1 (snd a)")
    case None
    then have ok: "gw_conn g1 \<noteq> 0" "gw_client g1 \<noteq> 0" "snd a = None"
      by (simp_all add: operation_error_None)
    then obtain kind payload where "fst a = kind # payload" "kind \<in> {1, 2, 8, 9, 10}" using msg by blast
    moreover from this(1) have "go_read_message env um evs fire g = Some (Inr (kind, payload), g1)"
      using None w(1) assms(3,4) ok(3) by (cases a) (simp add: go_read_message_def check_context_def)
    ultimately show ?thesis using w(2,3) ok by simp
  next
    case (Some fault)
    then have "go_read_message env um evs fire g = Some (Inl fault, g')"
      using w(1) assms(3,4) g'(1) by (cases a) (simp add: go_read_message_def check_context_def)
    moreover have "fault \<noteq> WsOther s" for s using Some operation_error_other by metis
    ultimately show ?thesis using w(3) g'(3,4) ws_le_trans [OF w(2) ws_quietD(2) [OF g'(2)]] by simp
  qed
qed

lemma go_write_message_runs:
  assumes "ws_calm (gw_bridge g)" "serialises env" "gw_ctx g = LiveCtx" "gw_conn g \<noteq> 0"
  shows "\<exists>err g'. go_write_message env um evs fire kind data g = Some (err, g') \<and> ws_le g g' \<and>
     gw_watch g' = Unwatched \<and> same_inbound g g' \<and>
     (case err of
        None \<Rightarrow> gw_conn g' \<noteq> 0 \<and> gw_client g' \<noteq> 0
      | Some fault \<Rightarrow>
          (if keeps_connection fault then gw_conn g' \<noteq> 0 \<and> gw_client g' \<noteq> 0 else gw_conn g' = 0))"
proof -
  let ?env = "env\<lparr>en_fire := fire\<rparr>" and ?i = "gw_conn g"
  have ser: "serialises ?env" using assms(2) by (simp add: serialises_def)
  have call: "\<exists>a b'. bridge_ws_write ?env um ?i kind data b = Some (a, b') \<and> ws_task_calm b b' \<and>
      inbound (br_ws b') = inbound (br_ws b)" if "ws_calm b" for b
    by (rule bridge_ws_write_calm [OF that ser, of um ?i kind data]) blast
  then have "\<exists>a b'. bridge_ws_write ?env um ?i kind data b = Some (a, b') \<and> ws_task_calm b b'" if "ws_calm b" for b
    using that by blast
  from go_watched_runs [OF assms(1,2) this] obtain a g2 b g1 where
    w: "go_watched env um evs (bridge_ws_write ?env um ?i kind data) g = Some (a, g1)" "ws_le g g1"
    "gw_watch g1 = Unwatched" "ws_calm (gw_bridge g2)" "bridge_ws_write ?env um ?i kind data (gw_bridge g2) = Some (a, b)"
    "same_inbound g g2" "same_inbound (g2\<lparr>gw_bridge := b\<rparr>) g1" .
  have inbound: "same_inbound g g1"
    using call [OF w(4)] w(5-7) by (simp add: same_inbound_def)
  obtain g' where g': "go_conn_close env um g1 = Some (None, g')" "ws_quiet g1 g'" "gw_conn g' = 0"
    "gw_watch g' = gw_watch g1"
    using go_conn_close_quiet [OF ws_le_calm [OF w(2)] assms(2)] by metis
  show ?thesis
  proof (cases "operation_error g1 a")
    case None
    then have "go_write_message env um evs fire kind data g = Some (None, g1)"
      using w(1) assms(3,4) by (simp add: go_write_message_def check_context_def)
    moreover have "gw_conn g1 \<noteq> 0" "gw_client g1 \<noteq> 0" using None by (simp_all add: operation_error_None)
    ultimately show ?thesis using w(2,3) inbound by simp
  next
    case (Some fault)
    show ?thesis
    proof (cases "keeps_connection fault")
      case True
      with Some have "go_write_message env um evs fire kind data g = Some (Some fault, g1)"
        using w(1) assms(3,4) by (simp add: go_write_message_def check_context_def)
      with True operation_error_kept [OF Some True] w(2,3) inbound show ?thesis by simp
    next
      case False
      with Some have "go_write_message env um evs fire kind data g = Some (Some fault, g')"
        using w(1) assms(3,4) g'(1) by (simp add: go_write_message_def check_context_def)
      moreover have "same_inbound g g'" using inbound g'(2) by (simp add: same_inbound_def ws_quiet_def)
      ultimately show ?thesis using False w(3) g'(3,4) ws_le_trans [OF w(2) ws_quietD(2) [OF g'(2)]] by simp
    qed
  qed
qed

text \<open>\<open>Dial\<close>, under the same interference.\<close>

lemma go_dial_runs:
  assumes "ws_calm (gw_bridge g)" "serialises env"
  shows "\<exists>r g'. go_dial codec env um evs fire url headers g = Some (r, g') \<and> ws_calm (gw_bridge g') \<and>
     (gw_watch g = Unwatched \<longrightarrow> gw_watch g' = Unwatched) \<and>
     (case r of
        Inl fault \<Rightarrow> live_conns g' \<subseteq> live_conns g
      | Inr hs \<Rightarrow> gw_client g' \<noteq> 0 \<and> live_conns g' \<subseteq> insert (gw_conn g') (live_conns g) \<and>
                 (gw_conn g' \<noteq> 0 \<longrightarrow> gw_conn g' \<in> live_conns g'))"
proof -
  consider f where "check_context (gw_ctx g) = Some f"
    | "check_context (gw_ctx g) = None" "gw_client g = 0"
    | e where "check_context (gw_ctx g) = None" "gw_client g \<noteq> 0" "wg_dial codec (go_dial_metadata codec url headers) = Inl e"
    | metadata where "check_context (gw_ctx g) = None" "gw_client g \<noteq> 0"
        "wg_dial codec (go_dial_metadata codec url headers) = Inr metadata"
    by (metis not_None_eq sum.exhaust)
  then show ?thesis
  proof cases
    case (4 metadata)
    let ?env = "env\<lparr>en_fire := fire\<rparr>"
    have ser: "serialises ?env" using assms(2) by (simp add: serialises_def)
    obtain g0 where g0: "ws_events env um (evs 0) g = Some g0" "ws_quiet g g0"
      using ws_events_quiet [OF assms] by blast
    obtain i err b where new: "bridge_ws_connection_new env um (gw_client g) metadata (gw_bridge g0) = Some ((i, err), b)"
      "ws_calm b" "case err of Some e \<Rightarrow> ww_conns (br_ws b) = ww_conns (br_ws (gw_bridge g0))
       | None \<Rightarrow> i \<noteq> 0 \<and> dom (ww_conns (br_ws b)) = insert i (dom (ww_conns (br_ws (gw_bridge g0))))"
      by (rule bridge_ws_connection_new_calm [OF ws_quietD(1) [OF g0(2)] assms(2)])
    show ?thesis
    proof (cases err)
      case (Some e)
      then have "live_conns (g0\<lparr>gw_bridge := b\<rparr>) = live_conns g0" using new(3) by (simp add: live_conns_def)
      moreover have "live_conns g0 \<subseteq> live_conns g" using ws_quietD(2) [OF g0(2)] by (simp add: ws_le_def)
      ultimately show ?thesis using 4 g0 new(1,2) Some by (auto simp: go_dial_def ws_quiet_def)
    next
      case None
      let ?g1 = "g0\<lparr>gw_bridge := b, gw_conn := i\<rparr>"
      have g1: "ws_calm (gw_bridge ?g1)" "i \<noteq> 0" "live_conns ?g1 \<subseteq> insert i (live_conns g)" "i \<in> live_conns ?g1"
        using new(2,3) None ws_quietD(2) [OF g0(2)] by (auto simp: live_conns_def ws_le_def)
      have "\<exists>a b'. bridge_ws_connect ?env um i b = Some (a, b') \<and> ws_task_calm b b'" if "ws_calm b" for b
        by (rule bridge_ws_connect_calm [OF that ser, of um i]) blast
      from go_watched_runs [OF g1(1) assms(2) this] obtain a g2 b2 g3 where
        w: "go_watched env um (\<lambda>k. evs (Suc k)) (bridge_ws_connect ?env um i) ?g1 = Some (a, g3)" "ws_le ?g1 g3"
        "gw_watch g3 = Unwatched" "ws_calm (gw_bridge g2)" "bridge_ws_connect ?env um i (gw_bridge g2) = Some (a, b2)"
        "same_inbound ?g1 g2" "same_inbound (g2\<lparr>gw_bridge := b2\<rparr>) g3" .
      obtain g' where g': "go_conn_close env um g3 = Some (None, g')" "ws_quiet g3 g'" "gw_conn g' = 0"
        "gw_watch g' = gw_watch g3"
        using go_conn_close_quiet [OF ws_le_calm [OF w(2)] assms(2)] by metis
      have start: "go_dial codec env um evs fire url headers g =
          (case dial_error g3 (snd a) of
             Some fault \<Rightarrow> Some (Inl (dial_failure codec (fst a) fault), g')
           | None \<Rightarrow> (case decode_handshake codec (fst a) of Inl e \<Rightarrow> Some (Inl (WsOther e), g') | Inr hs \<Rightarrow> Some (Inr hs, g3)))"
        using 4 g0(1) new(1) None w(1) g'(1)
        by (cases a) (simp add: go_dial_def split: option.split sum.split)
      have "ws_le ?g1 g'" by (rule ws_le_trans [OF w(2) ws_quietD(2) [OF g'(2)]])
      then have closed: "live_conns g' \<subseteq> live_conns g" "ws_calm (gw_bridge g')"
        using g1(2,3) g'(3) by (auto simp: ws_le_def)
      have opened: "live_conns g3 \<subseteq> insert (gw_conn g3) (live_conns g)" "gw_conn g3 \<noteq> 0 \<longrightarrow> gw_conn g3 \<in> live_conns g3"
        "ws_calm (gw_bridge g3)" if "gw_client g3 \<noteq> 0"
        using w(2) g1(2-4) that by (auto simp: ws_le_def)
      have "gw_client g3 \<noteq> 0" if "dial_error g3 (snd a) = None"
        using that by (auto simp: dial_error_def split: go_ctx.splits if_splits)
      with start closed opened w(3) g'(4) show ?thesis
        by (cases "dial_error g3 (snd a)"; cases "decode_handshake codec (fst a)") auto
    qed
  qed (use assms(1) in \<open>auto simp: go_dial_def\<close>)
qed

subsection \<open>Messages in order\<close>

text \<open>An established connection nobody closes: its handle leads to \<open>conn\<close>, whose token has not fired,
  and the runtime is up.\<close>

definition conn_ready ::
  "('t, 'c, 'k, 'h, 'n, 'm) bridge_env \<Rightarrow> nat \<Rightarrow> ('c, 'k, 'h) connection \<Rightarrow> ('t, 'c, 'k, 'h, 'n, 'm) go_ws \<Rightarrow> bool" where
  "conn_ready env r conn g \<longleftrightarrow>
     (let w = br_ws (gw_bridge g)
      in ws_calm (gw_bridge g) \<and> gw_ctx g = LiveCtx \<and> gw_client g \<noteq> 0 \<and> gw_conn g \<noteq> 0 \<and>
         br_runtime (gw_bridge g) = Some (Inr ()) \<and> ww_conns w (gw_conn g) = Some r \<and>
         ww_store w r = Some conn \<and> \<not> conn_fired (en_tokens env) r w)"

fun go_read_messages ::
  "('t, 'c, 'k, 'h, 'n, 'm) bridge_env \<Rightarrow> unmarshal \<Rightarrow> nat \<Rightarrow> ('t, 'c, 'k, 'h, 'n, 'm) go_ws \<Rightarrow>
     ((ws_fault + u8 \<times> bytes) list \<times> ('t, 'c, 'k, 'h, 'n, 'm) go_ws) option" where
  "go_read_messages env um 0 g = Some ([], g)"
| "go_read_messages env um (Suc k) g =
     Option.bind (go_read_message env um (\<lambda>_. []) None g) (\<lambda>(x, g1).
       map_option (\<lambda>(xs, g2). (x # xs, g2)) (go_read_messages env um k g1))"

text \<open>What the reader's next result is, and what Go makes of a result.\<close>

definition next_result :: "call_result list \<Rightarrow> call_result" where
  "next_result rs = (case rs of [] \<Rightarrow> Inr output_eof | r # _ \<Rightarrow> r)"

definition read_converted ::
  "('t, 'c, 'k, 'h, 'n, 'm) bridge_env \<Rightarrow> unmarshal \<Rightarrow> call_result \<Rightarrow> ws_fault + u8 \<times> bytes" where
  "read_converted env um r =
     (case snd (go_answer (en_to_vec env) um r) of
        (data, None) \<Rightarrow> Inr (hd data, tl data)
      | (data, Some e) \<Rightarrow> Inl (WsBridge e))"

lemma conn_ready_read:
  assumes "conn_ready env r conn g" "co_reader conn \<noteq> None" "serialises env"
  obtains b conn' where
    "bridge_ws_read (env\<lparr>en_fire := None\<rparr>) um (gw_conn g) (gw_bridge g) =
       Some (snd (go_answer (en_to_vec env) um (next_result (unread (en_ws env) conn))), b)"
    "conn_ready env r conn' (g\<lparr>gw_bridge := b\<rparr>)" "co_reader conn' \<noteq> None"
    "unread (en_ws env) conn' = tl (unread (en_ws env) conn)"
    "answer_type (WsRead 0) (next_result (unread (en_ws env) conn))"
    "live_conns (g\<lparr>gw_bridge := b\<rparr>) = live_conns g"
proof -
  let ?env = "env\<lparr>en_fire := None\<rparr>" and ?b = "gw_bridge g" and ?w = "br_ws (gw_bridge g)"
  let ?x = "next_result (unread (en_ws env) conn)"
  have ready: "ws_calm ?b" "br_runtime ?b = Some (Inr ())" "ww_conns ?w (gw_conn g) = Some r" "ww_store ?w r = Some conn"
    "\<not> conn_fired (en_tokens env) r ?w"
    using assms(1) by (simp_all add: conn_ready_def Let_def)
  have ser: "serialises ?env" using assms(3) by (simp add: serialises_def)
  from ws_read_task_unread [OF assms(2), of "en_ws env"] obtain conn' where
    task: "ws_read_task (en_ws env) None conn = (Finished ?x, conn')"
      "unread (en_ws env) conn' = tl (unread (en_ws env) conn)" "co_reader conn' \<noteq> None"
    by (auto simp: next_result_def)
  have found: "ws_lookup (gw_conn g) ?w = Inr r"
    using ready(1,3) by (simp add: ws_lookup_def ws_registry_def ws_calm_def ws_sound_def)
  have read: "ws_read (en_ws ?env) (en_tokens ?env) (en_build ?env) (en_fire ?env) (gw_conn g) (br_runtime ?b) ?w
      = (?x, Some (Inr ()), set_conn r conn' ?w)"
    using ready found task(1)
    by (simp add: ws_read_def ws_read_on_def run_on_def run_def runtime_once select_cancelled_def)
  obtain x cell w b where b: "bridge_ws_read ?env um (gw_conn g) ?b = Some (snd (go_answer (en_to_vec ?env) um x), b)"
    "ws_read (en_ws ?env) (en_tokens ?env) (en_build ?env) (en_fire ?env) (gw_conn g) (br_runtime ?b) ?w = (x, cell, w)"
    "ws_after ?b cell w b" "ws_task_calm ?b b"
    by (rule bridge_ws_read_calm [OF ready(1) ser])
  have x: "x = ?x" "cell = Some (Inr ())" "w = set_conn r conn' ?w" using read b(2) by simp_all
  note after = ws_after_sel [OF b(3)]
  have "conn_le conn conn'" by (rule read_task_le [OF task(1)])
  then have "conn_ready env r conn' (g\<lparr>gw_bridge := b\<rparr>)"
    using assms(1) b(4) after x ready
    by (simp add: conn_ready_def Let_def ws_task_calm_def set_conn_def conn_fired_def conn_le_def)
  moreover have "live_conns (g\<lparr>gw_bridge := b\<rparr>) = live_conns g"
    using b(4) by (simp add: live_conns_def ws_task_calm_def)
  moreover have "answer_type (WsRead 0) ?x"
    using ws_read_task_answer [OF task(1), of 0] by (simp del: answer_type.simps)
  ultimately show ?thesis using that [of b conn'] b(1) x(1) task(2,3) by simp
qed

lemma go_watched_calm:
  assumes "call (gw_bridge g) = Some (a, b)" "gw_ctx g = LiveCtx"
  shows "go_watched env um (\<lambda>_. []) call g = Some (a, g\<lparr>gw_bridge := b, gw_watch := Unwatched\<rparr>)"
  using assms by (simp add: go_watched_def go_watch_context_def go_stop_watch_def go_run_watch_def)

lemma conn_ready_watch [simp]:
  "conn_ready env r conn (g\<lparr>gw_watch := v\<rparr>) = conn_ready env r conn g"
  "live_conns (g\<lparr>gw_watch := v\<rparr>) = live_conns g"
  by (simp_all add: conn_ready_def live_conns_def)

lemma go_read_next:
  assumes "conn_ready env r conn g" "co_reader conn \<noteq> None" "serialises env"
  shows "\<exists>g'. go_read_message env um (\<lambda>_. []) None g =
           Some (read_converted env um (next_result (unread (en_ws env) conn)), g') \<and>
         (case read_converted env um (next_result (unread (en_ws env) conn)) of
            Inr m \<Rightarrow> live_conns g' = live_conns g \<and>
              (\<exists>conn'. conn_ready env r conn' g' \<and> co_reader conn' \<noteq> None \<and>
                       unread (en_ws env) conn' = tl (unread (en_ws env) conn))
          | Inl fault \<Rightarrow> gw_conn g' = 0 \<and> gw_ctx g' = LiveCtx \<and> gw_conn g \<notin> live_conns g')"
proof -
  let ?x = "next_result (unread (en_ws env) conn)"
  obtain b conn' where b: "bridge_ws_read (env\<lparr>en_fire := None\<rparr>) um (gw_conn g) (gw_bridge g) =
       Some (snd (go_answer (en_to_vec env) um ?x), b)"
    "conn_ready env r conn' (g\<lparr>gw_bridge := b\<rparr>)" "co_reader conn' \<noteq> None"
    "unread (en_ws env) conn' = tl (unread (en_ws env) conn)" "answer_type (WsRead 0) ?x"
    "live_conns (g\<lparr>gw_bridge := b\<rparr>) = live_conns g"
    by (rule conn_ready_read [OF assms])
  obtain data err where a: "snd (go_answer (en_to_vec env) um ?x) = (data, err)"
    by (cases "snd (go_answer (en_to_vec env) um ?x)")
  let ?g = "g\<lparr>gw_bridge := b, gw_watch := Unwatched\<rparr>"
  have ready: "gw_ctx g = LiveCtx" "gw_client g \<noteq> 0" "gw_conn g \<noteq> 0" "ws_calm b"
    using b(2) by (simp_all add: conn_ready_def Let_def)
  have op: "operation_error ?g err = map_option WsBridge err"
    using ready by (simp add: operation_error_def)
  have start: "go_read_message env um (\<lambda>_. []) None g =
      (case map_option WsBridge err of
         Some fault \<Rightarrow> map_option (\<lambda>(_, g2). (Inl fault, g2)) (go_conn_close env um ?g)
       | None \<Rightarrow> (case data of
            [] \<Rightarrow> map_option (\<lambda>(_, g2). (Inl (WsOther ''codexws: empty native message''), g2)) (go_conn_close env um ?g)
          | kind # payload \<Rightarrow> Some (Inr (kind, payload), ?g)))"
    using ready(1,3) b(1) a op
      go_watched_calm [of "bridge_ws_read (env\<lparr>en_fire := None\<rparr>) um (gw_conn g)" g _ b env um]
    by (simp add: go_read_message_def check_context_def)
  show ?thesis
  proof (cases err)
    case None
    with read_answer_message [OF b(5), of "en_to_vec env" um] a obtain kind payload where "data = kind # payload" by auto
    with start None a b show ?thesis by (auto simp: read_converted_def)
  next
    case (Some e)
    obtain g' where "go_conn_close env um ?g = Some (None, g')" "ws_quiet ?g g'" "gw_conn g' = 0" "gw_ctx g' = gw_ctx ?g"
      by (rule go_conn_close_quiet [of ?g env um]) (use ready(4) assms(3) in simp_all)
    with start Some a ready show ?thesis by (auto simp: read_converted_def ws_quiet_def ws_le_def)
  qed
qed

lemma closed_reads:
  "gw_conn g = 0 \<Longrightarrow> gw_ctx g = LiveCtx \<Longrightarrow> go_read_messages env um k g = Some (replicate k (Inl WsConnClosed), g)"
  by (induction k) (simp_all add: closed_operations closed_fault_def check_context_def)

abbreviation wire_results :: "(u8 \<times> bytes) list \<Rightarrow> call_result list" where
  "wire_results ms \<equiv> map (\<lambda>(kind, payload). Inr (output_data (kind # payload))) ms"

lemma read_converted_data:
  "length payload < isize_max \<Longrightarrow> read_converted env um (Inr (output_data (kind # payload))) = Inr (kind, payload)"
  by (simp add: read_converted_def go_answer_def)

lemma go_read_messages_order:
  assumes "conn_ready env r conn g" "co_reader conn \<noteq> None" "serialises env"
    and "unread (en_ws env) conn = wire_results ms @ rs" "list_all (\<lambda>(kind, payload). length payload < isize_max) ms"
    and "read_converted env um (next_result rs) = Inl fault"
  shows "\<exists>g'. go_read_messages env um (length ms + k) g =
           Some (map Inr ms @ take k (Inl fault # replicate k (Inl WsConnClosed)), g') \<and>
         (0 < k \<longrightarrow> gw_conn g' = 0 \<and> gw_conn g \<notin> live_conns g')"
  using assms(1,2,4,5)
proof (induction ms arbitrary: g conn)
  case Nil
  show ?case
  proof (cases k)
    case (Suc j)
    from go_read_next [OF Nil.prems(1,2) assms(3), of um] Nil.prems(3) assms(6)
    obtain g' where g': "go_read_message env um (\<lambda>_. []) None g = Some (Inl fault, g')"
      "gw_conn g' = 0" "gw_ctx g' = LiveCtx" "gw_conn g \<notin> live_conns g'" by auto
    have "take j (x # replicate j x) = replicate j x" for x :: "ws_fault + u8 \<times> bytes"
      using take_replicate [of j "Suc j" x] by simp
    with Suc g' closed_reads [OF g'(2,3), of env um j] show ?thesis by simp
  qed simp
next
  case (Cons m ms)
  obtain kind payload where m: "m = (kind, payload)" by (cases m)
  have next_m: "next_result (unread (en_ws env) conn) = Inr (output_data (kind # payload))"
    using Cons.prems(3) m by (simp add: next_result_def)
  have conv: "read_converted env um (Inr (output_data (kind # payload))) = Inr (kind, payload)"
    using Cons.prems(4) m by (intro read_converted_data) simp
  from go_read_next [OF Cons.prems(1,2) assms(3), of um] next_m conv
  obtain g1 conn1 where g1: "go_read_message env um (\<lambda>_. []) None g = Some (Inr (kind, payload), g1)"
    "live_conns g1 = live_conns g" "conn_ready env r conn1 g1" "co_reader conn1 \<noteq> None"
    "unread (en_ws env) conn1 = tl (unread (en_ws env) conn)" by auto
  have same: "gw_conn g1 = gw_conn g"
    using go_read_message_runs [of g env um "\<lambda>_. []" None] Cons.prems(1) assms(3) g1(1)
    by (auto simp: conn_ready_def Let_def ws_le_def)
  from Cons.IH [OF g1(3,4)] Cons.prems(3,4) g1(5)
  obtain g' where "go_read_messages env um (length ms + k) g1 =
           Some (map Inr ms @ take k (Inl fault # replicate k (Inl WsConnClosed)), g')"
    "0 < k \<longrightarrow> gw_conn g' = 0 \<and> gw_conn g1 \<notin> live_conns g'" by auto
  with g1(1) m same show ?case by simp
qed

subsection \<open>A dial and its answer\<close>

text \<open>The upgrade request for a Go URL and header list, without JSON or base64.\<close>

definition go_upgrade ::
  "('c, 'k, 'n) ws_sdk \<Rightarrow> string \<Rightarrow> (string \<times> bytes) list \<Rightarrow> bridge_error + upgrade_request" where
  "go_upgrade sdk url hs =
     and_then (map_err invalid (url_parse (ws_url sdk) url)) (\<lambda>u.
       if url_scheme u \<noteq> ''ws'' \<and> url_scheme u \<noteq> ''wss'' then Inl (invalid ''URL must use ws or wss'')
       else
         and_then (map_err bridge_error_of_ws (into_request sdk u)) (\<lambda>req.
         and_then (plain_headers (ws_codec sdk) hs) (\<lambda>hs.
           Inr (req\<lparr>up_headers := extend_headers sdk (up_headers req) hs\<rparr>))))"

definition go_value_list :: "(string \<times> bytes list) list \<Rightarrow> (string \<times> bytes) list" where
  "go_value_list headers = concat (map (\<lambda>(name, vs). map (Pair name) vs) headers)"

definition go_handshake_of :: "go_ws_codec \<Rightarrow> hs_response \<Rightarrow> bytes \<Rightarrow> bool \<Rightarrow> go_handshake" where
  "go_handshake_of codec resp body truncated =
     \<lparr>gk_status = int (hs_status resp),
      gk_headers = map (\<lambda>(name, v). (wg_canonical codec name, v)) (hs_headers resp),
      gk_body = body, gk_truncated = truncated\<rparr>"

text \<open>Base64 as both sides speak it; the dial request Rust reads is the one Go wrote; and the JSON of
  a handshake, which Go decodes with its body out of base64.\<close>

definition ws_base64_agrees :: "go_ws_codec \<Rightarrow> header_codec \<Rightarrow> bool" where
  "ws_base64_agrees codec hc \<longleftrightarrow>
     (\<forall>v. b64_decode hc (wg_b64_encode codec v) = Inr v) \<and>
     (\<forall>v. wg_b64_decode codec (b64_encode hc v) = Inr v)"

definition dial_read_back ::
  "go_ws_codec \<Rightarrow> ('c, 'k, 'n) ws_sdk \<Rightarrow> string \<Rightarrow> (string \<times> bytes list) list \<Rightarrow> bytes \<Rightarrow> bool" where
  "dial_read_back codec sdk url headers metadata \<longleftrightarrow>
     wg_dial codec (go_dial_metadata codec url headers) = Inr metadata \<and>
     ws_de_dial sdk metadata = Inr (go_dial_metadata codec url headers)"

definition handshake_json :: "('c, 'k, 'n) ws_sdk \<Rightarrow> hs_response \<Rightarrow> string \<Rightarrow> bool \<Rightarrow> handshake" where
  "handshake_json sdk resp body truncated =
     \<lparr>hk_status = hs_status resp, hk_headers = encode_headers (ws_codec sdk) (hs_headers resp),
      hk_body = body, hk_body_truncated = truncated\<rparr>"

definition handshake_read ::
  "go_ws_codec \<Rightarrow> ('c, 'k, 'n) ws_sdk \<Rightarrow> hs_response \<Rightarrow> bytes \<Rightarrow> bool \<Rightarrow> bytes \<Rightarrow> bool" where
  "handshake_read codec sdk resp body truncated data \<longleftrightarrow>
     wg_handshake codec data =
       Inr \<lparr>wh_status = int (hs_status resp), wh_headers = encode_headers (ws_codec sdk) (hs_headers resp),
            wh_body = body, wh_truncated = truncated\<rparr>"

lemma decode_wire_headers:
  assumes "ws_base64_agrees codec hc"
  shows "go_wire_headers codec (encode_headers hc hs) = Inr (map (\<lambda>(name, v). (wg_canonical codec name, v)) hs)"
  using assms by (induction hs) (auto simp: encode_headers_def ws_base64_agrees_def)

lemma decode_handshake_read:
  assumes "handshake_read codec sdk resp body truncated data" "ws_base64_agrees codec (ws_codec sdk)"
  shows "decode_handshake codec data = Inr (go_handshake_of codec resp body truncated)"
  using assms decode_wire_headers [OF assms(2)]
  by (simp add: decode_handshake_def handshake_read_def go_handshake_of_def)

lemma go_upgrade_prepared:
  assumes "dial_read_back codec sdk url headers metadata" "ws_base64_agrees codec (ws_codec sdk)"
  shows "ws_prepare sdk metadata = go_upgrade sdk url (go_value_list headers)"
proof -
  have "dr_headers (go_dial_metadata codec url headers) =
      map (\<lambda>(name, v). (name, wg_b64_encode codec v)) (go_value_list headers)"
    by (simp add: go_dial_metadata_def go_value_list_def map_concat comp_def split_def)
  with assms have "decode_headers (ws_codec sdk) (dr_headers (go_dial_metadata codec url headers)) =
      plain_headers (ws_codec sdk) (go_value_list headers)"
    by (simp add: decode_go_headers ws_base64_agrees_def)
  moreover have "ws_de_dial sdk metadata = Inr (go_dial_metadata codec url headers)"
    "dr_url (go_dial_metadata codec url headers) = url"
    using assms(1) by (simp_all add: dial_read_back_def go_dial_metadata_def)
  ultimately show ?thesis
    unfolding ws_prepare_def go_upgrade_def by (simp only: map_err.simps and_then.simps)
qed

text \<open>A client open for dials: its handle is registered, a child of its token has not fired, the
  runtime is up and there are handles left.\<close>

definition dial_ready ::
  "('t, 'c, 'k, 'h, 'n, 'm) bridge_env \<Rightarrow> 'h ws_client \<Rightarrow> ('t, 'c, 'k, 'h, 'n, 'm) go_ws \<Rightarrow> bool" where
  "dial_ready env client g \<longleftrightarrow>
     (let w = br_ws (gw_bridge g); (h, t) = tok_child (en_tokens env) (wl_cancel client) (ww_tokens w)
      in ws_calm (gw_bridge g) \<and> serialises env \<and> gw_ctx g = LiveCtx \<and> gw_client g \<noteq> 0 \<and>
         ww_clients w (gw_client g) = Some client \<and> 0 < frame_size client \<and>
         br_runtime (gw_bridge g) = Some (Inr ()) \<and>
         unat (ww_next w) + 1 < 2 ^ 64 \<and> \<not> is_cancelled (en_tokens env) t h)"

text \<open>The fresh connection of a dial.\<close>

definition new_connection :: "u64 \<Rightarrow> 'h ws_client \<Rightarrow> 'h \<Rightarrow> upgrade_request \<Rightarrow> ('c, 'k, 'h) connection" where
  "new_connection i client h req =
     \<lparr>co_client = i, co_owner = client, co_cancel = h, co_pending = Some req,
      co_reader = None, co_writer = None, co_peer_close = False\<rparr>"

lemma dial_ready_create:
  assumes "dial_ready env client g" "ws_prepare (en_ws env) metadata = Inr req" "length metadata \<le> isize_max"
  obtains j b h where
    "bridge_ws_connection_new env um (gw_client g) metadata (gw_bridge g) = Some ((j, None), b)"
    "conn_ready env (ww_fresh (br_ws (gw_bridge g))) (new_connection (gw_client g) client h req)
       (g\<lparr>gw_bridge := b, gw_conn := j\<rparr>)"
    "ww_net (br_ws b) = ww_net (br_ws (gw_bridge g))"
    "ww_conns (br_ws b) = (ww_conns (br_ws (gw_bridge g)))(j \<mapsto> ww_fresh (br_ws (gw_bridge g)))"
proof -
  let ?b = "gw_bridge g" and ?w = "br_ws (gw_bridge g)" and ?i = "gw_client g"
  obtain h t where child: "tok_child (en_tokens env) (wl_cancel client) (ww_tokens ?w) = (h, t)"
    by (cases "tok_child (en_tokens env) (wl_cancel client) (ww_tokens ?w)")
  from assms(1) child have r: "ws_calm ?b" "serialises env" "ww_clients ?w ?i = Some client"
    "unat (ww_next ?w) + 1 < 2 ^ 64" "\<not> is_cancelled (en_tokens env) t h" "\<not> ww_poisoned ?w"
    "br_runtime ?b = Some (Inr ())" "gw_ctx g = LiveCtx" "?i \<noteq> 0"
    by (simp_all add: dial_ready_def Let_def ws_calm_def ws_sound_def)
  obtain j where j: "u64_checked_add (ww_next ?w) 1 = Some j"
    using r(4) by (cases "u64_checked_add (ww_next ?w) 1") (auto simp: u64_checked_add_None_iff)
  let ?conn = "new_connection ?i client h req" and ?q = "ww_fresh ?w"
  let ?w1 = "?w\<lparr>ww_store := (ww_store ?w)(?q \<mapsto> ?conn), ww_fresh := Suc ?q, ww_tokens := t, ww_next := j,
      ww_conns := (ww_conns ?w)(j \<mapsto> ?q)\<rparr>"
  have create: "ws_create_connection (en_ws env) (en_tokens env) ?i metadata ?w = (Inr (output_handle j), ?w1)"
    using r(3,6) j child assms(2)
    by (simp add: ws_create_connection_def ws_find_client_def ws_registry_def ws_new_conn_def ws_add_conn_def
        ws_next_def new_connection_def)
  have "abi_closure env (WsConnectionNew ?i (go_ptr metadata) (length metadata)) ?b
      = Some (Inr (output_handle j), ?b\<lparr>br_ws := ?w1, br_runtime := br_runtime ?b\<rparr>)"
    using create assms(3) by (simp add: exported_defs ws_call_def)
  from go_invoke_ws [OF this _ r(2), of um] r(1) obtain b where
    b: "go_invoke env um (WsConnectionNew ?i (go_ptr metadata) (length metadata)) ?b = Some ((j, [], None), b)"
      "ws_after ?b (br_runtime ?b) ?w1 b"
    by (auto simp: ws_calm_def)
  note after = ws_after_sel [OF b(2)]
  have "ws_sound ?w1"
    using ws_create_connection_world [OF create] r(1) by (simp add: ws_calm_def)
  with after r have "conn_ready env ?q ?conn (g\<lparr>gw_bridge := b, gw_conn := j\<rparr>)"
    using checked_add_nonzero [OF j]
    by (simp add: conn_ready_def Let_def ws_calm_def conn_fired_def new_connection_def)
  moreover have "bridge_ws_connection_new env um ?i metadata ?b = Some ((j, None), b)"
    using b(1) by (simp add: bridge_ws_connection_new_def only_handle_def)
  ultimately show ?thesis using that [of j b h] after by simp
qed

lemma conn_ready_connect:
  assumes "conn_ready env q conn g" "serialises env"
    and "ws_connect_task (en_ws env) None conn (ww_net (br_ws (gw_bridge g))) = (Finished x, conn', n')"
  obtains b where
    "bridge_ws_connect (env\<lparr>en_fire := None\<rparr>) um (gw_conn g) (gw_bridge g) =
       Some (snd (go_answer (en_to_vec env) um x), b)"
    "conn_ready env q conn' (g\<lparr>gw_bridge := b\<rparr>)" "live_conns (g\<lparr>gw_bridge := b\<rparr>) = live_conns g"
proof -
  let ?env = "env\<lparr>en_fire := None\<rparr>" and ?b = "gw_bridge g" and ?w = "br_ws (gw_bridge g)"
  have ready: "ws_calm ?b" "br_runtime ?b = Some (Inr ())" "ww_conns ?w (gw_conn g) = Some q" "ww_store ?w q = Some conn"
    "\<not> conn_fired (en_tokens env) q ?w"
    using assms(1) by (simp_all add: conn_ready_def Let_def)
  have ser: "serialises ?env" using assms(2) by (simp add: serialises_def)
  have found: "ws_lookup (gw_conn g) ?w = Inr q"
    using ready(1,3) by (simp add: ws_lookup_def ws_registry_def ws_calm_def ws_sound_def)
  have run: "ws_connect (en_ws ?env) (en_tokens ?env) (en_build ?env) (en_fire ?env) (gw_conn g) (br_runtime ?b) ?w
      = (x, Some (Inr ()), set_conn q conn' (?w\<lparr>ww_net := n'\<rparr>))"
    using ready found assms(3)
    by (simp add: ws_connect_def ws_connect_on_def run_on_def run_def runtime_once select_cancelled_def)
  obtain y cell w b where b: "bridge_ws_connect ?env um (gw_conn g) ?b = Some (snd (go_answer (en_to_vec ?env) um y), b)"
    "ws_connect (en_ws ?env) (en_tokens ?env) (en_build ?env) (en_fire ?env) (gw_conn g) (br_runtime ?b) ?w = (y, cell, w)"
    "ws_after ?b cell w b" "ws_task_calm ?b b"
    by (rule bridge_ws_connect_calm [OF ready(1) ser])
  have y: "y = x" "cell = Some (Inr ())" "w = set_conn q conn' (?w\<lparr>ww_net := n'\<rparr>)" using run b(2) by simp_all
  note after = ws_after_sel [OF b(3)]
  have "conn_le conn conn'" by (rule connect_task_le [OF assms(3)])
  then have "conn_ready env q conn' (g\<lparr>gw_bridge := b\<rparr>)"
    using assms(1) b(4) after y ready
    by (simp add: conn_ready_def Let_def ws_task_calm_def set_conn_def conn_fired_def conn_le_def)
  moreover have "live_conns (g\<lparr>gw_bridge := b\<rparr>) = live_conns g"
    using b(4) by (simp add: live_conns_def ws_task_calm_def)
  ultimately show ?thesis using that [of b] b(1) y(1) by simp
qed

text \<open>An undisturbed dial: a connection is registered, the task runs on it, and the answer decides.\<close>

definition dial_outcome ::
  "('t, 'c, 'k, 'h, 'n, 'm) bridge_env \<Rightarrow> 'h ws_client \<Rightarrow> upgrade_request \<Rightarrow> 'm \<Rightarrow>
     (ws_error + 'k \<times> 'c ws_item list \<times> hs_response) \<times> 'm \<Rightarrow> bool" where
  "dial_outcome env client req n outcome \<longleftrightarrow>
     dial (en_ws env) (wl_connector client) req (connect_limits (en_ws env) (wl_config client))
       (connect_route (wl_config client)) n = outcome \<and>
     \<not> dial_late (en_ws env) (wl_config client) n (snd outcome)"

lemma go_dial_calm:
  assumes "dial_ready env client g"
    and "dial_read_back codec (en_ws env) url headers metadata" "ws_base64_agrees codec (ws_codec (en_ws env))"
    and "go_upgrade (en_ws env) url (go_value_list headers) = Inr req" "length metadata \<le> isize_max"
    and "dial_outcome env client req (ww_net (br_ws (gw_bridge g))) (answer, n')"
    and "dial_answer (en_ws env) (wl_config client) answer = (Finished x, socket)"
    and "snd (go_answer (en_to_vec env) um x) = (data, err)"
  shows "\<exists>g1 q conn. conn_ready env q conn g1 \<and> live_conns g1 = insert (gw_conn g1) (live_conns g) \<and>
    (case socket of None \<Rightarrow> True | Some (writer, reader) \<Rightarrow>
       co_reader conn = Some reader \<and> co_writer conn = Some writer \<and> \<not> co_peer_close conn) \<and>
    go_dial codec env um (\<lambda>_. []) None url headers g =
       (case map_option WsBridge err of
          Some fault \<Rightarrow>
            map_option (\<lambda>(_, g3). (Inl (dial_failure codec data fault), g3)) (go_conn_close env um g1)
        | None \<Rightarrow> (case decode_handshake codec data of
             Inl e \<Rightarrow> map_option (\<lambda>(_, g3). (Inl (WsOther e), g3)) (go_conn_close env um g1)
           | Inr hs \<Rightarrow> Some (Inr hs, g1)))"
proof -
  let ?b = "gw_bridge g" and ?q = "ww_fresh (br_ws (gw_bridge g))"
  have ready: "serialises env" "gw_ctx g = LiveCtx" "gw_client g \<noteq> 0"
    using assms(1) by (auto simp: dial_ready_def Let_def split: prod.splits)
  have prepared: "ws_prepare (en_ws env) metadata = Inr req"
    using go_upgrade_prepared [OF assms(2,3)] assms(4) by simp
  obtain j b h where new: "bridge_ws_connection_new env um (gw_client g) metadata ?b = Some ((j, None), b)"
    "conn_ready env ?q (new_connection (gw_client g) client h req) (g\<lparr>gw_bridge := b, gw_conn := j\<rparr>)"
    "ww_net (br_ws b) = ww_net (br_ws ?b)" "ww_conns (br_ws b) = (ww_conns (br_ws ?b))(j \<mapsto> ?q)"
    by (rule dial_ready_create [OF assms(1) prepared assms(5)])
  let ?g = "g\<lparr>gw_bridge := b, gw_conn := j\<rparr>" and ?conn = "new_connection (gw_client g) client h req"
  obtain conn' where task: "ws_connect_task (en_ws env) None ?conn (ww_net (br_ws (gw_bridge ?g))) = (Finished x, conn', n')"
    "case socket of None \<Rightarrow> True | Some (writer, reader) \<Rightarrow>
       co_reader conn' = Some reader \<and> co_writer conn' = Some writer \<and> \<not> co_peer_close conn'"
    using assms(6,7) new(3)
    by (cases socket) (auto simp: ws_connect_task_def new_connection_def dial_outcome_def Let_def)
  obtain b2 where b2: "bridge_ws_connect (env\<lparr>en_fire := None\<rparr>) um j b = Some ((data, err), b2)"
    "conn_ready env ?q conn' (?g\<lparr>gw_bridge := b2\<rparr>)" "live_conns (?g\<lparr>gw_bridge := b2\<rparr>) = live_conns ?g"
    using conn_ready_connect [OF new(2) ready(1) task(1), of um] assms(8) by auto
  let ?g1 = "g\<lparr>gw_bridge := b2, gw_conn := j, gw_watch := Unwatched\<rparr>"
  have watched: "go_watched env um (\<lambda>k. []) (bridge_ws_connect (env\<lparr>en_fire := None\<rparr>) um j) ?g = Some ((data, err), ?g1)"
    using go_watched_calm [of "bridge_ws_connect (env\<lparr>en_fire := None\<rparr>) um j" ?g "(data, err)" b2 env um] b2(1) ready(2)
    by simp
  have "conn_ready env ?q conn' ?g1" using b2(2) by (simp add: conn_ready_def)
  moreover have "live_conns ?g1 = insert j (live_conns g)"
    using b2(3) new(4) by (simp add: live_conns_def)
  moreover have "dial_error ?g1 err = map_option WsBridge err"
    using ready(2,3) by (simp add: dial_error_def)
  ultimately have "conn_ready env ?q conn' ?g1 \<and> live_conns ?g1 = insert (gw_conn ?g1) (live_conns g) \<and>
    (case socket of None \<Rightarrow> True | Some (writer, reader) \<Rightarrow>
       co_reader conn' = Some reader \<and> co_writer conn' = Some writer \<and> \<not> co_peer_close conn') \<and>
    go_dial codec env um (\<lambda>_. []) None url headers g =
       (case map_option WsBridge err of
          Some fault \<Rightarrow>
            map_option (\<lambda>(_, g3). (Inl (dial_failure codec data fault), g3)) (go_conn_close env um ?g1)
        | None \<Rightarrow> (case decode_handshake codec data of
             Inl e \<Rightarrow> map_option (\<lambda>(_, g3). (Inl (WsOther e), g3)) (go_conn_close env um ?g1)
           | Inr hs \<Rightarrow> Some (Inr hs, ?g1)))"
    using task(2) new(1) watched ready assms(2)
    by (simp add: go_dial_def check_context_def dial_read_back_def)
  then show ?thesis by blast
qed

subsection \<open>Properties of the Go client\<close>

text \<open>A server that accepts the first dial and rejects the next, a codec, and a client.\<close>

definition sample_dial_sdk :: "(u16, u16 message list, nat) ws_sdk" where
  "sample_dial_sdk = sample_ws\<lparr>ws_codec := sample_text_codec,
     dial := (\<lambda>con req lim route n.
       (if n = 0 then Inr ([], sample_items, \<lparr>hs_status = 101, hs_headers = [], hs_captured = None\<rparr>)
        else Inl \<lparr>we_class = WsHttp \<lparr>hs_status = 403, hs_headers = [], hs_captured = Some (ascii ''no'')\<rparr>,
                 we_display = ''http''\<rparr>, Suc n))\<rparr>"

definition sample_ws_codec :: go_ws_codec where
  "sample_ws_codec =
     \<lparr>wg_config = (\<lambda>c. Inr [1]), wg_dial = (\<lambda>d. Inr [1]), wg_details = (\<lambda>b. Inr [2]),
      wg_handshake = (\<lambda>d. if d = [2]
        then Inr \<lparr>wh_status = 403, wh_headers = [], wh_body = ascii ''no'', wh_truncated = True\<rparr>
        else Inr \<lparr>wh_status = 101, wh_headers = [], wh_body = [], wh_truncated = False\<rparr>),
      wg_b64_encode = byte_text, wg_b64_decode = (\<lambda>s. Inr (ascii s)), wg_canonical = id\<rparr>"

definition sample_dial_env :: "(token_list, u16, u16 message list, nat, nat \<times> response list, nat) bridge_env" where
  "sample_dial_env = sample_env\<lparr>en_ws := sample_dial_sdk\<rparr>"

definition sample_dialer :: "nat \<Rightarrow> (token_list, u16, u16 message list, nat, nat \<times> response list, nat) go_ws" where
  "sample_dialer n =
     \<lparr>gw_bridge = sample_bridge\<lparr>br_ws := (ss_world sample_joined)\<lparr>ww_net := n\<rparr>\<rparr>,
      gw_client = 1, gw_conn = 0, gw_ctx = LiveCtx, gw_watch = Unwatched\<rparr>"

definition sample_dialled :: "(token_list, u16, u16 message list, nat, nat \<times> response list, nat) go_ws" where
  "sample_dialled = (sample_dialer 0)\<lparr>gw_conn := 2\<rparr>"

lemma sample_dial_serialises: "serialises sample_dial_env"
  by (simp add: serialises_def sample_dial_env_def sample_env_def)

lemma sample_dialer_calm: "ws_calm (gw_bridge (sample_dialer n))"
  by (simp add: ws_calm_def sample_dialer_def sample_bridge_def heap_ok_empty ws_sound_def stored_def
      sample_joined_def sample_conn_def sample_ws_client_def sample_ws_config_def)

lemma sample_dialled_calm: "ws_calm (gw_bridge sample_dialled)"
  using sample_dialer_calm [of 0] by (simp add: sample_dialled_def)

lemma sample_dial_ready: "dial_ready sample_dial_env sample_ws_client (sample_dialer n)"
  using sample_dialer_calm [of n] sample_dial_serialises
  by (simp add: dial_ready_def, simp add: sample_dialer_def sample_dial_env_def sample_env_def sample_bridge_def
      sample_joined_def sample_ws_client_def sample_ws_config_def list_tokens_def)

lemma sample_dial_base64: "ws_base64_agrees sample_ws_codec (ws_codec (en_ws sample_dial_env))"
  by (simp add: ws_base64_agrees_def sample_ws_codec_def sample_dial_env_def sample_dial_sdk_def sample_text_codec_def)

lemma sample_dial_back: "dial_read_back sample_ws_codec (en_ws sample_dial_env) ''h'' [] [1]"
  by (simp add: dial_read_back_def sample_ws_codec_def sample_dial_env_def sample_dial_sdk_def sample_ws_def
      go_dial_metadata_def)

lemma sample_upgrade:
  "go_upgrade (en_ws sample_dial_env) ''h'' (go_value_list []) = Inr \<lparr>up_url = sample_ws_target, up_headers = []\<rparr>"
  by (simp add: go_upgrade_def go_value_list_def sample_dial_env_def sample_dial_sdk_def sample_ws_def sample_ws_target_def)

lemma sample_dial_outcome:
  "dial_outcome sample_dial_env sample_ws_client \<lparr>up_url = sample_ws_target, up_headers = []\<rparr>
     (ww_net (br_ws (gw_bridge (sample_dialer 0))))
     (Inr ([], sample_items, \<lparr>hs_status = 101, hs_headers = [], hs_captured = None\<rparr>), 1)"
  "dial_outcome sample_dial_env sample_ws_client \<lparr>up_url = sample_ws_target, up_headers = []\<rparr>
     (ww_net (br_ws (gw_bridge (sample_dialer 1))))
     (Inl \<lparr>we_class = WsHttp \<lparr>hs_status = 403, hs_headers = [], hs_captured = Some (ascii ''no'')\<rparr>,
           we_display = ''http''\<rparr>, 2)"
  by (simp_all add: dial_outcome_def dial_late_def sample_dial_env_def sample_dial_sdk_def sample_ws_def
      sample_dialer_def sample_ws_client_def sample_ws_config_def)

text \<open>
  C5. A whole session. On an open client, with the codecs agreeing, \<open>Dial\<close> sends the upgrade for
  exactly the Go URL and header values; when the server accepts, it returns the response's status
  and headers, and \<open>ReadMessage\<close> hands out what the socket yields: every message once, in order,
  with its type and the very bytes, then one error for the first failure (of the socket, or of
  answering a ping, which takes that ping's place) or \<open>io.EOF\<close>, after which the connection is
  closed and released, and \<open>ErrConnClosed\<close> for ever.
\<close>

theorem go_session_in_order:
  assumes "dial_ready env client g"
    and "dial_read_back codec (en_ws env) url headers metadata" "ws_base64_agrees codec (ws_codec (en_ws env))"
    and "go_upgrade (en_ws env) url (go_value_list headers) = Inr req" "length metadata \<le> isize_max"
    and "dial_outcome env client req (ww_net (br_ws (gw_bridge g))) (Inr (writer, reader, resp), n')"
    and "hs_to_vec (en_ws env) (handshake_json (en_ws env) resp '''' False) = Inr data" "length data \<le> isize_max"
    and "handshake_read codec (en_ws env) resp [] False data"
    and "inbox (en_ws env) (Some writer) reader = wire_results ms @ rs"
    and "list_all (\<lambda>(kind, payload). length payload < isize_max) ms"
    and "read_converted env um (next_result rs) = Inl fault"
  shows "\<exists>g1 g2. go_dial codec env um (\<lambda>_. []) None url headers g =
             Some (Inr (go_handshake_of codec resp [] False), g1) \<and>
           go_read_messages env um (length ms + k) g1 =
             Some (map Inr ms @ take k (Inl fault # replicate k (Inl WsConnClosed)), g2) \<and>
           (0 < k \<longrightarrow> gw_conn g2 = 0 \<and> gw_conn g1 \<notin> live_conns g2)"
proof -
  have answer: "dial_answer (en_ws env) (wl_config client) (Inr (writer, reader, resp)) =
      (Finished (Inr (output_data data)), Some (writer, reader))"
    using assms(7) by (simp add: dial_answer_def handshake_json_def)
  have "snd (go_answer (en_to_vec env) um (Inr (output_data data))) = (data, None)"
    using assms(8) by (simp add: go_answer_def)
  from go_dial_calm [OF assms(1-6) answer this] decode_handshake_read [OF assms(9,3)]
  obtain g1 q conn where g1: "conn_ready env q conn g1" "co_reader conn = Some reader" "co_writer conn = Some writer" "\<not> co_peer_close conn"
    "go_dial codec env um (\<lambda>_. []) None url headers g = Some (Inr (go_handshake_of codec resp [] False), g1)"
    by auto
  have "serialises env" using assms(1) by (auto simp: dial_ready_def Let_def split: prod.splits)
  moreover have "unread (en_ws env) conn = wire_results ms @ rs" using g1(2-4) assms(10) by (simp add: unread_def)
  ultimately obtain g2 where "go_read_messages env um (length ms + k) g1 =
             Some (map Inr ms @ take k (Inl fault # replicate k (Inl WsConnClosed)), g2)"
    "0 < k \<longrightarrow> gw_conn g2 = 0 \<and> gw_conn g1 \<notin> live_conns g2"
    using go_read_messages_order [OF g1(1) _ _ _ assms(11,12), of k] g1(2) by auto
  with g1(5) show ?thesis by blast
qed

theorem go_session_in_order_witness:
  "\<exists>g1 g2. go_dial sample_ws_codec sample_dial_env sample_unmarshal (\<lambda>_. []) None ''h'' [] (sample_dialer 0) =
       Some (Inr \<lparr>gk_status = 101, gk_headers = [], gk_body = [], gk_truncated = False\<rparr>, g1) \<and>
     go_read_messages sample_dial_env sample_unmarshal 5 g1 =
       Some ([Inr (1, [0x68]), Inr (9, [5]), Inr (8, [0x03, 0xF1, 0x62]), Inl (WsBridge GoEOF), Inl WsConnClosed], g2)"
proof -
  let ?sdk = "en_ws sample_dial_env" and ?resp = "\<lparr>hs_status = 101, hs_headers = [], hs_captured = None\<rparr>"
  let ?ms = "[(1, [0x68]), (9, [5]), (8, [0x03, 0xF1, 0x62])]"
  have codec: "hs_to_vec ?sdk (handshake_json ?sdk ?resp '''' False) = Inr (ascii (show_nat 101))"
    by (simp add: handshake_json_def sample_dial_env_def sample_dial_sdk_def sample_ws_def)
  have digits: "show_nat 101 = ''101''" by code_simp
  have read: "length (ascii (show_nat 101)) \<le> isize_max"
    "handshake_read sample_ws_codec ?sdk ?resp [] False (ascii (show_nat 101))"
    by (simp_all add: digits isize_max_def handshake_read_def sample_ws_codec_def encode_headers_def)
  have box: "inbox ?sdk (Some []) sample_items = wire_results ?ms @ []"
    by (simp add: sample_items_def sample_dial_env_def sample_dial_sdk_def sample_ws_def message_parts_def
        is_close_def u16_to_be_bytes_def answer_ping_def)
  have sizes: "list_all (\<lambda>(kind :: u8, payload). length payload < isize_max) ?ms" by (simp add: isize_max_def)
  have eof: "read_converted sample_dial_env sample_unmarshal (next_result []) = Inl (WsBridge GoEOF)"
    by (simp add: read_converted_def next_result_def go_answer_def isize_max_def)
  have len: "length [1 :: u8] \<le> isize_max" by (simp add: isize_max_def)
  from go_session_in_order [OF sample_dial_ready sample_dial_back sample_dial_base64 sample_upgrade len
      sample_dial_outcome(1) codec read box sizes eof, of 2]
  show ?thesis by (auto simp: go_handshake_of_def numeral_eq_Suc)
qed

text \<open>
  C23. A rejected upgrade reaches the caller of \<open>Dial\<close>: its error is a \<open>*HandshakeError\<close> around the
  bridge's \<open>handshake\<close> error, with the response's status, its headers, what was captured of its body
  (never more than the configured limit) and whether that is all of it; and no connection is left.
\<close>

theorem go_dial_rejected:
  assumes "dial_ready env client g"
    and "dial_read_back codec (en_ws env) url headers metadata" "ws_base64_agrees codec (ws_codec (en_ws env))"
    and "go_upgrade (en_ws env) url (go_value_list headers) = Inr req" "length metadata \<le> isize_max"
    and "dial_outcome env client req (ww_net (br_ws (gw_bridge g))) (Inl e, n')" "we_class e = WsHttp resp"
    and "handshake_body (ws_http (en_ws env)) resp (wc_max_handshake_body_bytes (wl_config client)) = Some (body, truncated)"
    and "hs_to_value (en_ws env) (handshake_json (en_ws env) resp (b64_encode (ws_codec (en_ws env)) body) truncated) = Inr v"
    and "en_to_vec env (with_details (bridge_error_new ''handshake'' message) v) = Inr bs" "length bs \<le> isize_max"
    and "message = ''WebSocket upgrade rejected with HTTP '' @ show_nat (hs_status resp)"
    and "um bs = Some (''handshake'', message)" "wg_details codec bs = Inr details"
    and "handshake_read codec (en_ws env) resp body truncated details"
  shows "\<exists>g'. go_dial codec env um (\<lambda>_. []) None url headers g =
             Some (Inl (WsRejected (go_handshake_of codec resp body truncated) (GoNative ''handshake'' message)), g') \<and>
           length body \<le> wc_max_handshake_body_bytes (wl_config client) \<and>
           gw_conn g' = 0 \<and> live_conns g' \<subseteq> live_conns g"
proof -
  let ?err = "with_details (bridge_error_new ''handshake'' message) v"
  have answer: "dial_answer (en_ws env) (wl_config client) (Inl e) = (Finished (Inl ?err), None)"
    using assms(7-9,12) by (simp add: dial_answer_def rejected_error_def handshake_json_def Let_def)
  have conv: "snd (go_answer (en_to_vec env) um (Inl ?err)) = (bs, Some (GoNative ''handshake'' message))"
    using assms(10,11,13) by (simp add: go_answer_def)
  from go_dial_calm [OF assms(1-6) answer conv] obtain g1 q conn where g1:
    "conn_ready env q conn g1" "live_conns g1 = insert (gw_conn g1) (live_conns g)"
    "go_dial codec env um (\<lambda>_. []) None url headers g =
       map_option (\<lambda>(_, g3). (Inl (dial_failure codec bs (WsBridge (GoNative ''handshake'' message))), g3))
         (go_conn_close env um g1)" by auto
  have calm: "ws_calm (gw_bridge g1)" "gw_conn g1 \<noteq> 0" using g1(1) by (simp_all add: conn_ready_def Let_def)
  have ser: "serialises env" using assms(1) by (auto simp: dial_ready_def Let_def split: prod.splits)
  obtain g' where g': "go_conn_close env um g1 = Some (None, g')" "ws_quiet g1 g'" "gw_conn g' = 0"
    using go_conn_close_quiet [OF calm(1) ser] by metis
  have "live_conns g' \<subseteq> live_conns g"
    using g'(2,3) calm(2) g1(2) by (auto simp: ws_quiet_def ws_le_def)
  moreover have "length body \<le> wc_max_handshake_body_bytes (wl_config client)"
    using handshake_body_bounded [of "ws_http (en_ws env)" resp "wc_max_handshake_body_bytes (wl_config client)"] assms(8)
    by auto
  moreover have "dial_failure codec bs (WsBridge (GoNative ''handshake'' message)) =
      WsRejected (go_handshake_of codec resp body truncated) (GoNative ''handshake'' message)"
    using assms(14) decode_handshake_read [OF assms(15,3)] by (simp add: dial_failure_def)
  ultimately show ?thesis using g1(3) g'(1,3) by simp
qed

theorem go_dial_rejected_witness:
  "\<exists>g'. go_dial sample_ws_codec sample_dial_env
       (\<lambda>_. Some (''handshake'', ''WebSocket upgrade rejected with HTTP 403'')) (\<lambda>_. []) None ''h'' [] (sample_dialer 1) =
     Some (Inl (WsRejected \<lparr>gk_status = 403, gk_headers = [], gk_body = ascii ''no'', gk_truncated = True\<rparr>
       (GoNative ''handshake'' ''WebSocket upgrade rejected with HTTP 403'')), g') \<and> gw_conn g' = 0"
proof -
  let ?sdk = "en_ws sample_dial_env"
  let ?resp = "\<lparr>hs_status = 403, hs_headers = [], hs_captured = Some (ascii ''no'')\<rparr>"
  let ?msg = "''WebSocket upgrade rejected with HTTP 403''"
  let ?um = "\<lambda>bs :: bytes. Some (''handshake'', ?msg)"
  have digits: "?msg = ''WebSocket upgrade rejected with HTTP '' @ show_nat (hs_status ?resp)"
    by (simp, code_simp)
  have body: "handshake_body (ws_http ?sdk) ?resp (wc_max_handshake_body_bytes (wl_config sample_ws_client))
      = Some (ascii ''no'', True)"
    by (simp add: handshake_body_def is_chunked_def header_str_def sample_dial_env_def sample_dial_sdk_def
        sample_ws_def sample_http_api_def sample_ws_client_def body_limit_default_def)
  obtain v where v: "hs_to_value ?sdk (handshake_json ?sdk ?resp (b64_encode (ws_codec ?sdk) (ascii ''no'')) True) = Inr v"
    by (simp add: sample_dial_env_def sample_dial_sdk_def sample_ws_def)
  have err: "en_to_vec sample_dial_env (with_details (bridge_error_new ''handshake'' ?msg) v) = Inr []"
    "length [] \<le> isize_max" "?um [] = Some (''handshake'', ?msg)" "wg_details sample_ws_codec [] = Inr [2]"
    "handshake_read sample_ws_codec ?sdk ?resp (ascii ''no'') True [2]" "length [1 :: u8] \<le> isize_max"
    by (simp_all add: sample_dial_env_def sample_env_def sample_ws_codec_def handshake_read_def encode_headers_def isize_max_def)
  have "we_class \<lparr>we_class = WsHttp ?resp, we_display = ''http''\<rparr> = WsHttp ?resp" by simp
  from go_dial_rejected [OF sample_dial_ready sample_dial_back sample_dial_base64 sample_upgrade err(6)
      sample_dial_outcome(2) this body v err(1,2) digits err(3-5)]
  show ?thesis by (auto simp: go_handshake_of_def)
qed

text \<open>
  C21. \<open>ReadMessage\<close> under any interference, called on an open connection with a live context (an
  ended one is answered before anything is touched): it returns, with one of the five message types and the
  connection as open as before, or with an error, never that of an empty native message; after an
  error the connection is released for good, and whatever happens later every operation answers
  \<open>ErrConnClosed\<close> or its own context's error without touching anything.
\<close>

theorem go_read_message_final:
  assumes "ws_calm (gw_bridge g)" "serialises env" "gw_ctx g = LiveCtx" "gw_conn g \<noteq> 0"
  shows "\<exists>r g'. go_read_message env um evs fire g = Some (r, g') \<and> gw_watch g' = Unwatched \<and>
     (case r of
        Inr (kind, payload) \<Rightarrow> kind \<in> {1, 2, 8, 9, 10} \<and> gw_conn g' = gw_conn g \<and> live_conns g' = live_conns g
      | Inl fault \<Rightarrow> fault \<noteq> WsOther ''codexws: empty native message'' \<and>
          (\<forall>rest g''. ws_events env um rest g' = Some g'' \<longrightarrow>
             gw_conn g \<notin> live_conns g'' \<and>
             (\<forall>ctx g3. g3 = g''\<lparr>gw_ctx := ctx\<rparr> \<longrightarrow>
                go_read_message env um evs' fire' g3 = Some (Inl (closed_fault ctx), g3) \<and>
                go_write_message env um evs' fire' kind' data g3 = Some (Some (closed_fault ctx), g3))))"
proof -
  obtain r g' where r: "go_read_message env um evs fire g = Some (r, g')" "ws_le g g'" "gw_watch g' = Unwatched"
    "case r of Inr (kind, payload) \<Rightarrow> kind \<in> {1, 2, 8, 9, 10} \<and> gw_conn g' \<noteq> 0 \<and> gw_client g' \<noteq> 0
      | Inl fault \<Rightarrow> gw_conn g' = 0 \<and> (\<forall>s. fault \<noteq> WsOther s)"
    using go_read_message_runs [OF assms, of um evs fire] by blast
  have gone: "gw_conn g'' = 0 \<and> gw_conn g \<notin> live_conns g''"
    if "gw_conn g' = 0" "ws_events env um rest g' = Some g''" for rest g''
    using closed_stays [OF ws_le_calm [OF r(2)] assms(2) that] r(2) that(1) assms(4) by (auto simp: ws_le_def)
  have "gw_conn g' \<noteq> 0 \<Longrightarrow> gw_conn g' = gw_conn g" "gw_conn g' \<noteq> 0 \<Longrightarrow> gw_client g' \<noteq> 0 \<Longrightarrow> live_conns g' = live_conns g"
    using r(2) unfolding ws_le_def by blast+
  note kept = this
  show ?thesis
  proof (cases r)
    case (Inl fault)
    with r(4) have "gw_conn g' = 0" "fault \<noteq> WsOther ''codexws: empty native message''" by simp_all
    moreover from this(1) have "gw_conn g \<notin> live_conns g'' \<and>
             (\<forall>ctx g3. g3 = g''\<lparr>gw_ctx := ctx\<rparr> \<longrightarrow>
                go_read_message env um evs' fire' g3 = Some (Inl (closed_fault ctx), g3) \<and>
                go_write_message env um evs' fire' kind' data g3 = Some (Some (closed_fault ctx), g3))"
      if "ws_events env um rest g' = Some g''" for rest g''
      using gone [OF _ that] by (simp add: closed_operations)
    ultimately show ?thesis using Inl r(1,3) by simp
  next
    case (Inr m)
    with r kept show ?thesis by (cases m) simp
  qed
qed

theorem go_read_message_final_witness:
  "\<exists>r g'. go_read_message sample_dial_env sample_unmarshal (\<lambda>k. [WsCloseConn]) None sample_dialled = Some (r, g') \<and>
     gw_watch g' = Unwatched"
proof -
  have "gw_ctx sample_dialled = LiveCtx" "gw_conn sample_dialled \<noteq> 0"
    by (simp_all add: sample_dialled_def sample_dialer_def)
  from go_read_message_final [OF sample_dialled_calm sample_dial_serialises this,
      of sample_unmarshal "\<lambda>k. [WsCloseConn]" None "\<lambda>_. []" None 1 "[]"]
  show ?thesis by blast
qed

text \<open>
  C22. \<open>WriteMessage\<close> under any interference, called on an open connection with a live context (an
  ended one is answered before anything is touched): it returns and never touches what is still to be read
  from the connection. On success, and on the bridge's \<open>invalid_input\<close> and \<open>closing\<close> errors, the
  connection is as open as before, so the close the peer sent is still there to be read; on every
  other error it is released.
\<close>

theorem go_write_message_keeps:
  assumes "ws_calm (gw_bridge g)" "serialises env" "gw_ctx g = LiveCtx" "gw_conn g \<noteq> 0"
  shows "\<exists>err g'. go_write_message env um evs fire kind data g = Some (err, g') \<and> gw_watch g' = Unwatched \<and>
     same_inbound g g' \<and>
     (if err = None \<or> (\<exists>m. err \<in> {Some (WsBridge (GoNative ''invalid_input'' m)), Some (WsBridge (GoNative ''closing'' m))})
      then gw_conn g' = gw_conn g \<and> live_conns g' = live_conns g
      else gw_conn g' = 0 \<and> gw_conn g \<notin> live_conns g')"
proof -
  obtain err g' where r: "go_write_message env um evs fire kind data g = Some (err, g')" "ws_le g g'"
    "gw_watch g' = Unwatched" "same_inbound g g'"
    "case err of None \<Rightarrow> gw_conn g' \<noteq> 0 \<and> gw_client g' \<noteq> 0
      | Some fault \<Rightarrow> (if keeps_connection fault then gw_conn g' \<noteq> 0 \<and> gw_client g' \<noteq> 0 else gw_conn g' = 0)"
    using go_write_message_runs [OF assms, of um evs fire kind data] by blast
  have keeps: "keeps_connection fault \<longleftrightarrow>
      (\<exists>m. fault \<in> {WsBridge (GoNative ''invalid_input'' m), WsBridge (GoNative ''closing'' m)})" for fault
    by (auto simp: keeps_connection_def split: ws_fault.splits go_error.splits)
  have "gw_conn g' \<noteq> 0 \<Longrightarrow> gw_conn g' = gw_conn g" "gw_conn g' \<noteq> 0 \<Longrightarrow> gw_client g' \<noteq> 0 \<Longrightarrow> live_conns g' = live_conns g"
    "gw_conn g' = 0 \<Longrightarrow> gw_conn g \<notin> live_conns g'"
    using r(2) assms(4) unfolding ws_le_def by metis+
  with r keeps show ?thesis by (cases err) (auto split: if_splits)
qed

theorem go_write_message_keeps_witness:
  "\<exists>err g'. go_write_message sample_dial_env sample_unmarshal (\<lambda>k. [WsCtxDone ''late'']) (Some 1) 9 [5] sample_dialled
     = Some (err, g') \<and> same_inbound sample_dialled g'"
proof -
  have "gw_ctx sample_dialled = LiveCtx" "gw_conn sample_dialled \<noteq> 0"
    by (simp_all add: sample_dialled_def sample_dialer_def)
  from go_write_message_keeps [OF sample_dialled_calm sample_dial_serialises this,
      of sample_unmarshal "\<lambda>k. [WsCtxDone ''late'']" "Some 1" 9 "[5]"]
  show ?thesis by blast
qed

text \<open>
  C20. Whatever other goroutines do meanwhile and however the calls below it fail, \<open>Dial\<close> returns and
  leaks nothing: on an error no connection is registered that was not before; on success the one new
  connection is the one returned, and it is registered unless somebody has closed it already.
\<close>

theorem go_dial_leaks_nothing:
  assumes "ws_calm (gw_bridge g)" "serialises env"
  shows "\<exists>r g'. go_dial codec env um evs fire url headers g = Some (r, g') \<and> ws_calm (gw_bridge g') \<and>
     (case r of
        Inl fault \<Rightarrow> live_conns g' \<subseteq> live_conns g
      | Inr hs \<Rightarrow> live_conns g' \<subseteq> insert (gw_conn g') (live_conns g) \<and>
                 (gw_conn g' = 0 \<or> gw_conn g' \<in> live_conns g'))"
proof -
  obtain r g' where r: "go_dial codec env um evs fire url headers g = Some (r, g')" "ws_calm (gw_bridge g')"
    "case r of Inl fault \<Rightarrow> live_conns g' \<subseteq> live_conns g
      | Inr hs \<Rightarrow> gw_client g' \<noteq> 0 \<and> live_conns g' \<subseteq> insert (gw_conn g') (live_conns g) \<and>
                 (gw_conn g' \<noteq> 0 \<longrightarrow> gw_conn g' \<in> live_conns g')"
    using go_dial_runs [OF assms] by blast
  then show ?thesis by (intro exI [of _ r] exI [of _ g']) (cases r; auto)
qed

theorem go_dial_leaks_nothing_witness:
  "\<exists>r g'. go_dial sample_ws_codec sample_dial_env sample_unmarshal (\<lambda>k. [WsCtxDone ''late'', WsCloseClient]) (Some 1)
      ''h'' [] (sample_dialer 0) = Some (r, g') \<and> ws_calm (gw_bridge g')"
  using go_dial_leaks_nothing [OF sample_dialer_calm sample_dial_serialises, of sample_ws_codec sample_unmarshal
      "\<lambda>k. [WsCtxDone ''late'', WsCloseClient]" "Some 1" "''h''" "[]" 0]
  by blast

text \<open>
  C38. Close payloads across the two ends. \<open>ParseClosePayload\<close> undoes \<open>ClosePayload\<close> for every status
  and reason; Rust's \<open>write\<close> accepts the payload exactly if the status may be sent, the reason is UTF-8
  and at most 123 bytes long; and then the peer that receives the frame reads that very payload, so
  it parses the same status and reason.
\<close>

theorem go_close_roundtrip:
  assumes "\<And>n. u16_of_code sdk (code_of_u16 sdk n) = n"
  shows "go_parse_close_payload (go_close_payload code reason) = Inr (code, reason) \<and>
    (case plan_write sdk 8 (go_close_payload code reason) of
       Inr plan \<Rightarrow> code_allowed sdk (code_of_u16 sdk code) \<and> utf8_valid reason \<and> length reason \<le> 123 \<and>
         (\<exists>m payload. plan = WriteControl m \<and> message_parts sdk m = Some (8, payload) \<and>
            go_parse_close_payload payload = Inr (code, reason))
     | Inl e \<Rightarrow> err_kind e = ''invalid_input'' \<and>
         \<not> (code_allowed sdk (code_of_u16 sdk code) \<and> utf8_valid reason \<and> length reason \<le> 123))"
proof -
  obtain hi lo where be: "u16_to_be_bytes code = [hi, lo]" by (simp add: u16_to_be_bytes_def)
  then have code: "u16_from_be_bytes hi lo = code" by (rule u16_be_parse)
  have payload: "go_close_payload code reason = hi # lo # reason" by (simp add: go_close_payload_def be)
  then have parse: "go_parse_close_payload (go_close_payload code reason) = Inr (code, reason)"
    by (simp add: go_parse_close_payload_def code)
  have allowed: "write_allowed sdk 8 (go_close_payload code reason) \<longleftrightarrow>
      code_allowed sdk (code_of_u16 sdk code) \<and> utf8_valid reason \<and> length reason \<le> 123"
    by (auto simp: write_allowed_def close_allowed_def payload code)
  show ?thesis
    using parse plan_write_control [OF assms refl, of "go_close_payload code reason"] allowed
    by (auto simp: plan_write_def write_allowed_def split: sum.splits write_plan.splits if_splits)
qed

theorem go_close_roundtrip_witness:
  "go_parse_close_payload (go_close_payload 1000 [0x6F]) = Inr (1000, [0x6F])"
proof -
  have "u16_of_code sample_ws (code_of_u16 sample_ws n) = n" for n by (simp add: sample_ws_def)
  from go_close_roundtrip [of sample_ws, OF this] show ?thesis by blast
qed

text \<open>What only Rust checks of a configuration: the proxy URL, the cookies, and the SDK's connector.\<close>

definition rust_accepts :: "('c, 'k, 'n) ws_sdk \<Rightarrow> go_ws_options \<Rightarrow> bool" where
  "rust_accepts sdk opts \<longleftrightarrow>
     (gow_proxy_url opts = '''' \<or> (\<exists>p. parse_proxy (ws_url sdk) (gow_proxy_url opts) = Inr p)) \<and>
     (\<exists>policy fac x. parse_policy (go_ws_policy opts) = Inr policy \<and>
        make_factory (value_from_str (ws_codec sdk)) policy
          (case gow_chatgpt_cookies opts of None \<Rightarrow> [] | Some cs \<Rightarrow> cs) = Inr fac \<and>
        connector_new sdk fac = Inr x)"

text \<open>
  C39. Go's checks of the options agree with Rust's of the configuration. For durations and sizes
  that are not negative, Rust accepts the configuration exactly if Go would have sent it and the
  proxy URL, the cookies and the connector are in order, which Go leaves to Rust; what Rust then
  works with are Go's options, with the defaults for the sizes that are 0; and the handshake timeout
  it gets is the duration in milliseconds, rounded up, and 0 only for 0.
\<close>

theorem go_ws_options_agree:
  assumes "0 \<le> gow_handshake_timeout opts" "gow_handshake_timeout opts < 2 ^ 63"
    and "0 \<le> gow_max_message_size opts" "0 \<le> gow_max_frame_size opts"
    and "0 \<le> gow_write_frame_size opts" "0 \<le> gow_max_handshake_body opts"
  shows "(case ws_check_config sdk (go_ws_config opts) of
            Inr (cfg, con) \<Rightarrow> go_ws_check opts = None \<and> rust_accepts sdk opts \<and>
              cfg = default_sizes (go_ws_config opts) \<and> cn_nodelay con = gow_tcp_nodelay opts
          | Inl e \<Rightarrow> go_ws_check opts \<noteq> None \<or> \<not> rust_accepts sdk opts) \<and>
         int (unat (wc_handshake_timeout_ms (go_ws_config opts))) =
           (gow_handshake_timeout opts + 999999) div 1000000 \<and>
         (wc_handshake_timeout_ms (go_ws_config opts) = 0 \<longleftrightarrow> gow_handshake_timeout opts = 0)"
proof -
  have policy: "(\<exists>policy. parse_policy (go_ws_policy opts) = Inr policy) \<longleftrightarrow>
      go_ws_policy opts = ''respect_system_proxy'' \<or> go_ws_policy opts = ''reqwest_default''"
    by (simp add: parse_policy_def go_ws_policy_def)
  have "nat n \<le> one_mib \<longleftrightarrow> \<not> 2 ^ 20 < n" for n
    by (simp add: nat_le_iff one_mib_def not_less)
  with policy have allowed: "ws_config_allowed sdk (go_ws_config opts) \<longleftrightarrow>
            go_ws_check opts = None \<and>
            (gow_proxy_url opts = '''' \<or> (\<exists>p. parse_proxy (ws_url sdk) (gow_proxy_url opts) = Inr p))"
    using assms by (auto simp: ws_config_allowed_def go_ws_config_def go_ws_check_def simp del: one_mib_def)
  have sels: "wc_proxy_policy (go_ws_config opts) = go_ws_policy opts"
    "wc_chatgpt_cookies (go_ws_config opts) = gow_chatgpt_cookies opts"
    "wc_tcp_nodelay (go_ws_config opts) = gow_tcp_nodelay opts"
    by (simp_all add: go_ws_config_def)
  note check = ws_check_config_iff [of sdk "go_ws_config opts", unfolded allowed sels]
  have "case ws_check_config sdk (go_ws_config opts) of
            Inr (cfg, con) \<Rightarrow> go_ws_check opts = None \<and> rust_accepts sdk opts \<and>
              cfg = default_sizes (go_ws_config opts) \<and> cn_nodelay con = gow_tcp_nodelay opts
          | Inl e \<Rightarrow> go_ws_check opts \<noteq> None \<or> \<not> rust_accepts sdk opts"
  proof (cases "ws_check_config sdk (go_ws_config opts)")
    case (Inl e)
    show ?thesis
    proof (rule ccontr)
      assume "\<not> ?thesis"
      with Inl have "go_ws_check opts = None" "rust_accepts sdk opts" by auto
      then obtain con where "ws_check_config sdk (go_ws_config opts) = Inr (default_sizes (go_ws_config opts), con)"
        unfolding check rust_accepts_def by blast
      with Inl show False by simp
    qed
  next
    case (Inr x)
    obtain cfg con where x: "x = (cfg, con)" by (cases x)
    from Inr [unfolded x check] have "go_ws_check opts = None" "rust_accepts sdk opts"
      "cfg = default_sizes (go_ws_config opts)" "cn_nodelay con = gow_tcp_nodelay opts"
      unfolding rust_accepts_def by auto
    with Inr x show ?thesis by simp
  qed
  then show ?thesis
    using duration_ms_value [OF assms(1,2)] by (simp add: go_ws_config_def)
qed

theorem go_ws_options_agree_witness:
  "\<exists>con. ws_check_config sample_ws (go_ws_config
     \<lparr>gow_proxy_policy = '''', gow_proxy_url = '''', gow_no_proxy = True, gow_handshake_timeout = 1,
      gow_loopback_direct = False, gow_tcp_nodelay = True, gow_max_message_size = 0, gow_max_frame_size = 7,
      gow_chatgpt_cookies = None, gow_write_frame_size = 2, gow_max_handshake_body = 0\<rparr>)
     = Inr (default_sizes (go_ws_config
     \<lparr>gow_proxy_policy = '''', gow_proxy_url = '''', gow_no_proxy = True, gow_handshake_timeout = 1,
      gow_loopback_direct = False, gow_tcp_nodelay = True, gow_max_message_size = 0, gow_max_frame_size = 7,
      gow_chatgpt_cookies = None, gow_write_frame_size = 2, gow_max_handshake_body = 0\<rparr>), con)"
proof -
  let ?opts = "\<lparr>gow_proxy_policy = '''', gow_proxy_url = '''', gow_no_proxy = True, gow_handshake_timeout = 1,
      gow_loopback_direct = False, gow_tcp_nodelay = True, gow_max_message_size = 0, gow_max_frame_size = 7,
      gow_chatgpt_cookies = None, gow_write_frame_size = 2, gow_max_handshake_body = 0\<rparr>"
  have "go_ws_check ?opts = None" by code_simp
  moreover have "rust_accepts sample_ws ?opts"
    by (simp add: rust_accepts_def go_ws_policy_def parse_policy_def make_factory_def sample_ws_def)
  ultimately show ?thesis
    using go_ws_options_agree [of ?opts sample_ws]
    by (cases "ws_check_config sample_ws (go_ws_config ?opts)") auto
qed

end
