(* ===== verification/Go_Text.thy ===== *)
theory Go_Text
  imports Rust_Std
begin

text \<open>
  What \<open>httpclient/transport.go\<close> uses of Go's library on strings and headers: runes, \<open>EqualFold\<close>,
  \<open>TrimSpace\<close>, \<open>ParseInt\<close>, \<open>http.ParseHTTPVersion\<close> and \<open>http.Header\<close>, with the two header scans of
  its own. Unicode's case tables are arguments. A header map is the list of its entries, in the
  order in which a \<open>range\<close> happens to visit them.
\<close>

subsection \<open>Runes\<close>

text \<open>A \<open>range\<close> over a string: a byte that starts no encoding gives the replacement rune.\<close>

definition rune_value :: "u8 \<Rightarrow> bytes \<Rightarrow> nat" where
  "rune_value lead rest =
     foldl (\<lambda>acc c. acc * 64 + unat c mod 64)
       (unat lead mod (if rest = [] then 128 else if length rest = 1 then 32 else if length rest = 2 then 16 else 8))
       rest"

fun go_runes :: "bytes \<Rightarrow> nat list" where
  "go_runes [] = []"
| "go_runes (b # bs) =
     (case utf8_tail b of
        None \<Rightarrow> 0xFFFD # go_runes bs
      | Some tests \<Rightarrow>
          if list_all2 (\<lambda>t x. t x) tests (take (length tests) bs)
          then rune_value b (take (length tests) bs) # go_runes (drop (length tests) bs)
          else 0xFFFD # go_runes bs)"

text \<open>\<open>un_fold\<close>: one rune for each orbit of \<open>unicode.SimpleFold\<close>; \<open>un_lower\<close>: \<open>unicode.ToLower\<close>.\<close>

record go_unicode =
  un_fold :: "nat \<Rightarrow> nat"
  un_lower :: "nat \<Rightarrow> nat"

definition equal_fold :: "go_unicode \<Rightarrow> bytes \<Rightarrow> bytes \<Rightarrow> bool" where
  "equal_fold un s t \<longleftrightarrow> map (un_fold un) (go_runes s) = map (un_fold un) (go_runes t)"

text \<open>\<open>strings.ToLower\<close> compared with an ASCII text.\<close>

definition lower_is :: "go_unicode \<Rightarrow> bytes \<Rightarrow> string \<Rightarrow> bool" where
  "lower_is un s t \<longleftrightarrow> map (un_lower un) (go_runes s) = map unat (ascii t)"

text \<open>What the tables say of ASCII.\<close>

definition ascii_case :: "go_unicode \<Rightarrow> bool" where
  "ascii_case un \<longleftrightarrow>
     (\<forall>b c. b < 0x80 \<and> c < 0x80 \<longrightarrow>
        (un_fold un (unat b) = un_fold un (unat c) \<longleftrightarrow> ascii_lower b = ascii_lower c)) \<and>
     (\<forall>b < 0x80. un_lower un (unat b) = unat (ascii_lower b))"

lemma go_runes_ascii: "list_all (\<lambda>b. b < 0x80) s \<Longrightarrow> go_runes s = map unat s"
proof (induction s)
  case (Cons b s)
  then have "b < 0x80" by simp
  then have "unat b < 128" by (simp add: word_less_nat_alt)
  with Cons show ?case by (simp add: utf8_tail_def rune_value_def)
qed simp

lemma equal_fold_ascii:
  assumes "ascii_case un" "list_all (\<lambda>b. b < 0x80) s" "list_all (\<lambda>b. b < 0x80) t"
  shows "equal_fold un s t \<longleftrightarrow> eq_ignore_ascii_case s t"
proof -
  have "map (\<lambda>b. un_fold un (unat b)) s = map (\<lambda>b. un_fold un (unat b)) t \<longleftrightarrow>
      map ascii_lower s = map ascii_lower t"
    using assms(2,3)
  proof (induction s arbitrary: t)
    case (Cons b s)
    then show ?case using assms(1) by (cases t) (auto simp: ascii_case_def)
  qed auto
  then show ?thesis
    by (simp add: equal_fold_def eq_ignore_ascii_case_def go_runes_ascii [OF assms(2)]
        go_runes_ascii [OF assms(3)] comp_def)
qed

lemma lower_is_ascii:
  assumes "ascii_case un" "list_all (\<lambda>b. b < 0x80) s"
  shows "lower_is un s t \<longleftrightarrow> map ascii_lower s = ascii t"
proof -
  have "map (un_lower un) (map unat s) = map unat (map ascii_lower s)"
    using assms by (induction s) (simp_all add: ascii_case_def)
  moreover have "inj (unat :: u8 \<Rightarrow> nat)" by (simp add: inj_def word_unat_eq_iff)
  ultimately show ?thesis
    by (simp add: lower_is_def go_runes_ascii [OF assms(2)] inj_map_eq_map del: map_map)
qed

subsection \<open>Numbers\<close>

text \<open>\<open>strconv.ParseInt(s, 10, 64)\<close>.\<close>

definition go_parse_int :: "bytes \<Rightarrow> int option" where
  "go_parse_int s =
     (let (negative, ds) =
        (if s \<noteq> [] \<and> hd s = 0x2D then (True, tl s)
         else if s \<noteq> [] \<and> hd s = 0x2B then (False, tl s) else (False, s))
      in if ds = [] then None
         else case digits_value 10 0 ds of
                None \<Rightarrow> None
              | Some n \<Rightarrow>
                  if negative then (if n \<le> 2 ^ 63 then Some (- int n) else None)
                  else if n < 2 ^ 63 then Some (int n) else None)"

definition parse_http_version :: "string \<Rightarrow> (nat \<times> nat) option" where
  "parse_http_version v =
     (if v = ''HTTP/1.1'' then Some (1, 1)
      else if v = ''HTTP/1.0'' then Some (1, 0)
      else if take 5 v \<noteq> ''HTTP/'' \<or> length v \<noteq> 8 \<or> v ! 6 \<noteq> CHR ''.'' then None
      else Option.bind (to_digit 10 (byte_of (v ! 5))) (\<lambda>major.
           map_option (Pair major) (to_digit 10 (byte_of (v ! 7)))))"

subsection \<open>http.Header\<close>

type_synonym go_headers = "(string \<times> bytes list) list"

text \<open>\<open>Add\<close> and \<open>Set\<close> under a canonical name, and what is stored under a name.\<close>

fun hdr_add :: "string \<Rightarrow> bytes \<Rightarrow> go_headers \<Rightarrow> go_headers" where
  "hdr_add name v [] = [(name, [v])]"
| "hdr_add name v ((k, vs) # rest) =
     (if k = name then (k, vs @ [v]) # rest else (k, vs) # hdr_add name v rest)"

fun hdr_set :: "string \<Rightarrow> bytes \<Rightarrow> go_headers \<Rightarrow> go_headers" where
  "hdr_set name v [] = [(name, [v])]"
| "hdr_set name v ((k, vs) # rest) =
     (if k = name then (k, [v]) # rest else (k, vs) # hdr_set name v rest)"

definition hdr_values :: "string \<Rightarrow> go_headers \<Rightarrow> bytes list" where
  "hdr_values name hs = (case map_of hs name of None \<Rightarrow> [] | Some vs \<Rightarrow> vs)"

lemma hdr_values_Nil [simp]: "hdr_values name [] = []"
  by (simp add: hdr_values_def)

lemma hdr_values_add [simp]:
  "hdr_values n (hdr_add name v hs) = hdr_values n hs @ (if n = name then [v] else [])"
  by (induction hs) (auto simp: hdr_values_def)

lemma hdr_values_set [simp]:
  "hdr_values n (hdr_set name v hs) = (if n = name then [v] else hdr_values n hs)"
  by (induction hs) (auto simp: hdr_values_def)

lemma hdr_keys:
  "fst ` set (hdr_add name v hs) = insert name (fst ` set hs)"
  "fst ` set (hdr_set name v hs) = insert name (fst ` set hs)"
proof (induction hs)
  case (Cons kv hs)
  {
    case 1
    with Cons(1) show ?case by (cases kv) (simp add: insert_commute)
  next
    case 2
    with Cons(2) show ?case by (cases kv) (simp add: insert_commute)
  }
qed simp_all

lemma hdr_distinct:
  "distinct (map fst hs) \<Longrightarrow> distinct (map fst (hdr_add name v hs))"
  "distinct (map fst hs) \<Longrightarrow> distinct (map fst (hdr_set name v hs))"
proof (induction hs)
  case (Cons kv hs)
  {
    case 1
    with Cons(1) show ?case by (cases kv) (auto simp: hdr_keys)
  next
    case 2
    with Cons(2) show ?case by (cases kv) (auto simp: hdr_keys)
  }
qed simp_all

text \<open>\<open>hasHeaderValue\<close> and \<open>headerToken\<close> of \<open>transport.go\<close>.\<close>

definition has_header_value :: "go_unicode \<Rightarrow> go_headers \<Rightarrow> string \<Rightarrow> bool" where
  "has_header_value un hs name \<longleftrightarrow>
     list_ex (\<lambda>(k, vs). equal_fold un (ascii k) (ascii name) \<and> list_ex (\<lambda>v. trim v \<noteq> []) vs) hs"

definition header_token :: "go_unicode \<Rightarrow> go_headers \<Rightarrow> string \<Rightarrow> string \<Rightarrow> bool" where
  "header_token un hs name token \<longleftrightarrow>
     list_ex (\<lambda>(k, vs).
       equal_fold un (ascii k) (ascii name) \<and>
       list_ex (\<lambda>v. list_ex (\<lambda>part. equal_fold un (trim part) (ascii token)) (split_on 0x2C v)) vs) hs"

end
