(* ===== verification/Go_Transport.thy ===== *)
theory Go_Transport
  imports Go_Http Go_Text
begin

text \<open>
  \<open>httpclient/transport.go\<close>: the \<open>http.RoundTripper\<close> over the client. The state extends the client's:
  one transport and one request at a time; the request's context, its \<open>Cancel\<close> channel, the timeout
  and \<open>Transport.Close\<close> are events of other goroutines, at every point between two steps of
  \<open>RoundTrip\<close> and of the body's \<open>Read\<close>.
\<close>

subsection \<open>Data\<close>

text \<open>What the package uses of \<open>net/http\<close>, \<open>net/url\<close> and \<open>unicode\<close>: \<open>nt_url_text\<close> is
  \<open>URL.String\<close>.\<close>

record go_url =
  gu_scheme :: string
  gu_user :: "string option"
  gu_host :: string
  gu_path :: string
  gu_fragment :: string
  gu_raw_fragment :: string

record go_net =
  nt_unicode :: go_unicode
  nt_url_text :: "go_url \<Rightarrow> string"
  nt_status_text :: "nat \<Rightarrow> string"

text \<open>A request's body as \<open>io.ReadAll\<close> meets it: what its reads give, the error that ends them
  (\<open>None\<close>: \<open>io.EOF\<close>), and the one they give once it is closed, if closing it has an effect on them.\<close>

record go_upload =
  up_reads :: "bytes list"
  up_end :: "string option"
  up_closed :: "string option"

record net_request =
  nr_method :: string
  nr_url :: "go_url option"
  nr_host :: string
  nr_headers :: go_headers
  nr_body :: "go_upload option"
  nr_content_length :: int
  nr_transfer_encoding :: "string list"
  nr_trailer :: go_headers
  nr_request_uri :: string
  nr_close :: bool

record net_response =
  np_status :: string
  np_code :: nat
  np_proto :: string
  np_major :: nat
  np_minor :: nat
  np_headers :: "(string \<times> bytes) list"
  np_content_length :: int
  np_transfer_encoding :: "string list"
  np_close :: bool

text \<open>Errors: \<open>ErrTransportClosed\<close>, an error of the client (\<open>ErrBodyClosed\<close> is one), anything else,
  causes of contexts too, as a text.\<close>

datatype transport_fault =
    TfClosed
  | TfHttp http_fault
  | TfText string

abbreviation body_closed :: transport_fault where
  "body_closed \<equiv> TfHttp FaultBodyClosed"

record transport_body =
  tb_closed :: bool
  tb_terminal :: "transport_fault option"

datatype go_channel = NoChannel | OpenChannel | ClosedChannel

text \<open>The transport (the lifetime context is \<open>tp_over\<close> once cancelled), the request's own context and
  \<open>Cancel\<close> channel, and what one \<open>RoundTrip\<close> sets up: the operation's context is \<open>gh_ctx\<close> with its
  cause, \<open>tp_linked\<close> its \<open>AfterFunc\<close> on the lifetime, \<open>tp_deadline\<close> its timer, \<open>tp_watched\<close> the
  \<open>AfterFunc\<close> that closes the upload.\<close>

record ('t, 'c, 'k, 'h, 'n, 'm) go_transport = "('t, 'c, 'k, 'h, 'n, 'm) go_http" +
  tp_made :: bool
  tp_closed :: bool
  tp_timeout :: int
  tp_over :: bool
  tp_request :: "(string \<times> transport_fault) option"
  tp_channel :: go_channel
  tp_cause :: transport_fault
  tp_linked :: bool
  tp_deadline :: bool
  tp_watched :: bool
  tp_finished :: bool
  tp_upload :: bool
  tp_upload_done :: bool
  tp_uploads :: nat
  tp_body :: "transport_body option"

subsection \<open>The transport\<close>

definition transport_client ::
  "'j go_codec \<Rightarrow> ('t, 'c, 'k, 'h, 'n, 'm) bridge_env \<Rightarrow> unmarshal \<Rightarrow> go_http_options \<Rightarrow>
     ('t, 'c, 'k, 'h, 'n, 'm) go_transport \<Rightarrow>
     (transport_fault option \<times> ('t, 'c, 'k, 'h, 'n, 'm) go_transport) option" where
  "transport_client codec env um opts tr =
     map_option (\<lambda>(r, b).
         case r of
           Inl e \<Rightarrow> (Some (TfHttp e), tr\<lparr>gh_bridge := b\<rparr>)
         | Inr i \<Rightarrow> (None, tr\<lparr>gh_bridge := b, gh_client := i, tp_made := True, tp_over := False\<rparr>))
       (go_new_client codec env um opts (gh_bridge tr))"

definition new_transport where
  "new_transport codec env um opts tr =
     (if go_timeout opts < 0 then
        Some (Some (TfText ''httpclient: Timeout must not be negative''), tr)
      else if (case go_chatgpt_cookies opts of None \<Rightarrow> False | Some cs \<Rightarrow> cs \<noteq> []) then
        Some (Some (TfText
          ''httpclient: Transport cookies must be configured through http.Client.Jar or request headers''), tr)
      else
        transport_client codec env um (opts\<lparr>go_timeout := 0, go_disable_redirects := True\<rparr>)
          (tr\<lparr>tp_timeout := go_timeout opts, tp_closed := False\<rparr>))"

definition default_options :: go_http_options where
  "default_options =
     \<lparr>go_timeout = 0, go_proxy_policy = '''', go_proxy_url = '''', go_no_proxy = False,
      go_disable_redirects = False, go_user_agent = '''', go_chatgpt_cookies = None, go_tls_fallback = False\<rparr>"

definition transport_state where
  "transport_state codec env um tr =
     (if tp_closed tr then Some (Some TfClosed, tr)
      else if tp_made tr then Some (None, tr)
      else transport_client codec env um (default_options\<lparr>go_disable_redirects := True\<rparr>) tr)"

text \<open>\<open>closeUpload\<close>, once; and the end of the operation's context, with the two hooks set on it.\<close>

definition close_upload ::
  "('t, 'c, 'k, 'h, 'n, 'm) go_transport \<Rightarrow> ('t, 'c, 'k, 'h, 'n, 'm) go_transport" where
  "close_upload tr =
     (if tp_upload_done tr then tr
      else tr\<lparr>tp_upload_done := True, tp_uploads := (if tp_upload tr then Suc (tp_uploads tr) else tp_uploads tr)\<rparr>)"

definition run_upload_watch ::
  "('t, 'c, 'k, 'h, 'n, 'm) go_transport \<Rightarrow> ('t, 'c, 'k, 'h, 'n, 'm) go_transport" where
  "run_upload_watch tr = (if tp_watched tr \<and> gh_ctx tr \<noteq> LiveCtx then close_upload (tr\<lparr>tp_watched := False\<rparr>) else tr)"

definition transport_cancel ::
  "('t, 'c, 'k, 'h, 'n, 'm) bridge_env \<Rightarrow> unmarshal \<Rightarrow> string \<Rightarrow> transport_fault \<Rightarrow>
     ('t, 'c, 'k, 'h, 'n, 'm) go_transport \<Rightarrow> ('t, 'c, 'k, 'h, 'n, 'm) go_transport option" where
  "transport_cancel env um err cause tr =
     (if gh_ctx tr = LiveCtx
      then go_run_hook env um (run_upload_watch (tr\<lparr>gh_ctx := DoneCtx err, tp_cause := cause\<rparr>))
      else Some tr)"

abbreviation canceled :: string where
  "canceled \<equiv> ''context canceled''"

definition transport_close ::
  "('t, 'c, 'k, 'h, 'n, 'm) bridge_env \<Rightarrow> unmarshal \<Rightarrow> ('t, 'c, 'k, 'h, 'n, 'm) go_transport \<Rightarrow>
     (go_error option \<times> ('t, 'c, 'k, 'h, 'n, 'm) go_transport) option" where
  "transport_close env um tr =
     (if tp_closed tr then Some (None, tr)
      else if tp_made tr then go_client_close env um (tr\<lparr>tp_closed := True, tp_over := True\<rparr>)
      else Some (None, tr\<lparr>tp_closed := True\<rparr>))"

subsection \<open>The context of an operation\<close>

text \<open>\<open>transportContext\<close> and the \<open>finish\<close> it returns.\<close>

definition transport_context ::
  "('t, 'c, 'k, 'h, 'n, 'm) bridge_env \<Rightarrow> unmarshal \<Rightarrow> ('t, 'c, 'k, 'h, 'n, 'm) go_transport \<Rightarrow>
     ('t, 'c, 'k, 'h, 'n, 'm) go_transport option" where
  "transport_context env um tr =
     (let tr1 = (case tp_request tr of
                   None \<Rightarrow> tr\<lparr>tp_finished := False, gh_ctx := LiveCtx\<rparr>
                 | Some (err, cause) \<Rightarrow> tr\<lparr>tp_finished := False, gh_ctx := DoneCtx err, tp_cause := cause\<rparr>);
          tr2 = tr1\<lparr>tp_deadline := 0 < tp_timeout tr1 \<and> gh_ctx tr1 = LiveCtx\<rparr>
      in map_option (\<lambda>tr3. tr3\<lparr>tp_linked := True\<rparr>)
           (if tp_channel tr2 = ClosedChannel then transport_cancel env um canceled (TfText canceled) tr2
            else Some tr2))"

definition transport_finish ::
  "('t, 'c, 'k, 'h, 'n, 'm) bridge_env \<Rightarrow> unmarshal \<Rightarrow> ('t, 'c, 'k, 'h, 'n, 'm) go_transport \<Rightarrow>
     ('t, 'c, 'k, 'h, 'n, 'm) go_transport option" where
  "transport_finish env um tr =
     (if tp_finished tr then Some tr
      else transport_cancel env um canceled (TfText canceled)
             (tr\<lparr>tp_finished := True, tp_linked := False, tp_deadline := False\<rparr>))"

definition transport_error ::
  "('t, 'c, 'k, 'h, 'n, 'm) go_transport \<Rightarrow> transport_fault option \<Rightarrow> transport_fault option" where
  "transport_error tr err =
     (case tp_request tr of
        Some (e, cause) \<Rightarrow> Some cause
      | None \<Rightarrow>
          if tp_over tr then Some TfClosed
          else (case gh_ctx tr of DoneCtx m \<Rightarrow> Some (tp_cause tr) | _ \<Rightarrow> err))"

subsection \<open>The response body\<close>

definition transport_body_close where
  "transport_body_close env um tr =
     (case tp_body tr of
        None \<Rightarrow> Some (None, tr)
      | Some tb \<Rightarrow>
          Option.bind (go_body_close env um (tr\<lparr>tp_body := Some (tb\<lparr>tb_closed := True\<rparr>)\<rparr>)) (\<lambda>(err, tr1).
            map_option (Pair err) (transport_finish env um tr1)))"

text \<open>\<open>ev 0\<close> and \<open>ev 1\<close> come around the bridge's read, \<open>ev 2\<close> after the client's \<open>Read\<close>.\<close>

definition transport_body_read where
  "transport_body_read env um ev fire n tr =
     (case tp_body tr of
        None \<Rightarrow> None
      | Some tb \<Rightarrow>
          if tb_closed tb then Some (([], Some body_closed), tr)
          else if tb_terminal tb \<noteq> None then Some (([], tb_terminal tb), tr)
          else
            Option.bind (go_body_read env um ev fire n tr) (\<lambda>((data, err), tr1).
              case err of
                None \<Rightarrow> Some ((data, None), tr1)
              | Some e \<Rightarrow>
                  Option.bind (ev 2 tr1) (\<lambda>tr2.
                    let tb2 = the (tp_body tr2);
                        fault = (if tb_closed tb2 then Some body_closed else transport_error tr2 (Some (TfHttp e)))
                    in map_option (Pair (data, fault))
                         (transport_finish env um (tr2\<lparr>tp_body := Some (tb2\<lparr>tb_terminal := fault\<rparr>)\<rparr>)))))"

subsection \<open>What other goroutines do\<close>

datatype transport_event =
    TeRequest string transport_fault
  | TeChannel
  | TeDeadline
  | TeClose
  | TeLifetime
  | TeBodyClose

definition transport_event_step ::
  "('t, 'c, 'k, 'h, 'n, 'm) bridge_env \<Rightarrow> unmarshal \<Rightarrow> transport_event \<Rightarrow>
     ('t, 'c, 'k, 'h, 'n, 'm) go_transport \<Rightarrow> ('t, 'c, 'k, 'h, 'n, 'm) go_transport option" where
  "transport_event_step env um event tr =
     (case event of
        TeRequest err cause \<Rightarrow>
          (if tp_request tr = None
           then transport_cancel env um err cause (tr\<lparr>tp_request := Some (err, cause)\<rparr>) else Some tr)
      | TeChannel \<Rightarrow>
          (if tp_channel tr = OpenChannel
           then transport_cancel env um canceled (TfText canceled) (tr\<lparr>tp_channel := ClosedChannel\<rparr>) else Some tr)
      | TeDeadline \<Rightarrow>
          (if tp_deadline tr
           then transport_cancel env um ''context deadline exceeded'' (TfText ''context deadline exceeded'')
                  (tr\<lparr>tp_deadline := False\<rparr>) else Some tr)
      | TeClose \<Rightarrow> map_option snd (transport_close env um tr)
      | TeLifetime \<Rightarrow>
          (if tp_over tr \<and> tp_linked tr
           then transport_cancel env um canceled TfClosed (tr\<lparr>tp_linked := False\<rparr>) else Some tr)
      | TeBodyClose \<Rightarrow> map_option snd (transport_body_close env um tr))"

fun transport_events ::
  "('t, 'c, 'k, 'h, 'n, 'm) bridge_env \<Rightarrow> unmarshal \<Rightarrow> transport_event list \<Rightarrow>
     ('t, 'c, 'k, 'h, 'n, 'm) go_transport \<Rightarrow> ('t, 'c, 'k, 'h, 'n, 'm) go_transport option" where
  "transport_events env um [] tr = Some tr"
| "transport_events env um (event # events) tr =
     Option.bind (transport_event_step env um event tr) (transport_events env um events)"

subsection \<open>RoundTrip\<close>

text \<open>The checks before anything else, in order.\<close>

definition round_trip_check :: "go_net \<Rightarrow> net_request \<Rightarrow> string option" where
  "round_trip_check net req =
     (let un = nt_unicode net
      in case nr_url req of
        None \<Rightarrow> Some ''httpclient: nil request URL''
      | Some u \<Rightarrow>
          if gu_scheme u \<noteq> ''http'' \<and> gu_scheme u \<noteq> ''https'' then
            Some ''httpclient: URL must use http or https''
          else if gu_host u = '''' then Some ''httpclient: request URL has no host''
          else if gu_scheme u = ''https'' \<and> nr_host req \<noteq> '''' \<and>
                  \<not> equal_fold un (ascii (nr_host req)) (ascii (gu_host u)) then
            Some ''httpclient: HTTPS Host overrides are not supported by the SDK''
          else if nr_request_uri req \<noteq> '''' then
            Some ''httpclient: RequestURI must be empty in client requests''
          else if nr_content_length req < -1 then Some ''httpclient: invalid ContentLength''
          else if nr_method req = ''CONNECT'' \<or> has_header_value un (nr_headers req) ''Upgrade'' \<or>
                  header_token un (nr_headers req) ''Connection'' ''upgrade'' then
            Some ''httpclient: CONNECT and protocol upgrades are not supported''
          else if nr_trailer req \<noteq> [] \<or> has_header_value un (nr_headers req) ''Trailer'' then
            Some ''httpclient: request trailers are not supported''
          else if nr_transfer_encoding req \<noteq> [] \<and> nr_transfer_encoding req \<noteq> [''chunked''] then
            Some ''httpclient: unsupported request TransferEncoding''
          else None)"

text \<open>The request for the client: framing and Host headers of the caller are left out, those of the
  request's own fields put in.\<close>

definition dropped_header :: "go_unicode \<Rightarrow> string \<Rightarrow> bool" where
  "dropped_header un key \<longleftrightarrow>
     lower_is un (ascii key) ''host'' \<or> lower_is un (ascii key) ''content-length'' \<or>
     lower_is un (ascii key) ''transfer-encoding''"

definition transport_headers :: "'j go_codec \<Rightarrow> go_net \<Rightarrow> net_request \<Rightarrow> go_headers" where
  "transport_headers codec net req =
     (let canonical = gc_canonical codec;
          kept = concat (map (\<lambda>(key, vs).
                   if dropped_header (nt_unicode net) key then [] else map (Pair (canonical key)) vs)
                   (nr_headers req));
          h0 = foldl (\<lambda>h (key, v). hdr_add key v h) [] kept;
          h1 = (if nr_host req \<noteq> '''' then hdr_set (canonical ''Host'') (ascii (nr_host req)) h0 else h0);
          h2 = (if nr_close req then hdr_set (canonical ''Connection'') (ascii ''close'') h1 else h1)
      in if nr_transfer_encoding req \<noteq> []
         then hdr_set (canonical ''Transfer-Encoding'') (ascii ''chunked'') h2 else h2)"

definition transport_request ::
  "'j go_codec \<Rightarrow> go_net \<Rightarrow> net_request \<Rightarrow> go_url \<Rightarrow> bytes option \<Rightarrow> 'j go_request" where
  "transport_request codec net req u body =
     \<lparr>gr_method = nr_method req,
      gr_url = nt_url_text net (u\<lparr>gu_user := None, gu_fragment := '''', gu_raw_fragment := ''''\<rparr>),
      gr_headers = transport_headers codec net req, gr_body = body, gr_json = None\<rparr>"

text \<open>The \<open>http.Response\<close> of a client's response; \<open>None\<close>: a protocol net/http cannot carry.\<close>

definition pair_headers :: "(string \<times> bytes) list \<Rightarrow> go_headers" where
  "pair_headers hs = map (\<lambda>(name, v). (name, [v])) hs"

definition transport_length :: "net_request \<Rightarrow> go_response \<Rightarrow> int" where
  "transport_length req resp =
     (if nr_method req = ''HEAD'' then
        (case map_of (gp_headers resp) ''Content-Length'' of
           None \<Rightarrow> -1
         | Some text \<Rightarrow>
             if text = [] then -1
             else (case go_parse_int text of None \<Rightarrow> -1 | Some n \<Rightarrow> if 0 \<le> n then n else -1))
      else gp_content_length resp)"

definition transport_response :: "go_net \<Rightarrow> net_request \<Rightarrow> go_response \<Rightarrow> net_response option" where
  "transport_response net req resp =
     (case parse_http_version (gp_protocol resp) of
        None \<Rightarrow> None
      | Some (major, minor) \<Rightarrow>
          if gp_status resp = 101 then None
          else
            (let un = nt_unicode net; hs = pair_headers (gp_headers resp);
                 text = nt_status_text net (gp_status resp);
                 len = transport_length req resp;
                 chunked = header_token un hs ''Transfer-Encoding'' ''chunked'';
                 headers = (if chunked then filter (\<lambda>(name, v). name \<noteq> ''Transfer-Encoding'') (gp_headers resp)
                            else gp_headers resp);
                 rest = pair_headers headers;
                 close = (nr_close req \<or> header_token un rest ''Connection'' ''close'' \<or>
                          (major = 1 \<and> minor = 0 \<and> \<not> header_token un rest ''Connection'' ''keep-alive''))
             in Some
                  \<lparr>np_status = show_nat (gp_status resp) @ (if text = '''' then '''' else '' '' @ text),
                   np_code = gp_status resp, np_proto = gp_protocol resp, np_major = major, np_minor = minor,
                   np_headers = headers, np_content_length = len,
                   np_transfer_encoding = (if chunked then [''chunked''] else []),
                   np_close = (close \<or> (major = 1 \<and> len < 0 \<and> \<not> chunked \<and> nr_method req \<noteq> ''HEAD''))\<rparr>))"

text \<open>\<open>io.ReadAll\<close> of the upload, with events before each read.\<close>

fun read_upload ::
  "(nat \<Rightarrow> ('t, 'c, 'k, 'h, 'n, 'm) go_transport \<Rightarrow> ('t, 'c, 'k, 'h, 'n, 'm) go_transport option) \<Rightarrow>
     go_upload \<Rightarrow> nat \<Rightarrow> bytes list \<Rightarrow> ('t, 'c, 'k, 'h, 'n, 'm) go_transport \<Rightarrow>
     ((bytes \<times> string option) \<times> ('t, 'c, 'k, 'h, 'n, 'm) go_transport) option" where
  "read_upload ev up k reads tr =
     Option.bind (ev k tr) (\<lambda>tr1.
       if tp_upload_done tr1 \<and> up_closed up \<noteq> None then Some (([], up_closed up), tr1)
       else case reads of
              [] \<Rightarrow> Some (([], up_end up), tr1)
            | d # ds \<Rightarrow> map_option (\<lambda>((bs, e), tr2). ((d @ bs, e), tr2)) (read_upload ev up (Suc k) ds tr1))"

declare read_upload.simps [simp del]

text \<open>The upload: watched by the context while it is read, closed afterwards.\<close>

definition take_upload where
  "take_upload ev upload tr =
     (case upload of
        None \<Rightarrow> Some (Inr None, tr)
      | Some up \<Rightarrow>
          map_option (\<lambda>((bs, e), tr1).
              let tr2 = close_upload (tr1\<lparr>tp_watched := False\<rparr>)
              in case transport_error tr2 (map_option TfText e) of
                   Some fault \<Rightarrow> (Inl fault, tr2)
                 | None \<Rightarrow> (Inr (Some bs), tr2))
            (read_upload ev up 5 (up_reads up) (run_upload_watch (tr\<lparr>tp_watched := True\<rparr>))))"

definition length_mismatch :: "net_request \<Rightarrow> nat \<Rightarrow> string option" where
  "length_mismatch req len =
     (if nr_transfer_encoding req = [] \<and> 0 < nr_content_length req \<and> int len \<noteq> nr_content_length req
      then Some (''httpclient: ContentLength='' @ show_nat (nat (nr_content_length req)) @
                 '' with Body length '' @ show_nat len)
      else None)"

text \<open>From the operation's context to the response.\<close>

definition transport_exchange where
  "transport_exchange net codec env um ev fire req u tr =
     (case transport_error tr None of
        Some fault \<Rightarrow> Some (Inl fault, tr)
      | None \<Rightarrow>
          Option.bind (take_upload ev (nr_body req) tr) (\<lambda>(upload, tr1).
            case upload of
              Inl fault \<Rightarrow> Some (Inl fault, tr1)
            | Inr body \<Rightarrow>
                (case length_mismatch req (length (case body of None \<Rightarrow> [] | Some bs \<Rightarrow> bs)) of
                   Some message \<Rightarrow> Some (Inl (TfText message), tr1)
                 | None \<Rightarrow>
                     Option.bind (go_do codec env um ev fire (transport_request codec net req u body) tr1) (\<lambda>(r, tr2).
                       case r of
                         Inl e \<Rightarrow> Some (Inl (the (transport_error tr2 (Some (TfHttp e)))), tr2)
                       | Inr resp \<Rightarrow>
                           (case transport_response net req resp of
                              None \<Rightarrow>
                                map_option (\<lambda>(_, tr3). (Inl (TfText ''httpclient: unsupported response protocol''), tr3))
                                  (go_body_close env um tr2)
                            | Some nresp \<Rightarrow>
                                Some (Inr nresp, tr2\<lparr>tp_body := Some \<lparr>tb_closed = False, tb_terminal = None\<rparr>\<rparr>))))))"

text \<open>What a call starts from: nothing set up yet, no body closed.\<close>

definition begin_round_trip where
  "begin_round_trip upload tr =
     tr\<lparr>gh_hook := None, gh_body := None, tp_linked := False, tp_deadline := False, tp_watched := False,
        tp_finished := False, tp_upload := upload, tp_upload_done := False, tp_uploads := 0, tp_body := None\<rparr>"

text \<open>\<open>RoundTrip\<close> with its two deferred calls; \<open>ev 3\<close> comes before, \<open>ev 4\<close> after the context is made.\<close>

definition round_trip_inner where
  "round_trip_inner net codec env um ev fire req tr =
     (case round_trip_check net req of
        Some message \<Rightarrow> Some (Inl (TfText message), tr)
      | None \<Rightarrow>
          Option.bind (transport_state codec env um tr) (\<lambda>(failed, tr1).
            case failed of
              Some fault \<Rightarrow> Some (Inl fault, tr1)
            | None \<Rightarrow>
                Option.bind (ev 3 tr1) (\<lambda>tr2.
                Option.bind (transport_context env um tr2) (\<lambda>tr3.
                Option.bind (ev 4 tr3) (\<lambda>tr4.
                Option.bind (transport_exchange net codec env um ev fire req (the (nr_url req)) tr4) (\<lambda>(r, tr5).
                  case r of
                    Inl fault \<Rightarrow> map_option (Pair (Inl fault)) (transport_finish env um tr5)
                  | Inr nresp \<Rightarrow> Some (Inr nresp, tr5)))))))"

definition go_round_trip where
  "go_round_trip net codec env um ev fire request tr =
     (case request of
        None \<Rightarrow> Some (Inl (TfText ''httpclient: nil request''), tr)
      | Some req \<Rightarrow>
          map_option (\<lambda>(r, tr'). (r, close_upload tr'))
            (round_trip_inner net codec env um ev fire req (begin_round_trip (nr_body req \<noteq> None) tr)))"

subsection \<open>What the steps keep\<close>

text \<open>\<open>closeUpload\<close> has closed the body exactly if it has run.\<close>

definition once_ok :: "('t, 'c, 'k, 'h, 'n, 'm) go_transport \<Rightarrow> bool" where
  "once_ok tr \<longleftrightarrow> tp_uploads tr = (if tp_upload_done tr \<and> tp_upload tr then 1 else 0)"

text \<open>The transport's own fields as others may change them: hooks and timers go, what is closed,
  over or finished stays so, an ended context keeps its error and its cause.\<close>

definition tbody_le :: "transport_body option \<Rightarrow> transport_body option \<Rightarrow> bool" where
  "tbody_le = rel_option (\<lambda>tb tb'. tb_terminal tb' = tb_terminal tb \<and> (tb_closed tb \<longrightarrow> tb_closed tb'))"

definition done_ctx :: "('t, 'c, 'k, 'h, 'n, 'm) go_transport \<Rightarrow> bool" where
  "done_ctx tr \<longleftrightarrow> gh_ctx tr \<noteq> LiveCtx \<and> \<not> tp_linked tr \<and> \<not> tp_deadline tr"

definition shell_le ::
  "('t, 'c, 'k, 'h, 'n, 'm) go_transport \<Rightarrow> ('t, 'c, 'k, 'h, 'n, 'm) go_transport \<Rightarrow> bool" where
  "shell_le tr tr' \<longleftrightarrow>
     tp_upload tr' = tp_upload tr \<and> tp_made tr' = tp_made tr \<and> (once_ok tr \<longrightarrow> once_ok tr') \<and>
     (tp_watched tr' \<longrightarrow> tp_watched tr) \<and> (tp_linked tr' \<longrightarrow> tp_linked tr) \<and> (tp_deadline tr' \<longrightarrow> tp_deadline tr) \<and>
     (tp_finished tr \<longrightarrow> tp_finished tr') \<and>
     (tp_finished tr' \<longrightarrow> tp_finished tr \<or> done_ctx tr') \<and> (tp_closed tr \<longrightarrow> tp_closed tr') \<and> (tp_over tr \<longrightarrow> tp_over tr') \<and>
     (\<forall>x. tp_request tr = Some x \<longrightarrow> tp_request tr' = Some x) \<and>
     (gh_ctx tr \<noteq> LiveCtx \<longrightarrow> gh_ctx tr' = gh_ctx tr \<and> tp_cause tr' = tp_cause tr) \<and>
     tbody_le (tp_body tr) (tp_body tr')"

lemma tbody_le_refl [simp]: "tbody_le tb tb"
  by (simp add: tbody_le_def option.rel_refl)

lemma tbody_le_trans: "tbody_le a b \<Longrightarrow> tbody_le b c \<Longrightarrow> tbody_le a c"
  unfolding tbody_le_def by (erule option.rel_cases; erule option.rel_cases) auto

lemma shell_le_refl [simp]: "shell_le tr tr"
  by (simp add: shell_le_def)

lemma shell_leD:
  assumes "shell_le tr tr'"
  shows "tp_upload tr' = tp_upload tr" "tp_made tr' = tp_made tr" "once_ok tr \<Longrightarrow> once_ok tr'"
    "tp_watched tr' \<Longrightarrow> tp_watched tr" "tp_linked tr' \<Longrightarrow> tp_linked tr" "tp_deadline tr' \<Longrightarrow> tp_deadline tr"
    "tp_finished tr \<Longrightarrow> tp_finished tr'" "tp_finished tr' \<Longrightarrow> tp_finished tr \<or> done_ctx tr'"
    "tp_closed tr \<Longrightarrow> tp_closed tr'" "tp_over tr \<Longrightarrow> tp_over tr'"
    "tp_request tr = Some x \<Longrightarrow> tp_request tr' = Some x"
    "gh_ctx tr \<noteq> LiveCtx \<Longrightarrow> gh_ctx tr' = gh_ctx tr" "gh_ctx tr \<noteq> LiveCtx \<Longrightarrow> tp_cause tr' = tp_cause tr"
    "tbody_le (tp_body tr) (tp_body tr')"
  using assms unfolding shell_le_def by blast+

lemma shell_le_done: "shell_le a b \<Longrightarrow> done_ctx a \<Longrightarrow> done_ctx b"
  unfolding done_ctx_def by (metis shell_leD(5,6,12))

lemma shell_le_trans:
  assumes ab: "shell_le a b" and bc: "shell_le b c"
  shows "shell_le a c"
proof -
  note A = shell_leD [OF ab] and B = shell_leD [OF bc]
  have "tp_finished c \<longrightarrow> tp_finished a \<or> done_ctx c"
    using A(8) B(8) shell_le_done [OF bc] by blast
  moreover have "gh_ctx a \<noteq> LiveCtx \<longrightarrow> gh_ctx c = gh_ctx a \<and> tp_cause c = tp_cause a"
    using A(12,13) B(12,13) by metis
  moreover have "tp_upload c = tp_upload a" "tp_made c = tp_made a"
    using A(1,2) B(1,2) by simp_all
  moreover note tbody_le_trans [OF A(14) B(14)]
  ultimately show ?thesis
    unfolding shell_le_def by (intro conjI) (assumption | blast dest: A(3-7,9-11) B(3-7,9-11))+
qed

lemma shell_le_stable: "go_stable (shell_le tr)"
  by (simp add: go_stable_def shell_le_def once_ok_def done_ctx_def)

lemmas shell_defs = shell_le_def once_ok_def done_ctx_def

text \<open>Two facts for each step: whatever it returns, the fields are as above; and it returns, and at
  most closes what is open (\<open>go_le\<close>).\<close>

lemma go_le_fields: "calm tr \<Longrightarrow> gh_bridge tr' = gh_bridge tr \<Longrightarrow> gh_body tr' = gh_body tr \<Longrightarrow>
    gh_hook tr' = gh_hook tr \<Longrightarrow> go_le tr tr'"
  by (simp add: go_le_def calm_def open_handles_def)

lemma go_le_calm: "go_le a b \<Longrightarrow> calm b"
  by (simp add: go_le_def)

lemma close_upload_shell: "shell_le tr (close_upload tr)"
  by (simp add: shell_defs close_upload_def)

lemma close_upload_le: "calm tr \<Longrightarrow> go_le tr (close_upload tr)"
  by (simp add: close_upload_def go_le_fields)

lemma run_upload_watch_shell: "shell_le tr (run_upload_watch tr) \<and> gh_ctx (run_upload_watch tr) = gh_ctx tr"
  by (simp add: shell_defs run_upload_watch_def close_upload_def)

lemma run_upload_watch_le: "calm tr \<Longrightarrow> go_le tr (run_upload_watch tr)"
  by (simp add: run_upload_watch_def close_upload_def go_le_fields)

lemma transport_cancel_shell:
  assumes "transport_cancel env um err cause tr = Some tr'"
  shows "shell_le tr tr'" "gh_ctx tr' \<noteq> LiveCtx" "tp_finished tr' = tp_finished tr"
proof -
  let ?tr = "tr\<lparr>gh_ctx := DoneCtx err, tp_cause := cause\<rparr>"
  let ?I = "\<lambda>x. shell_le (run_upload_watch ?tr) x \<and> tp_finished x = tp_finished tr"
  have stable: "go_stable ?I"
    unfolding go_stable_def by (simp add: go_stableD [OF shell_le_stable])
  have start: "?I (run_upload_watch ?tr)" by (simp add: run_upload_watch_def close_upload_def)
  have "shell_le tr tr' \<and> gh_ctx tr' \<noteq> LiveCtx \<and> tp_finished tr' = tp_finished tr"
  proof (cases "gh_ctx tr = LiveCtx")
    case True
    with assms have "?I tr'"
      using go_run_hook_stable [OF _ stable start] by (simp add: transport_cancel_def)
    then have rest: "shell_le (run_upload_watch ?tr) tr'" "tp_finished tr' = tp_finished tr" by simp_all
    have "shell_le tr ?tr" using True by (simp add: shell_defs)
    note chain = shell_le_trans [OF shell_le_trans [OF this conjunct1 [OF run_upload_watch_shell]] rest(1)]
    have "gh_ctx (run_upload_watch ?tr) = DoneCtx err" using run_upload_watch_shell [of ?tr] by simp
    with shell_leD(12) [OF rest(1)] have "gh_ctx tr' = DoneCtx err" by simp
    with chain rest(2) show ?thesis by simp
  qed (use assms in \<open>simp add: transport_cancel_def\<close>)
  then show "shell_le tr tr'" "gh_ctx tr' \<noteq> LiveCtx" "tp_finished tr' = tp_finished tr" by simp_all
qed

lemma transport_cancel_runs:
  assumes "calm tr" "serialises env"
  shows "\<exists>tr'. transport_cancel env um err cause tr = Some tr' \<and> go_le tr tr'"
proof (cases "gh_ctx tr = LiveCtx")
  case True
  let ?tr = "tr\<lparr>gh_ctx := DoneCtx err, tp_cause := cause\<rparr>"
  have "go_le tr ?tr" using assms(1) by (simp add: go_le_fields)
  from go_le_trans [OF this run_upload_watch_le [OF go_le_calm [OF this]]]
  have le: "go_le tr (run_upload_watch ?tr)" .
  from go_run_hook_keeps [OF go_le_calm [OF le] assms(2), of um] obtain tr' where
    "go_run_hook env um (run_upload_watch ?tr) = Some tr'" "go_le (run_upload_watch ?tr) tr'" by metis
  with True go_le_trans [OF le] show ?thesis by (simp add: transport_cancel_def)
qed (use assms in \<open>simp add: transport_cancel_def go_le_refl\<close>)

lemma transport_finish_shell:
  assumes "transport_finish env um tr = Some tr'"
  shows "shell_le tr tr'" "tp_finished tr'" "(tp_finished tr \<Longrightarrow> done_ctx tr) \<Longrightarrow> done_ctx tr'"
proof -
  let ?tr = "tr\<lparr>tp_finished := True, tp_linked := False, tp_deadline := False\<rparr>"
  have "shell_le tr tr' \<and> tp_finished tr' \<and> ((tp_finished tr \<longrightarrow> done_ctx tr) \<longrightarrow> done_ctx tr')"
  proof (cases "tp_finished tr")
    case False
    with assms have "transport_cancel env um canceled (TfText canceled) ?tr = Some tr'"
      by (simp add: transport_finish_def)
    note cancelled = transport_cancel_shell [OF this]
    note D = shell_leD [OF cancelled(1)]
    have over: "tp_finished tr'" "done_ctx tr'"
      using cancelled(2,3) D(5,6) by (auto simp: done_ctx_def)
    with cancelled(1) show ?thesis by (simp add: shell_le_def once_ok_def)
  qed (use assms in \<open>simp add: transport_finish_def\<close>)
  then show "shell_le tr tr'" "tp_finished tr'" "(tp_finished tr \<Longrightarrow> done_ctx tr) \<Longrightarrow> done_ctx tr'" by simp_all
qed

lemma transport_finish_runs:
  assumes "calm tr" "serialises env"
  shows "\<exists>tr'. transport_finish env um tr = Some tr' \<and> go_le tr tr'"
proof (cases "tp_finished tr")
  case False
  let ?tr = "tr\<lparr>tp_finished := True, tp_linked := False, tp_deadline := False\<rparr>"
  have le: "go_le tr ?tr" using assms(1) by (simp add: go_le_fields)
  from transport_cancel_runs [OF go_le_calm [OF le] assms(2)] go_le_trans [OF le] show ?thesis
    using False by (fastforce simp: transport_finish_def)
qed (use assms in \<open>simp add: transport_finish_def go_le_refl\<close>)

lemma transport_close_shell:
  assumes "transport_close env um tr = Some (e, tr')"
  shows "shell_le tr tr'"
proof -
  have "shell_le tr (tr\<lparr>tp_closed := True\<rparr>)" "shell_le tr (tr\<lparr>tp_closed := True, tp_over := True\<rparr>)"
    by (simp_all add: shell_defs)
  with assms show ?thesis
    by (auto simp: transport_close_def split: if_splits
        intro: go_client_close_stable [OF _ shell_le_stable])
qed

lemma transport_close_runs:
  assumes "calm tr" "serialises env"
  shows "\<exists>e tr'. transport_close env um tr = Some (e, tr') \<and> go_le tr tr'"
proof -
  let ?tr = "tr\<lparr>tp_closed := True, tp_over := True\<rparr>"
  have le: "go_le tr ?tr" "go_le tr (tr\<lparr>tp_closed := True\<rparr>)" using assms(1) by (simp_all add: go_le_fields)
  from go_client_close_keeps [OF go_le_calm [OF le(1)] assms(2), of um] obtain e tr' where
    "go_client_close env um ?tr = Some (e, tr')" "go_le ?tr tr'" by metis
  with go_le_trans [OF le(1)] le(2) assms(1) show ?thesis
    by (auto simp: transport_close_def go_le_refl)
qed

lemma transport_body_close_shell:
  assumes "transport_body_close env um tr = Some (e, tr')"
  shows "shell_le tr tr'"
proof (cases "tp_body tr")
  case (Some tb)
  let ?tr = "tr\<lparr>tp_body := Some (tb\<lparr>tb_closed := True\<rparr>)\<rparr>"
  from assms Some obtain tr1 where tr1: "go_body_close env um ?tr = Some (e, tr1)"
    "transport_finish env um tr1 = Some tr'"
    by (auto simp: transport_body_close_def bind_eq_Some_conv)
  have "shell_le tr ?tr" using Some by (simp add: shell_defs tbody_le_def)
  from go_body_close_stable [OF tr1(1) shell_le_stable this] transport_finish_shell(1) [OF tr1(2)]
  show ?thesis by (rule shell_le_trans)
qed (use assms in \<open>simp add: transport_body_close_def\<close>)

lemma transport_body_close_runs:
  assumes "calm tr" "serialises env"
  shows "\<exists>e tr'. transport_body_close env um tr = Some (e, tr') \<and> go_le tr tr'"
proof (cases "tp_body tr")
  case (Some tb)
  let ?tr = "tr\<lparr>tp_body := Some (tb\<lparr>tb_closed := True\<rparr>)\<rparr>"
  have le: "go_le tr ?tr" using assms(1) by (simp add: go_le_fields)
  from go_body_close_keeps [OF go_le_calm [OF le] assms(2), of um] obtain tr1 where
    tr1: "go_body_close env um ?tr = Some (None, tr1)" "go_le ?tr tr1" by metis
  from transport_finish_runs [OF go_le_calm [OF tr1(2)] assms(2)] obtain tr' where
    "transport_finish env um tr1 = Some tr'" "go_le tr1 tr'" by blast
  with Some tr1(1) go_le_trans [OF le go_le_trans [OF tr1(2)]] show ?thesis
    by (simp add: transport_body_close_def)
qed (use assms in \<open>simp add: transport_body_close_def go_le_refl\<close>)

lemma transport_event_shell:
  assumes "transport_event_step env um event tr = Some tr'"
  shows "shell_le tr tr'"
proof -
  have cancel: "shell_le tr tr'" if "transport_cancel env um err cause x = Some tr'" "shell_le tr x" for err cause x
    using transport_cancel_shell(1) [OF that(1)] that(2) shell_le_trans by blast
  have starts: "tp_request tr = None \<Longrightarrow> shell_le tr (tr\<lparr>tp_request := Some x\<rparr>)"
    "shell_le tr (tr\<lparr>tp_channel := c\<rparr>)" "shell_le tr (tr\<lparr>tp_deadline := False\<rparr>)"
    "shell_le tr (tr\<lparr>tp_linked := False\<rparr>)" for x c
    by (simp_all add: shell_defs)
  from assms show ?thesis
    by (cases event)
       (auto simp: transport_event_step_def split: if_splits
         intro: transport_close_shell transport_body_close_shell cancel [OF _ starts(1)] cancel [OF _ starts(2)]
           cancel [OF _ starts(3)] cancel [OF _ starts(4)])
qed

lemma transport_event_runs:
  assumes "calm tr" "serialises env"
  shows "\<exists>tr'. transport_event_step env um event tr = Some tr' \<and> go_le tr tr'"
proof -
  have cancel: "\<exists>tr'. transport_cancel env um err cause x = Some tr' \<and> go_le tr tr'" if "go_le tr x" for err cause x
    using transport_cancel_runs [OF go_le_calm [OF that] assms(2)] go_le_trans [OF that] by blast
  have starts: "go_le tr (tr\<lparr>tp_request := x\<rparr>)" "go_le tr (tr\<lparr>tp_channel := c\<rparr>)" "go_le tr (tr\<lparr>tp_deadline := False\<rparr>)"
    "go_le tr (tr\<lparr>tp_linked := False\<rparr>)" for x c
    using assms(1) by (simp_all add: go_le_fields)
  note refl = go_le_refl [OF assms(1)]
  show ?thesis
  proof (cases event)
    case TeClose
    with transport_close_runs [OF assms, of um] show ?thesis by (auto simp: transport_event_step_def)
  next
    case TeBodyClose
    with transport_body_close_runs [OF assms, of um] show ?thesis by (auto simp: transport_event_step_def)
  qed (use refl cancel [OF starts(1)] cancel [OF starts(2)] cancel [OF starts(3)] cancel [OF starts(4)]
       in \<open>simp_all add: transport_event_step_def\<close>)
qed

text \<open>What \<open>RoundTrip\<close> and \<open>Read\<close> suppose of the other goroutines: the client's contract, and that the
  transport's own fields change only as above.\<close>

locale transport_goroutines = goroutines env ev
  for env :: "('t, 'c, 'k, 'h, 'n, 'm) bridge_env"
    and ev :: "nat \<Rightarrow> ('t, 'c, 'k, 'h, 'n, 'm) go_transport \<Rightarrow> ('t, 'c, 'k, 'h, 'n, 'm) go_transport option" +
  assumes shell: "ev k tr = Some tr' \<Longrightarrow> shell_le tr tr'"

lemma transport_events_kept:
  assumes "calm tr" "serialises env"
  shows "\<exists>tr'. transport_events env um events tr = Some tr' \<and> go_le tr tr'"
  using assms(1)
proof (induction events arbitrary: tr)
  case Nil
  then show ?case by (simp add: go_le_refl)
next
  case (Cons event events)
  obtain tr1 where one: "transport_event_step env um event tr = Some tr1" "go_le tr tr1"
    using transport_event_runs [OF Cons.prems assms(2)] by blast
  from Cons.IH [OF go_le_calm [OF one(2)]] one go_le_trans show ?case by fastforce
qed

lemma transport_events_shell: "transport_events env um events tr = Some tr' \<Longrightarrow> shell_le tr tr'"
  by (induction events arbitrary: tr)
     (auto simp: bind_eq_Some_conv dest: transport_event_shell intro: shell_le_trans)

interpretation transport: transport_goroutines env "\<lambda>k. transport_events env um (events k)"
  by unfold_locales (rule transport_events_kept, assumption+, rule transport_events_shell)

interpretation undisturbed: transport_goroutines env quiet
  by unfold_locales simp

subsection \<open>RoundTrip returns and releases\<close>

lemma http_create_calls:
  assumes "http_create sdk api build data cell w = (r, cell', w')"
  shows "hw_calls w' = hw_calls w \<and> hw_poisoned w' = hw_poisoned w"
proof -
  have register: "hw_calls w2 = hw_calls w1 \<and> hw_poisoned w2 = hw_poisoned w1"
    if reg: "http_register api inner cfg ua w1 = (x, w2)" for inner cfg ua x and w1 w2 :: "('a, 'b, 'c) http_world"
  proof -
    obtain h t where new: "tok_new api (hw_tokens w1) = (h, t)" by (cases "tok_new api (hw_tokens w1)")
    from reg new show ?thesis by (cases rule: http_register_cases) simp_all
  qed
  from assms show ?thesis
    by (auto simp: http_create_def run_def http_create_task_def
        split: sum.splits prod.splits task.splits dest!: register)
qed

lemma bridge_client_new_keeps:
  assumes "calm g" "serialises env"
  obtains i err b where "bridge_http_client_new env um config (gh_bridge g) = Some ((i, err), b)"
    "calm (g\<lparr>gh_bridge := b\<rparr>)" "open_handles (g\<lparr>gh_bridge := b\<rparr>) = open_handles g"
proof -
  let ?b = "gh_bridge g" and ?call = "HttpClientNew (go_ptr config) (length config)"
  obtain x c w0 where n: "http_create (en_http env) (en_tokens env) (en_build env) config (br_runtime ?b) (br_http ?b) = (x, c, w0)"
    using prod_cases3 by blast
  have "\<exists>r c w. abi_closure env ?call ?b = Some (r, ?b\<lparr>br_http := w, br_runtime := c\<rparr>) \<and>
      hw_poisoned w = hw_poisoned (br_http ?b) \<and> hw_calls w = hw_calls (br_http ?b)"
  proof (cases "length config \<le> isize_max")
    case True
    with n http_create_calls [OF n] show ?thesis
      by (intro exI [of _ x] exI [of _ c] exI [of _ w0]) (simp add: exported_defs http_task_def)
  next
    case False
    then have "abi_closure env ?call ?b = Some (Inl (invalid ''invalid input buffer''), ?b)"
      by (intro abi_closure_refused) (auto simp: refused_input_def)
    then show ?thesis
      by (intro exI [of _ "Inl (invalid ''invalid input buffer'')"] exI [of _ "br_runtime ?b"]
          exI [of _ "br_http ?b"]) simp
  qed
  then obtain r c w where r: "abi_closure env ?call ?b = Some (r, ?b\<lparr>br_http := w, br_runtime := c\<rparr>)"
    "hw_poisoned w = hw_poisoned (br_http ?b)" "hw_calls w = hw_calls (br_http ?b)" by blast
  obtain b where b: "go_invoke env um ?call ?b = Some (go_answer (en_to_vec env) um r, b)" "http_after ?b c w b"
    using go_invoke_http [OF r(1) _ assms(2), of um] assms(1) by (auto simp: calm_def)
  with that [of "fst (go_answer (en_to_vec env) um r)" "snd (snd (go_answer (en_to_vec env) um r))" b]
    r(2,3) http_after_sel [OF b(2)] assms(1)
  show ?thesis by (simp add: bridge_http_client_new_def only_handle_def calm_def open_handles_def)
qed

lemma go_new_client_keeps:
  assumes "calm g" "serialises env"
  obtains r b where "go_new_client codec env um opts (gh_bridge g) = Some (r, b)"
    "calm (g\<lparr>gh_bridge := b\<rparr>)" "open_handles (g\<lparr>gh_bridge := b\<rparr>) = open_handles g"
proof (cases "\<exists>f. go_new_client codec env um opts (gh_bridge g) = Some (Inl f, gh_bridge g)")
  case True
  with that [of _ "gh_bridge g"] assms show ?thesis by auto
next
  case False
  then obtain config where c: "go_new_client codec env um opts (gh_bridge g) =
      map_option (\<lambda>((i, err), b'). (case err of None \<Rightarrow> Inr i | Some e \<Rightarrow> Inl (FaultBridge e), b'))
        (bridge_http_client_new env um config (gh_bridge g))"
    by (auto simp: go_new_client_def Let_def split: if_splits sum.splits)
  from bridge_client_new_keeps [OF assms, of um config] obtain i err b where
    b: "bridge_http_client_new env um config (gh_bridge g) = Some ((i, err), b)"
      "calm (g\<lparr>gh_bridge := b\<rparr>)" "open_handles (g\<lparr>gh_bridge := b\<rparr>) = open_handles g" .
  show ?thesis
    by (rule that [of "case err of None \<Rightarrow> Inr i | Some e \<Rightarrow> Inl (FaultBridge e)" b]) (simp_all add: c b)
qed

lemma transport_state_runs:
  assumes "calm tr" "serialises env"
  shows "\<exists>failed b c m ov. transport_state codec env um tr =
      Some (failed, tr\<lparr>gh_bridge := b, gh_client := c, tp_made := m, tp_over := ov\<rparr>) \<and>
    calm (tr\<lparr>gh_bridge := b\<rparr>) \<and> open_handles (tr\<lparr>gh_bridge := b\<rparr>) = open_handles tr"
proof (cases "tp_closed tr \<or> tp_made tr")
  case True
  then obtain failed where "transport_state codec env um tr = Some (failed, tr)"
    by (cases "tp_closed tr") (auto simp: transport_state_def)
  with assms(1) show ?thesis
    by (intro exI [of _ failed] exI [of _ "gh_bridge tr"] exI [of _ "gh_client tr"] exI [of _ "tp_made tr"]
        exI [of _ "tp_over tr"]) simp
next
  case False
  from go_new_client_keeps [OF assms, of codec um "default_options\<lparr>go_disable_redirects := True\<rparr>"] obtain r b where
    r: "go_new_client codec env um (default_options\<lparr>go_disable_redirects := True\<rparr>) (gh_bridge tr) = Some (r, b)"
      "calm (tr\<lparr>gh_bridge := b\<rparr>)" "open_handles (tr\<lparr>gh_bridge := b\<rparr>) = open_handles tr" .
  show ?thesis
  proof (cases r)
    case (Inl e)
    with r False show ?thesis
      by (intro exI [of _ "Some (TfHttp e)"] exI [of _ b] exI [of _ "gh_client tr"] exI [of _ "tp_made tr"]
          exI [of _ "tp_over tr"]) (simp add: transport_state_def transport_client_def)
  next
    case (Inr i)
    with r False show ?thesis
      by (intro exI [of _ None] exI [of _ b] exI [of _ i] exI [of _ True] exI [of _ False])
         (simp add: transport_state_def transport_client_def)
  qed
qed

lemma transport_context_runs:
  assumes "calm tr" "serialises env"
  shows "\<exists>tr'. transport_context env um tr = Some tr' \<and> go_le tr tr' \<and> (once_ok tr \<longrightarrow> once_ok tr') \<and>
    tp_upload tr' = tp_upload tr \<and> (tp_watched tr' \<longrightarrow> tp_watched tr) \<and> \<not> tp_finished tr'"
proof -
  let ?cancel = "\<lambda>tr2. map_option (\<lambda>x. x\<lparr>tp_linked := True\<rparr>)
        (if tp_channel tr2 = ClosedChannel then transport_cancel env um canceled (TfText canceled) tr2 else Some tr2)"
  have "\<exists>tr2. transport_context env um tr = ?cancel tr2 \<and>
      go_le tr tr2 \<and> once_ok tr2 = once_ok tr \<and> tp_upload tr2 = tp_upload tr \<and> tp_watched tr2 = tp_watched tr \<and>
      \<not> tp_finished tr2"
  proof (cases "tp_request tr")
    case None
    with assms(1) show ?thesis
      by (intro exI [of _ "tr\<lparr>tp_finished := False, gh_ctx := LiveCtx, tp_deadline := 0 < tp_timeout tr\<rparr>"])
         (simp add: transport_context_def Let_def go_le_fields once_ok_def)
  next
    case (Some ec)
    with assms(1) show ?thesis
      by (intro exI [of _ "tr\<lparr>tp_finished := False, gh_ctx := DoneCtx (fst ec), tp_cause := snd ec,
            tp_deadline := False\<rparr>"])
         (simp add: transport_context_def Let_def go_le_fields once_ok_def split_def)
  qed
  then obtain tr2 where eq: "transport_context env um tr = ?cancel tr2"
      and le: "go_le tr tr2" and f: "once_ok tr2 = once_ok tr" "tp_upload tr2 = tp_upload tr"
      "tp_watched tr2 = tp_watched tr" "\<not> tp_finished tr2" by blast
  have link: "go_le tr x \<Longrightarrow> go_le tr (x\<lparr>tp_linked := True\<rparr>)" "once_ok (x\<lparr>tp_linked := True\<rparr>) = once_ok x" for x
    by (simp_all add: go_le_def calm_def open_handles_def once_ok_def)
  obtain x where x: "transport_cancel env um canceled (TfText canceled) tr2 = Some x" "go_le tr2 x"
    using transport_cancel_runs [OF go_le_calm [OF le] assms(2)] by blast
  note X = transport_cancel_shell(1,3) [OF x(1)]
  show ?thesis
  proof (cases "tp_channel tr2 = ClosedChannel")
    case True
    with eq x(1) link(1) [OF go_le_trans [OF le x(2)]] link(2) [of x] f shell_leD(1,3,4) [OF X(1)] X(2) show ?thesis
      by (intro exI [of _ "x\<lparr>tp_linked := True\<rparr>"]) auto
  next
    case False
    with eq link(1) [OF le] link(2) [of tr2] f show ?thesis
      by (intro exI [of _ "tr2\<lparr>tp_linked := True\<rparr>"]) simp
  qed
qed

context transport_goroutines
begin

lemma event_runs:
  assumes "calm tr" "serialises env"
  obtains tr' where "ev k tr = Some tr'" "go_le tr tr'" "shell_le tr tr'"
  using kept [OF assms, of k] shell by blast

lemma read_upload_runs:
  assumes "calm tr" "serialises env"
  shows "\<exists>x tr'. read_upload ev up k reads tr = Some (x, tr') \<and> go_le tr tr' \<and> shell_le tr tr'"
  using assms(1)
proof (induction reads arbitrary: k tr)
  case Nil
  obtain tr1 where e: "ev k tr = Some tr1" "go_le tr tr1" "shell_le tr tr1"
    by (rule event_runs [OF Nil assms(2)])
  then show ?case by (simp add: read_upload.simps)
next
  case (Cons d ds)
  obtain tr1 where e: "ev k tr = Some tr1" "go_le tr tr1" "shell_le tr tr1"
    by (rule event_runs [OF Cons.prems assms(2)])
  from Cons.IH [OF go_le_calm [OF e(2)]] obtain x tr' where
    r: "read_upload ev up (Suc k) ds tr1 = Some (x, tr')" "go_le tr1 tr'" "shell_le tr1 tr'" by blast
  show ?case
  proof (cases "tp_upload_done tr1 \<and> up_closed up \<noteq> None")
    case True
    with e show ?thesis by (simp add: read_upload.simps)
  next
    case False
    with e(1) r(1) have "read_upload ev up k (d # ds) tr = Some ((d @ fst x, snd x), tr')"
      by (auto simp: read_upload.simps [of ev up k "d # ds"] split_def)
    with go_le_trans [OF e(2) r(2)] shell_le_trans [OF e(3) r(3)] show ?thesis by blast
  qed
qed

lemma take_upload_runs:
  assumes "calm tr" "serialises env" "\<not> tp_watched tr"
  shows "\<exists>r tr'. take_upload ev upload tr = Some (r, tr') \<and> go_le tr tr' \<and> shell_le tr tr'"
proof (cases upload)
  case None
  with assms(1) show ?thesis by (simp add: take_upload_def go_le_refl)
next
  case (Some up)
  let ?w = "tr\<lparr>tp_watched := True\<rparr>"
  have le: "go_le tr ?w" using assms(1) by (simp add: go_le_fields)
  note le1 = go_le_trans [OF le run_upload_watch_le [OF go_le_calm [OF le]]]
  from read_upload_runs [OF go_le_calm [OF le1] assms(2)] obtain bs e tr1 where
    r: "read_upload ev up 5 (up_reads up) (run_upload_watch ?w) = Some ((bs, e), tr1)"
      "go_le (run_upload_watch ?w) tr1" "shell_le (run_upload_watch ?w) tr1" by (metis surj_pair)
  let ?done = "close_upload (tr1\<lparr>tp_watched := False\<rparr>)"
  have s: "shell_le ?w tr1"
    using shell_le_trans [OF conjunct1 [OF run_upload_watch_shell] r(3)] .
  have "shell_le tr (tr1\<lparr>tp_watched := False\<rparr>)" using s by (simp add: shell_defs)
  then have "shell_le tr ?done" by (rule shell_le_trans [OF _ close_upload_shell])
  moreover have "go_le tr ?done"
  proof -
    have "go_le tr1 (tr1\<lparr>tp_watched := False\<rparr>)" using go_le_calm [OF r(2)] by (simp add: go_le_fields)
    from go_le_trans [OF this close_upload_le [OF go_le_calm [OF this]]] go_le_trans [OF le1 r(2)]
    show ?thesis by (blast intro: go_le_trans)
  qed
  ultimately show ?thesis
    using Some r(1) by (cases "transport_error ?done (map_option TfText e)") (auto simp: take_upload_def Let_def)
qed

lemma do_runs:
  assumes "calm tr" "serialises env"
  shows "\<exists>r tr'. go_do codec env um ev fire req tr = Some (r, tr') \<and> go_done tr r tr' \<and> shell_le tr tr'"
proof -
  obtain r tr' where r: "go_do codec env um ev fire req tr = Some (r, tr')" "go_done tr r tr'"
    using go_do_keeps [OF assms] by blast
  have "shell_le tr tr'"
    by (rule go_do_stable [OF r(1) shell_le_stable]) (auto intro: shell_le_trans shell)
  with r show ?thesis by blast
qed

end

lemma go_body_close_releases:
  assumes "calm g" "serialises env" "gh_body g = Some bd" "\<not> gb_closed bd" "go_body_close env um g = Some (e, g')"
  shows "gb_handle bd \<notin> open_handles g'" "gh_hook g' = None"
proof -
  let ?g = "go_stop (g\<lparr>gh_body := Some (bd\<lparr>gb_closed := True\<rparr>)\<rparr>)"
  have "calm ?g" using assms(1) by (simp add: calm_def go_stop_def)
  from go_close_handle_keeps [OF this assms(2), of um "gb_handle bd"] obtain b where
    "go_close_handle env um (gb_handle bd) ?g = Some (None, ?g\<lparr>gh_bridge := b\<rparr>)"
    "open_handles (?g\<lparr>gh_bridge := b\<rparr>) = open_handles ?g - {gb_handle bd}" by metis
  with assms(3-5) show "gb_handle bd \<notin> open_handles g'" "gh_hook g' = None"
    by (auto simp: go_body_close_def go_stop_def)
qed

text \<open>What an operation leaves behind: after an error no request, no hook; after a success the body's
  request.\<close>

definition exchanged ::
  "('t, 'c, 'k, 'h, 'n, 'm) go_transport \<Rightarrow> (transport_fault + net_response) \<Rightarrow>
     ('t, 'c, 'k, 'h, 'n, 'm) go_transport \<Rightarrow> bool" where
  "exchanged tr r tr' \<longleftrightarrow> calm tr' \<and>
     (case r of
        Inl fault \<Rightarrow> shell_le tr tr' \<and> open_handles tr' \<subseteq> open_handles tr \<and> gh_hook tr' = None
      | Inr nresp \<Rightarrow> (\<exists>tr1. shell_le tr tr1 \<and> tr' = tr1\<lparr>tp_body := Some \<lparr>tb_closed = False, tb_terminal = None\<rparr>\<rparr>) \<and>
          (\<exists>i. gh_body tr' = Some (fresh_body i) \<and> open_handles tr' \<subseteq> insert i (open_handles tr)))"

context transport_goroutines
begin

lemma exchange_runs:
  assumes "calm tr" "serialises env" "gh_hook tr = None" "\<not> tp_watched tr"
  shows "\<exists>r tr'. transport_exchange net codec env um ev fire req u tr = Some (r, tr') \<and> exchanged tr r tr'"
proof (cases "transport_error tr None")
  case (Some fault)
  with assms show ?thesis by (simp add: transport_exchange_def exchanged_def)
next
  case None
  obtain upload tr1 where up: "take_upload ev (nr_body req) tr = Some (upload, tr1)" "go_le tr tr1" "shell_le tr tr1"
    using take_upload_runs [OF assms(1,2,4)] by blast
  then have mid: "calm tr1" "gh_hook tr1 = None" "open_handles tr1 \<subseteq> open_handles tr"
    using assms(3) by (simp_all add: go_le_def)
  then have early: "exchanged tr (Inl fault) tr1" for fault using up(3) by (simp add: exchanged_def)
  show ?thesis
  proof (cases "\<exists>body. upload = Inr body \<and> length_mismatch req (length (case body of None \<Rightarrow> [] | Some bs \<Rightarrow> bs)) = None")
    case False
    then obtain fault where "transport_exchange net codec env um ev fire req u tr = Some (Inl fault, tr1)"
      using None up(1) by (cases upload) (auto simp: transport_exchange_def)
    with early show ?thesis by blast
  next
    case True
    then obtain body where body: "upload = Inr body"
      "length_mismatch req (length (case body of None \<Rightarrow> [] | Some bs \<Rightarrow> bs)) = None" by blast
    let ?req = "transport_request codec net req u body"
    obtain r tr2 where go: "go_do codec env um ev fire ?req tr1 = Some (r, tr2)" "go_done tr1 r tr2" "shell_le tr1 tr2"
      using do_runs [OF mid(1) assms(2)] by blast
    note sh = shell_le_trans [OF up(3) go(3)]
    show ?thesis
    proof (cases r)
      case (Inl e)
      with None up(1) body go mid sh show ?thesis
        by (auto simp: transport_exchange_def exchanged_def go_done_def)
    next
      case (Inr resp)
      with go(2) obtain i where i: "calm tr2" "gh_body tr2 = Some (fresh_body i)" "open_handles tr2 \<subseteq> insert i (open_handles tr1)"
        by (auto simp: go_done_def fresh_body_def)
      show ?thesis
      proof (cases "transport_response net req resp")
        case (Some nresp)
        let ?tr = "tr2\<lparr>tp_body := Some \<lparr>tb_closed = False, tb_terminal = None\<rparr>\<rparr>"
        have "calm ?tr" "open_handles ?tr \<subseteq> insert i (open_handles tr)" "gh_body ?tr = Some (fresh_body i)"
          using i mid(3) by (auto simp: calm_def open_handles_def)
        with sh have "exchanged tr (Inr nresp) ?tr" by (auto simp: exchanged_def)
        with None up(1) body go(1) Inr Some show ?thesis by (simp add: transport_exchange_def)
      next
        case None2: None
        from go_body_close_keeps [OF i(1) assms(2), of um] obtain tr3 where
          c: "go_body_close env um tr2 = Some (None, tr3)" "go_le tr2 tr3" by metis
        have released: "i \<notin> open_handles tr3" "gh_hook tr3 = None"
          using go_body_close_releases [OF i(1) assms(2) i(2) _ c(1)] by (simp_all add: fresh_body_def)
        have "shell_le tr tr3" by (rule go_body_close_stable [OF c(1) shell_le_stable sh])
        with released c(2) i(3) mid(3) have "exchanged tr (Inl fault) tr3" for fault
          by (auto simp: exchanged_def go_le_def)
        with None None2 up(1) body go(1) Inr c(1) show ?thesis by (auto simp: transport_exchange_def)
      qed
    qed
  qed
qed

lemma inner_runs:
  assumes "calm tr" "serialises env" "gh_hook tr = None" "\<not> tp_watched tr" "\<not> tp_linked tr" "\<not> tp_deadline tr"
    "once_ok tr"
  shows "\<exists>r tr'. round_trip_inner net codec env um ev fire req tr = Some (r, tr') \<and> calm tr' \<and>
     once_ok tr' \<and> tp_upload tr' = tp_upload tr \<and>
     (case r of
        Inl fault \<Rightarrow> open_handles tr' \<subseteq> open_handles tr \<and> gh_hook tr' = None \<and> \<not> tp_watched tr' \<and>
                     \<not> tp_linked tr' \<and> \<not> tp_deadline tr'
      | Inr nresp \<Rightarrow> tp_body tr' = Some \<lparr>tb_closed = False, tb_terminal = None\<rparr> \<and>
          (\<exists>i. gh_body tr' = Some (fresh_body i) \<and> open_handles tr' \<subseteq> insert i (open_handles tr)))"
proof (cases "round_trip_check net req")
  case (Some message)
  with assms show ?thesis by (simp add: round_trip_inner_def)
next
  case None
  obtain failed b c m ov where st: "transport_state codec env um tr =
      Some (failed, tr\<lparr>gh_bridge := b, gh_client := c, tp_made := m, tp_over := ov\<rparr>)"
    "calm (tr\<lparr>gh_bridge := b\<rparr>)" "open_handles (tr\<lparr>gh_bridge := b\<rparr>) = open_handles tr"
    using transport_state_runs [OF assms(1,2), of codec um] by blast
  let ?tr1 = "tr\<lparr>gh_bridge := b, gh_client := c, tp_made := m, tp_over := ov\<rparr>"
  have s1: "calm ?tr1" "open_handles ?tr1 = open_handles tr" "once_ok ?tr1"
    using st(2,3) assms(7) by (simp_all add: calm_def open_handles_def once_ok_def)
  show ?thesis
  proof (cases failed)
    case (Some fault)
    with None st(1) s1 assms show ?thesis by (simp add: round_trip_inner_def)
  next
    case ok: None
    obtain tr2 where e2: "ev 3 ?tr1 = Some tr2" "go_le ?tr1 tr2" "shell_le ?tr1 tr2"
      by (rule event_runs [OF s1(1) assms(2)])
    obtain tr3 where c3: "transport_context env um tr2 = Some tr3" "go_le tr2 tr3" "once_ok tr2 \<longrightarrow> once_ok tr3"
      "tp_upload tr3 = tp_upload tr2" "tp_watched tr3 \<longrightarrow> tp_watched tr2" "\<not> tp_finished tr3"
      using transport_context_runs [OF go_le_calm [OF e2(2)] assms(2)] by blast
    obtain tr4 where e4: "ev 4 tr3 = Some tr4" "go_le tr3 tr4" "shell_le tr3 tr4"
      by (rule event_runs [OF go_le_calm [OF c3(2)] assms(2)])
    have le: "go_le ?tr1 tr4" using e2(2) c3(2) e4(2) by (blast intro: go_le_trans)
    have f4: "calm tr4" "gh_hook tr4 = None" "open_handles tr4 \<subseteq> open_handles tr"
      using le assms(3) s1(2) by (simp_all add: go_le_def)
    have g4: "\<not> tp_watched tr4" "once_ok tr4" "tp_upload tr4 = tp_upload tr" "tp_finished tr4 \<longrightarrow> done_ctx tr4"
      using shell_leD(1,3,4) [OF e2(3)] shell_leD(1,3,4,8) [OF e4(3)] c3(3-6) s1(3) assms(4) by auto
    obtain r tr5 where x: "transport_exchange net codec env um ev fire req (the (nr_url req)) tr4 = Some (r, tr5)"
      "exchanged tr4 r tr5"
      using exchange_runs [OF f4(1) assms(2) f4(2) g4(1)] by blast
    show ?thesis
    proof (cases r)
      case (Inr nresp)
      with x(2) obtain tr0 i where "shell_le tr4 tr0" "tr5 = tr0\<lparr>tp_body := Some \<lparr>tb_closed = False, tb_terminal = None\<rparr>\<rparr>"
        "calm tr5" "gh_body tr5 = Some (fresh_body i)" "open_handles tr5 \<subseteq> insert i (open_handles tr4)"
        by (auto simp: exchanged_def)
      moreover have "once_ok tr5" "tp_upload tr5 = tp_upload tr"
        using shell_leD(1,3) [OF calculation(1)] calculation(2) g4(2,3) by (simp_all add: once_ok_def)
      ultimately show ?thesis
        using None st(1) ok e2(1) c3(1) e4(1) x(1) Inr f4(3) by (auto simp: round_trip_inner_def)
    next
      case (Inl fault)
      with x(2) have y: "calm tr5" "shell_le tr4 tr5" "open_handles tr5 \<subseteq> open_handles tr4" "gh_hook tr5 = None"
        by (auto simp: exchanged_def)
      obtain tr6 where f: "transport_finish env um tr5 = Some tr6" "go_le tr5 tr6"
        using transport_finish_runs [OF y(1) assms(2)] by blast
      have "done_ctx tr5" if "tp_finished tr5"
        using shell_leD(8) [OF y(2) that] g4(4) shell_le_done [OF y(2)] by blast
      note F = transport_finish_shell(1,3) [OF f(1)]
      have "done_ctx tr6" by (rule F(2)) (rule \<open>tp_finished tr5 \<Longrightarrow> done_ctx tr5\<close>)
      moreover note S = shell_leD(1,3,4) [OF shell_le_trans [OF y(2) F(1)]]
      have "calm tr6" "open_handles tr6 \<subseteq> open_handles tr" "gh_hook tr6 = None"
        using f(2) y(3,4) f4(3) by (auto simp: go_le_def)
      moreover have "round_trip_inner net codec env um ev fire req tr = Some (Inl fault, tr6)"
        using None st(1) ok e2(1) c3(1) e4(1) x(1) Inl f(1) by (simp add: round_trip_inner_def)
      ultimately show ?thesis using S g4 by (auto simp: done_ctx_def)
    qed
  qed
qed

lemma round_trip_runs:
  assumes "calm tr" "serialises env"
  shows "\<exists>r tr'. go_round_trip net codec env um ev fire (Some req) tr = Some (r, tr') \<and> calm tr' \<and>
     tp_uploads tr' = (if nr_body req = None then 0 else 1) \<and>
     (case r of
        Inl fault \<Rightarrow> open_handles tr' \<subseteq> open_handles tr \<and> gh_hook tr' = None \<and> \<not> tp_watched tr' \<and>
                     \<not> tp_linked tr' \<and> \<not> tp_deadline tr'
      | Inr nresp \<Rightarrow> tp_body tr' = Some \<lparr>tb_closed = False, tb_terminal = None\<rparr> \<and>
          (\<exists>i. gh_body tr' = Some (fresh_body i) \<and> open_handles tr' \<subseteq> insert i (open_handles tr)))"
proof -
  let ?tr = "begin_round_trip (nr_body req \<noteq> None) tr"
  have start: "calm ?tr" "gh_hook ?tr = None" "\<not> tp_watched ?tr" "\<not> tp_linked ?tr" "\<not> tp_deadline ?tr" "once_ok ?tr"
    "open_handles ?tr = open_handles tr" "tp_upload ?tr = (nr_body req \<noteq> None)"
    using assms(1) by (simp_all add: begin_round_trip_def calm_def open_handles_def once_ok_def)
  obtain r tr' where r: "round_trip_inner net codec env um ev fire req ?tr = Some (r, tr')" "calm tr'" "once_ok tr'"
    "tp_upload tr' = tp_upload ?tr"
    "case r of
        Inl fault \<Rightarrow> open_handles tr' \<subseteq> open_handles ?tr \<and> gh_hook tr' = None \<and> \<not> tp_watched tr' \<and>
                     \<not> tp_linked tr' \<and> \<not> tp_deadline tr'
      | Inr nresp \<Rightarrow> tp_body tr' = Some \<lparr>tb_closed = False, tb_terminal = None\<rparr> \<and>
          (\<exists>i. gh_body tr' = Some (fresh_body i) \<and> open_handles tr' \<subseteq> insert i (open_handles ?tr))"
    using inner_runs [OF start(1) assms(2) start(2-6)] by blast
  have "tp_uploads (close_upload tr') = (if nr_body req = None then 0 else 1)"
    using r(3,4) start(8) by (auto simp: close_upload_def once_ok_def split: if_splits)
  moreover have "calm (close_upload tr')" using close_upload_le [OF r(2)] by (rule go_le_calm)
  moreover have "open_handles (close_upload tr') = open_handles tr'" "gh_hook (close_upload tr') = gh_hook tr'"
    "tp_watched (close_upload tr') = tp_watched tr'" "tp_linked (close_upload tr') = tp_linked tr'"
    "tp_deadline (close_upload tr') = tp_deadline tr'" "tp_body (close_upload tr') = tp_body tr'"
    "gh_body (close_upload tr') = gh_body tr'"
    by (simp_all add: close_upload_def open_handles_def)
  moreover have "go_round_trip net codec env um ev fire (Some req) tr = Some (r, close_upload tr')"
    using r(1) by (simp add: go_round_trip_def)
  ultimately show ?thesis
    using r(5) [unfolded start(7)] by (intro exI [of _ r] exI [of _ "close_upload tr'"]) (cases r; simp)
qed

end

end
