(* ===== verification/Go_Round_Trip.thy ===== *)
theory Go_Round_Trip
  imports Go_Transport
begin

text \<open>
  The properties of \<open>httpclient/transport.go\<close>: a \<open>RoundTrip\<close> under interference, one that is left
  alone, from \<open>net/http\<close> to the wire and back, the body it returns, and \<open>Close\<close>.
\<close>

subsection \<open>Reads of a body\<close>

text \<open>A body as \<open>RoundTrip\<close> returns it.\<close>

definition open_body :: "u64 \<Rightarrow> ('t, 'c, 'k, 'h, 'n, 'm) go_transport \<Rightarrow> bool" where
  "open_body i tr \<longleftrightarrow> gh_body tr = Some (fresh_body i) \<and>
     tp_body tr = Some \<lparr>tb_closed = False, tb_terminal = None\<rparr> \<and> (tp_finished tr \<longrightarrow> done_ctx tr)"

lemma transport_error_Some: "\<exists>f. transport_error tr (Some e) = Some f"
  by (simp add: transport_error_def split: option.split go_ctx.split)

context transport_goroutines
begin

lemma transport_read_runs:
  assumes "calm tr" "serialises env" "open_body i tr" "n \<noteq> 0"
  shows "\<exists>d e tr' tb'. transport_body_read env um ev fire n tr = Some ((d, e), tr') \<and> calm tr' \<and>
     length d \<le> n \<and> tp_body tr' = Some tb' \<and>
     (case e of None \<Rightarrow> tb_terminal tb' = None
      | Some f \<Rightarrow> d = [] \<and> tb_terminal tb' = Some f \<and> i \<notin> open_handles tr' \<and> gh_hook tr' = None \<and> done_ctx tr')"
proof -
  have body: "gh_body tr = Some (fresh_body i)" "\<not> gb_closed (fresh_body i)" "gb_err (fresh_body i) = None"
    "tp_body tr = Some \<lparr>tb_closed = False, tb_terminal = None\<rparr>" "tp_finished tr \<Longrightarrow> done_ctx tr"
    using assms(3) by (simp_all add: open_body_def fresh_body_def)
  obtain d e tr1 where r: "go_body_read env um ev fire n tr = Some ((d, e), tr1)" "calm tr1" "length d \<le> n"
    "\<forall>f. e = Some f \<longrightarrow> d = [] \<and> i \<notin> open_handles tr1 \<and> gh_hook tr1 = None"
    using go_body_read_keeps [OF assms(1,2) body(1-3) assms(4), of um fire]
    by (elim exE conjE) (rule that, assumption+, auto simp: fresh_body_def)
  have s1: "shell_le tr tr1"
    by (rule go_body_read_stable [OF r(1) shell_le_stable]) (auto intro: shell_le_trans shell)
  show ?thesis
  proof (cases e)
    case None
    from shell_leD(14) [OF s1] body(4) obtain tb where tb: "tp_body tr1 = Some tb" "tb_terminal tb = None"
      by (auto simp: tbody_le_def elim: option.rel_cases)
    moreover have "transport_body_read env um ev fire n tr = Some ((d, None), tr1)"
      using body(4) r(1) None by (simp add: transport_body_read_def)
    ultimately show ?thesis using r(2,3) by auto
  next
    case (Some f)
    obtain tr2 where e2: "ev 2 tr1 = Some tr2" "go_le tr1 tr2" "shell_le tr1 tr2"
      by (rule event_runs [OF r(2) assms(2)])
    note s2 = shell_le_trans [OF s1 e2(3)]
    from shell_leD(14) [OF s2] body(4) obtain tb where tb: "tp_body tr2 = Some tb"
      by (auto simp: tbody_le_def elim: option.rel_cases)
    obtain g where g: "(if tb_closed tb then Some body_closed else transport_error tr2 (Some (TfHttp f))) = Some g"
      using transport_error_Some [of tr2 "TfHttp f"] by (cases "tb_closed tb") auto
    let ?tr = "tr2\<lparr>tp_body := Some (tb\<lparr>tb_terminal := Some g\<rparr>)\<rparr>"
    have le: "go_le tr1 ?tr" using e2(2) by (simp add: go_le_def calm_def open_handles_def)
    obtain tr3 where f3: "transport_finish env um ?tr = Some tr3" "go_le ?tr tr3"
      using transport_finish_runs [OF go_le_calm [OF le] assms(2)] by blast
    have "done_ctx tr2" if "tp_finished tr2"
      using shell_leD(8) [OF s2 that] body(5) shell_le_done [OF s2] by blast
    then have "tp_finished ?tr \<Longrightarrow> done_ctx ?tr" by (simp add: done_ctx_def)
    note F = transport_finish_shell(1) [OF f3(1)] transport_finish_shell(3) [OF f3(1) this]
    have "open_handles tr3 \<subseteq> open_handles tr1" "gh_hook tr3 = None" "calm tr3"
      using go_le_trans [OF le f3(2)] r(4) Some by (simp_all add: go_le_def)
    moreover have "\<exists>tb'. tp_body tr3 = Some tb' \<and> tb_terminal tb' = Some g"
      using shell_leD(14) [OF F(1)] by (auto simp: tbody_le_def elim: option.rel_cases)
    moreover have "transport_body_read env um ev fire n tr = Some (([], Some g), tr3)"
      using body(4) r(1,4) Some e2(1) tb g f3(1) by (simp add: transport_body_read_def Let_def)
    ultimately show ?thesis using r(4) Some F(2) by (auto simp: fresh_body_def)
  qed
qed

end

subsection \<open>A transport left alone\<close>

text \<open>No context has ended: neither the request's nor the transport's, nor the operation's.\<close>

definition at_rest :: "('t, 'c, 'k, 'h, 'n, 'm) go_transport \<Rightarrow> bool" where
  "at_rest tr \<longleftrightarrow> tp_request tr = None \<and> \<not> tp_over tr \<and> gh_ctx tr = LiveCtx"

lemma at_rest_error: "at_rest tr \<Longrightarrow> transport_error tr e = e"
  by (simp add: at_rest_def transport_error_def)

lemma transport_finish_body:
  assumes "transport_finish env um tr = Some tr'"
  shows "tp_body tr' = tp_body tr"
proof -
  let ?I = "\<lambda>x. tp_body x = tp_body tr"
  have "go_stable ?I" by (simp add: go_stable_def)
  note keep = go_run_hook_stable [OF _ this]
  from assms show ?thesis
    by (auto simp: transport_finish_def transport_cancel_def run_upload_watch_def close_upload_def
        split: if_splits dest: keep)
qed

lemma quiet_read:
  assumes "go_body_read env um quiet fire n g = Some ((d, e), g')" "gh_body g = Some (fresh_body i)" "n \<noteq> 0"
  shows "case e of None \<Rightarrow> gh_body g' = Some (fresh_body i)
    | Some f \<Rightarrow> d = [] \<and> gh_body g' = Some ((fresh_body i)\<lparr>gb_err := Some f\<rparr>)"
  using assms
  by (auto simp: go_body_read_def bind_eq_Some_conv fresh_body_def Let_def go_abandon_def go_close_handle_def
      go_stop_def split: option.splits)

fun transport_reads ::
  "('t, 'c, 'k, 'h, 'n, 'm) bridge_env \<Rightarrow> unmarshal \<Rightarrow> nat list \<Rightarrow> ('t, 'c, 'k, 'h, 'n, 'm) go_transport \<Rightarrow>
     ((bytes \<times> transport_fault option) list \<times> ('t, 'c, 'k, 'h, 'n, 'm) go_transport) option" where
  "transport_reads env um [] tr = Some ([], tr)"
| "transport_reads env um (n # ns) tr =
     Option.bind (transport_body_read env um quiet None n tr) (\<lambda>(r, tr1).
       map_option (\<lambda>(rs, tr2). (r # rs, tr2)) (transport_reads env um ns tr1))"

lemma transport_reads_stuck:
  "tp_body tr = Some \<lparr>tb_closed = False, tb_terminal = Some f\<rparr> \<Longrightarrow>
     transport_reads env um ns tr = Some (replicate (length ns) ([], Some f), tr)"
  by (induction ns) (simp_all add: transport_body_read_def)

definition lift_read :: "bytes \<times> http_fault option \<Rightarrow> bytes \<times> transport_fault option" where
  "lift_read r = (fst r, map_option TfHttp (snd r))"

text \<open>Left alone, the transport's body answers what the client's does.\<close>

lemma transport_reads_eq:
  assumes "go_reads env um ns tr = Some (rs, g')" "calm tr" "serialises env" "at_rest tr"
    and "gh_body tr = Some (fresh_body i)" "tp_body tr = Some \<lparr>tb_closed = False, tb_terminal = None\<rparr>" "0 \<notin> set ns"
  shows "\<exists>tr'. transport_reads env um ns tr = Some (map lift_read rs, tr')"
  using assms(1,2,4-)
proof (induction ns arbitrary: tr rs)
  case Nil
  then show ?case by simp
next
  case (Cons n ns)
  let ?fresh = "\<lparr>tb_closed = False, tb_terminal = None\<rparr>"
  from Cons.prems(1) obtain d e tr1 rs' where step: "go_body_read env um quiet None n tr = Some ((d, e), tr1)"
    "go_reads env um ns tr1 = Some (rs', g')" "rs = (d, e) # rs'"
    by (auto simp: bind_eq_Some_conv)
  have n: "n \<noteq> 0" "0 \<notin> set ns" using Cons.prems(6) by auto
  note quiet = quiet_read [OF step(1) Cons.prems(4) n(1)]
  have calm1: "calm tr1"
    using alone.go_body_read_keeps [OF Cons.prems(2) assms(3) Cons.prems(4) _ _ n(1), of um None] step(1)
    by (auto simp: fresh_body_def)
  let ?I = "\<lambda>x. at_rest x \<and> tp_body x = Some ?fresh"
  have "go_stable ?I" by (simp add: go_stable_def at_rest_def)
  from go_body_read_stable [OF step(1) this] Cons.prems(3,5) have rest: "at_rest tr1" "tp_body tr1 = Some ?fresh"
    by auto
  show ?case
  proof (cases e)
    case None
    with quiet have "gh_body tr1 = Some (fresh_body i)" by simp
    from Cons.IH [OF step(2) calm1 rest(1) this rest(2) n(2)] obtain tr' where
      "transport_reads env um ns tr1 = Some (map lift_read rs', tr')" by blast
    moreover have "transport_body_read env um quiet None n tr = Some ((d, None), tr1)"
      using step(1) None Cons.prems(5) by (simp add: transport_body_read_def)
    ultimately show ?thesis using None step(3) by (simp add: lift_read_def)
  next
    case (Some f)
    let ?tr = "tr1\<lparr>tp_body := Some \<lparr>tb_closed = False, tb_terminal = Some (TfHttp f)\<rparr>\<rparr>"
    have "calm ?tr" using calm1 by (simp add: calm_def)
    from transport_finish_runs [OF this assms(3)] obtain tr2 where f2: "transport_finish env um ?tr = Some tr2" by blast
    have stuck: "tp_body tr2 = Some \<lparr>tb_closed = False, tb_terminal = Some (TfHttp f)\<rparr>"
      using transport_finish_body [OF f2] by simp
    from Some quiet have q: "d = []" "gh_body tr1 = Some ((fresh_body i)\<lparr>gb_err := Some f\<rparr>)" by simp_all
    then have "go_reads env um ns tr1 = Some (replicate (length ns) ([], Some f), tr1)"
      by (intro go_reads_stuck [of _ "(fresh_body i)\<lparr>gb_err := Some f\<rparr>"]) (simp_all add: fresh_body_def)
    with step(2) have "rs' = replicate (length ns) ([], Some f)" by simp
    moreover have "transport_body_read env um quiet None n tr = Some (([], Some (TfHttp f)), tr2)"
      using step(1) Some q(1) Cons.prems(5) rest f2 at_rest_error [OF rest(1)]
      by (simp add: transport_body_read_def Let_def)
    ultimately show ?thesis
      using transport_reads_stuck [OF stuck, of env um ns] Some q(1) step(3) by (simp add: lift_read_def)
  qed
qed

text \<open>What \<open>RoundTrip\<close> buffers of an upload that is not interrupted.\<close>

definition upload_bytes :: "go_upload option \<Rightarrow> bytes option" where
  "upload_bytes = map_option (\<lambda>up. concat (up_reads up))"

definition upload_complete :: "go_upload option \<Rightarrow> bool" where
  "upload_complete upload \<longleftrightarrow> (\<forall>up. upload = Some up \<longrightarrow> up_end up = None)"

lemma read_upload_quiet:
  "\<not> tp_upload_done tr \<Longrightarrow> read_upload quiet up k reads tr = Some ((concat reads, up_end up), tr)"
  by (induction reads arbitrary: k) (simp_all add: read_upload.simps)

text \<open>The state \<open>Do\<close> starts from when nothing has disturbed the call, and what \<open>Do\<close> keeps of it.\<close>

definition uploaded :: "bool \<Rightarrow> ('t, 'c, 'k, 'h, 'n, 'm) go_transport \<Rightarrow> bool" where
  "uploaded some tr \<longleftrightarrow> at_rest tr \<and> \<not> tp_finished tr \<and> tp_upload tr = some \<and> tp_upload_done tr = some \<and>
     tp_uploads tr = (if some then 1 else 0)"

lemma uploaded_stable: "go_stable (uploaded some)"
  by (simp add: go_stable_def uploaded_def at_rest_def)

lemma take_upload_quiet:
  assumes "upload_complete upload" "at_rest tr" "\<not> tp_finished tr" "tp_upload tr = (upload \<noteq> None)"
    "\<not> tp_upload_done tr" "tp_uploads tr = 0"
  shows "\<exists>tr'. take_upload quiet upload tr = Some (Inr (upload_bytes upload), tr') \<and>
     uploaded (upload \<noteq> None) tr' \<and> gh_bridge tr' = gh_bridge tr \<and> gh_client tr' = gh_client tr \<and>
     gh_hook tr' = gh_hook tr"
proof (cases upload)
  case None
  with assms show ?thesis
    by (intro exI [of _ tr]) (simp add: take_upload_def upload_bytes_def uploaded_def)
next
  case (Some up)
  let ?w = "tr\<lparr>tp_watched := True\<rparr>"
  have w: "run_upload_watch ?w = ?w" using assms(2) by (simp add: run_upload_watch_def at_rest_def)
  have r: "read_upload quiet up 5 (up_reads up) ?w = Some ((concat (up_reads up), None), ?w)"
    using read_upload_quiet [of ?w up 5 "up_reads up"] assms(1,5) Some by (simp add: upload_complete_def)
  let ?done = "close_upload (?w\<lparr>tp_watched := False\<rparr>)"
  have d: "uploaded True ?done" "gh_bridge ?done = gh_bridge tr" "gh_client ?done = gh_client tr"
    "gh_hook ?done = gh_hook tr"
    using assms(2-) Some by (simp_all add: uploaded_def at_rest_def close_upload_def)
  then have "transport_error ?done None = None" by (simp add: at_rest_error uploaded_def)
  with Some w r d show ?thesis
    by (intro exI [of _ ?done]) (simp add: take_upload_def Let_def upload_bytes_def)
qed

text \<open>A transport that is open for requests, called with a live context.\<close>

definition transport_ready ::
  "('t, 'c, 'k, 'h, 'n, 'm) bridge_env \<Rightarrow> 'h http_client \<Rightarrow> ('t, 'c, 'k, 'h, 'n, 'm) go_transport \<Rightarrow> bool" where
  "transport_ready env client tr \<longleftrightarrow>
     tp_made tr \<and> \<not> tp_closed tr \<and> \<not> tp_over tr \<and> tp_request tr = None \<and> tp_channel tr \<noteq> ClosedChannel \<and>
     go_ready env client (tr\<lparr>gh_ctx := LiveCtx\<rparr>)"

lemma go_ready_cong:
  "go_ready env client g \<Longrightarrow> gh_bridge g' = gh_bridge g \<Longrightarrow> gh_client g' = gh_client g \<Longrightarrow>
     gh_ctx g' = LiveCtx \<Longrightarrow> go_ready env client g'"
  by (simp add: go_ready_def calm_def Let_def)

lemma go_final_cong:
  "gh_client g' = gh_client g \<Longrightarrow> gh_ctx g' = gh_ctx g \<Longrightarrow> go_final env um g' items = go_final env um g items"
  by (simp add: go_final_def request_error_def split: go_ctx.split go_error.split)

lemma round_trip_quiet:
  assumes "transport_ready env client tr"
    and "round_trip_check net req = None" "nr_url req = Some u" "upload_complete (nr_body req)"
    and "length_mismatch req (length (case upload_bytes (nr_body req) of None \<Rightarrow> [] | Some bs \<Rightarrow> bs)) = None"
  obtains tr4 where "uploaded (nr_body req \<noteq> None) tr4" "go_ready env client tr4" "gh_client tr4 = gh_client tr"
    "gh_bridge tr4 = gh_bridge tr"
    "\<And>codec um resp nresp tr5.
       go_do codec env um quiet None (transport_request codec net req u (upload_bytes (nr_body req))) tr4
         = Some (Inr resp, tr5) \<Longrightarrow>
       transport_response net req resp = Some nresp \<Longrightarrow>
       go_round_trip net codec env um quiet None (Some req) tr
         = Some (Inr nresp, close_upload (tr5\<lparr>tp_body := Some \<lparr>tb_closed = False, tb_terminal = None\<rparr>\<rparr>))"
proof -
  obtain tr0 where tr0: "begin_round_trip (nr_body req \<noteq> None) tr = tr0" by simp
  obtain tr3 where tr3: "tr3 = tr0\<lparr>tp_finished := False, gh_ctx := LiveCtx, tp_deadline := 0 < tp_timeout tr0,
      tp_linked := True\<rparr>" by simp
  have open_tr: "tp_made tr" "\<not> tp_closed tr" "\<not> tp_over tr" "tp_request tr = None" "tp_channel tr \<noteq> ClosedChannel"
    "go_ready env client (tr\<lparr>gh_ctx := LiveCtx\<rparr>)"
    using assms(1) by (simp_all add: transport_ready_def)
  have state: "transport_state codec env um tr0 = Some (None, tr0)" for um and codec :: "'j go_codec"
    using open_tr(1,2) by (auto simp: transport_state_def begin_round_trip_def tr0 [symmetric])
  have made: "transport_context env um tr0 = Some tr3" for um
    using open_tr(4,5) unfolding tr3 by (simp add: transport_context_def begin_round_trip_def Let_def tr0 [symmetric])
  have rest: "at_rest tr3" using open_tr(3,4) by (simp add: at_rest_def begin_round_trip_def tr3 tr0 [symmetric])
  have start: "\<not> tp_finished tr3" "tp_upload tr3 = (nr_body req \<noteq> None)" "\<not> tp_upload_done tr3" "tp_uploads tr3 = 0"
    by (simp_all add: begin_round_trip_def tr3 tr0 [symmetric])
  obtain tr4 where up: "take_upload quiet (nr_body req) tr3 = Some (Inr (upload_bytes (nr_body req)), tr4)"
    "uploaded (nr_body req \<noteq> None) tr4" "gh_bridge tr4 = gh_bridge tr3" "gh_client tr4 = gh_client tr3"
    using take_upload_quiet [OF assms(4) rest start] by blast
  have ready: "go_ready env client tr4"
    by (rule go_ready_cong [OF open_tr(6)]) (use up(2-4) in \<open>simp_all add: begin_round_trip_def uploaded_def at_rest_def tr3 tr0 [symmetric]\<close>)
  show ?thesis
  proof (rule that [OF up(2) ready])
    show "gh_client tr4 = gh_client tr" "gh_bridge tr4 = gh_bridge tr"
      using up(3,4) by (simp_all add: begin_round_trip_def tr3 tr0 [symmetric])
  next
    fix codec :: "'j go_codec" and um resp nresp tr5
    assume "go_do codec env um quiet None (transport_request codec net req u (upload_bytes (nr_body req))) tr4
        = Some (Inr resp, tr5)" "transport_response net req resp = Some nresp"
    with up(1) assms(5) have "transport_exchange net codec env um quiet None req u tr3 =
        Some (Inr nresp, tr5\<lparr>tp_body := Some \<lparr>tb_closed = False, tb_terminal = None\<rparr>\<rparr>)"
      by (simp add: transport_exchange_def at_rest_error [OF rest])
    with assms(2,3) state [of codec um] made [of um]
    show "go_round_trip net codec env um quiet None (Some req) tr
         = Some (Inr nresp, close_upload (tr5\<lparr>tp_body := Some \<lparr>tb_closed = False, tb_terminal = None\<rparr>\<rparr>))"
      by (simp add: go_round_trip_def round_trip_inner_def tr0 del: not_None_eq)
  qed
qed

subsection \<open>A transport closed meanwhile\<close>

lemma transport_close_closes:
  assumes "transport_close env um tr = Some (e, tr')"
  shows "tp_closed tr'"
proof -
  have "go_stable tp_closed" by (simp add: go_stable_def)
  from go_client_close_stable [OF _ this, of env um "tr\<lparr>tp_closed := True, tp_over := True\<rparr>" e tr'] assms
  show ?thesis by (auto simp: transport_close_def split: if_splits)
qed

lemma over_stable: "go_stable (\<lambda>x. tp_over x = over \<and> tp_request x = request)"
  by (simp add: go_stable_def)

lemma transport_finish_over:
  assumes "transport_finish env um tr = Some tr'"
  shows "tp_over tr' = tp_over tr \<and> tp_request tr' = tp_request tr"
proof -
  note keep = go_run_hook_stable [OF _ over_stable [of "tp_over tr" "tp_request tr"]]
  from assms show ?thesis
    by (auto simp: transport_finish_def transport_cancel_def run_upload_watch_def close_upload_def
        split: if_splits dest: keep)
qed

lemma transport_error_over:
  "tp_over tr \<Longrightarrow> tp_request tr = None \<Longrightarrow> transport_error tr e = Some TfClosed"
  by (simp add: transport_error_def)

lemma take_upload_over:
  assumes "take_upload ev upload tr = Some (r, tr')" "tp_over tr'" "tp_request tr' = None"
    and "transport_error tr None = None"
  shows "r = Inl TfClosed"
  using assms transport_error_over [of tr None]
  by (auto simp: take_upload_def Let_def transport_error_over split: option.splits prod.splits)

lemma transport_exchange_over:
  assumes "transport_exchange net codec env um ev fire req u tr = Some (Inl fault, tr')"
    and "tp_over tr'" "tp_request tr' = None"
  shows "fault = TfClosed \<or> fault = TfText ''httpclient: unsupported response protocol''"
proof (cases "transport_error tr None")
  case (Some e)
  with assms transport_error_over [of tr None] show ?thesis by (auto simp: transport_exchange_def)
next
  case None
  with assms(1) obtain upload tr1 where up: "take_upload ev (nr_body req) tr = Some (upload, tr1)"
    and rest: "(case upload of Inl fault \<Rightarrow> Some (Inl fault, tr1)
      | Inr body \<Rightarrow> (case length_mismatch req (length (case body of None \<Rightarrow> [] | Some bs \<Rightarrow> bs)) of
           Some message \<Rightarrow> Some (Inl (TfText message), tr1)
         | None \<Rightarrow> Option.bind (go_do codec env um ev fire (transport_request codec net req u body) tr1) (\<lambda>(r, tr2).
             case r of
               Inl e \<Rightarrow> Some (Inl (the (transport_error tr2 (Some (TfHttp e)))), tr2)
             | Inr resp \<Rightarrow> (case transport_response net req resp of
                  None \<Rightarrow> map_option (\<lambda>(_, tr3). (Inl (TfText ''httpclient: unsupported response protocol''), tr3))
                            (go_body_close env um tr2)
                | Some nresp \<Rightarrow> Some (Inr nresp, tr2\<lparr>tp_body := Some \<lparr>tb_closed = False, tb_terminal = None\<rparr>\<rparr>)))))
      = Some (Inl fault, tr')"
    by (auto simp: transport_exchange_def bind_eq_Some_conv)
  note over = take_upload_over [OF up _ _ None]
  show ?thesis
  proof (cases upload)
    case (Inl e)
    with rest over assms(2,3) show ?thesis by auto
  next
    case (Inr body)
    with rest over assms(2,3) show ?thesis
      by (auto simp: bind_eq_Some_conv transport_error_over split: option.splits sum.splits)
  qed
qed

lemma transport_state_over:
  assumes "transport_state codec env um tr = Some (Some fault, tr')" "\<not> tp_over tr"
  shows "fault = TfClosed \<or> \<not> tp_over tr'"
proof (cases "tp_closed tr \<or> tp_made tr")
  case True
  with assms show ?thesis by (auto simp: transport_state_def split: if_splits)
next
  case False
  with assms(1) obtain r b where "(case r of Inl e \<Rightarrow> (Some (TfHttp e), tr\<lparr>gh_bridge := b\<rparr>)
      | Inr i \<Rightarrow> (None, tr\<lparr>gh_bridge := b, gh_client := i, tp_made := True, tp_over := False\<rparr>)) = (Some fault, tr')"
    unfolding transport_state_def transport_client_def by (auto simp del: sum.case)
  with assms(2) show ?thesis by (cases r) auto
qed

lemma go_round_trip_over:
  assumes "go_round_trip net codec env um ev fire (Some req) tr = Some (Inl fault, tr')"
    and "\<not> tp_over tr" "tp_over tr'" "tp_request tr' = None"
  shows "fault = TfClosed \<or> fault = TfText ''httpclient: unsupported response protocol''"
proof -
  let ?tr = "begin_round_trip (nr_body req \<noteq> None) tr"
  obtain tr5 where inner: "round_trip_inner net codec env um ev fire req ?tr = Some (Inl fault, tr5)" "tr' = close_upload tr5"
    using assms(1) by (auto simp: go_round_trip_def)
  have tr5: "tp_over tr5" "tp_request tr5 = None" and start: "\<not> tp_over ?tr"
    using assms(2-4) inner(2) by (auto simp: close_upload_def begin_round_trip_def split: if_splits)
  show ?thesis
  proof (cases "round_trip_check net req")
    case (Some e)
    with inner(1) tr5(1) start show ?thesis by (auto simp: round_trip_inner_def)
  next
    case None
    then obtain failed tr1 where state: "transport_state codec env um ?tr = Some (failed, tr1)"
      using inner(1) by (auto simp: round_trip_inner_def bind_eq_Some_conv)
    show ?thesis
    proof (cases failed)
      case (Some e)
      with None state inner(1) tr5(1) transport_state_over [of codec env um ?tr e tr1] start show ?thesis
        by (auto simp: round_trip_inner_def)
    next
      case live: None
      with None state inner(1) obtain tr4 r tr6 where
        "transport_exchange net codec env um ev fire req (the (nr_url req)) tr4 = Some (r, tr6)"
        "(case r of Inl e \<Rightarrow> map_option (Pair (Inl e)) (transport_finish env um tr6)
            | Inr nresp \<Rightarrow> Some (Inr nresp, tr6)) = Some (Inl fault, tr5)"
        by (auto simp: round_trip_inner_def bind_eq_Some_conv)
      then have "transport_exchange net codec env um ev fire req (the (nr_url req)) tr4 = Some (Inl fault, tr6)"
        "transport_finish env um tr6 = Some tr5"
        by (auto split: sum.splits)
      with transport_exchange_over [OF this(1)] transport_finish_over [OF this(2)] tr5 show ?thesis by simp
    qed
  qed
qed

lemma transport_read_over:
  assumes "transport_body_read env um ev fire n tr = Some ((d, Some fault), tr')"
    and "tp_body tr = Some \<lparr>tb_closed = False, tb_terminal = None\<rparr>" "tp_over tr'" "tp_request tr' = None"
  shows "fault = TfClosed \<or> fault = body_closed \<and> (\<exists>tb. tp_body tr' = Some tb \<and> tb_closed tb)"
proof -
  obtain e tr1 tr2 where r: "go_body_read env um ev fire n tr = Some ((d, Some e), tr1)" "ev 2 tr1 = Some tr2"
    "let tb2 = the (tp_body tr2);
         fault' = (if tb_closed tb2 then Some body_closed else transport_error tr2 (Some (TfHttp e)))
     in map_option (Pair (d, fault')) (transport_finish env um (tr2\<lparr>tp_body := Some (tb2\<lparr>tb_terminal := fault'\<rparr>)\<rparr>))
        = Some ((d, Some fault), tr')"
    using assms(1,2) by (auto simp: transport_body_read_def bind_eq_Some_conv Let_def split: option.splits)
  let ?tb = "the (tp_body tr2)"
  obtain f where f: "f = (if tb_closed ?tb then Some body_closed else transport_error tr2 (Some (TfHttp e)))" by simp
  from r(3) f have fin: "f = Some fault" "transport_finish env um (tr2\<lparr>tp_body := Some (?tb\<lparr>tb_terminal := f\<rparr>)\<rparr>) = Some tr'"
    by (auto simp: Let_def)
  show ?thesis
  proof (cases "tb_closed ?tb")
    case True
    with f fin transport_finish_body [OF fin(2)] show ?thesis by simp
  next
    case False
    from transport_finish_over [OF fin(2)] assms(3,4) have "tp_over tr2" "tp_request tr2 = None" by simp_all
    with False f fin(1) show ?thesis by (simp add: transport_error_over)
  qed
qed

subsection \<open>Properties of the transport\<close>

text \<open>
  C6. A request from \<open>net/http\<close> to the wire and back. On an open transport, with the codecs agreeing
  on the two messages and nothing cancelled, a valid request whose body is complete and as long as
  announced is sent as one request of the client: the same method, the URL without its user and
  fragment, the headers of \<open>transport_headers\<close>, the whole body. \<open>RoundTrip\<close> returns the
  \<open>http.Response\<close> of the answer and has closed the request's body once; and reads of the response's
  body with nonempty buffers give the answer's bytes in order and completely, then one error for
  ever, \<open>io.EOF\<close> or the stream's own.
\<close>

theorem go_round_trip_exchange:
  assumes "transport_ready env client tr"
    and "round_trip_check net req = None" "nr_url req = Some u" "upload_complete (nr_body req)"
    and "length_mismatch req (length (case upload_bytes (nr_body req) of None \<Rightarrow> [] | Some bs \<Rightarrow> bs)) = None"
    and "sent = transport_request codec net req u (upload_bytes (nr_body req))"
    and "request_read_back codec (en_http env) sent metadata json"
    and "base64_agrees codec (sdk_codec (en_http env))"
    and "go_prepared (en_http env) client json sent = Inr p"
    and "send_prepared (en_http env) None p (hw_net (br_http (gh_bridge tr))) = (Completed (Inr resp), n)"
    and "response_read_back codec (en_http env) resp data"
    and "length metadata \<le> isize_max" "length (go_body_bytes sent) \<le> isize_max" "length data \<le> isize_max"
    and "transport_response net req (go_expected codec resp) = Some nresp"
    and "0 \<notin> set ns"
  shows "\<exists>tr1 rs tr2. go_round_trip net codec env um quiet None (Some req) tr = Some (Inr nresp, tr1) \<and>
           tp_uploads tr1 = (if nr_body req = None then 0 else 1) \<and>
           transport_reads env um ns tr1 = Some (map lift_read rs, tr2) \<and>
           go_reads_deliver ns (stream_bytes (rs_items resp))
             (go_final env um (tr\<lparr>gh_ctx := LiveCtx\<rparr>) (rs_items resp)) rs"
proof -
  obtain tr4 where tr4: "uploaded (nr_body req \<noteq> None) tr4" "go_ready env client tr4" "gh_client tr4 = gh_client tr"
    "gh_bridge tr4 = gh_bridge tr" and
    trip: "\<And>tr5. go_do codec env um quiet None sent tr4 = Some (Inr (go_expected codec resp), tr5) \<Longrightarrow>
       go_round_trip net codec env um quiet None (Some req) tr
         = Some (Inr nresp, close_upload (tr5\<lparr>tp_body := Some \<lparr>tb_closed = False, tb_terminal = None\<rparr>\<rparr>))"
    unfolding assms(6) by (rule round_trip_quiet [OF assms(1-5)]) (use assms(15) in blast)
  obtain tr5 r where tr5: "go_do codec env um quiet None sent tr4 = Some (Inr (go_expected codec resp), tr5)"
    "streaming env r (rs_items resp) [] tr5" "gh_ctx tr5 = gh_ctx tr4" "gh_client tr5 = gh_client tr4"
    using go_exchange_runs [OF tr4(2) assms(7-9) _ assms(11-14), unfolded tr4(4), OF assms(10), of um] by blast
  have kept5: "uploaded (nr_body req \<noteq> None) tr5"
    by (rule go_do_stable [OF tr5(1) uploaded_stable tr4(1)]) simp
  obtain tr1 where tr1: "tr1 = close_upload (tr5\<lparr>tp_body := Some \<lparr>tb_closed = False, tb_terminal = None\<rparr>\<rparr>)" by simp
  have f1: "at_rest tr1" "tp_uploads tr1 = (if nr_body req = None then 0 else 1)"
    "tp_body tr1 = Some \<lparr>tb_closed = False, tb_terminal = None\<rparr>" "gh_ctx tr1 = LiveCtx" "gh_client tr1 = gh_client tr"
    using kept5 tr5(4) tr4(3) unfolding tr1 by (auto simp: uploaded_def at_rest_def close_upload_def)
  have "gh_bridge tr1 = gh_bridge tr5" "gh_body tr1 = gh_body tr5"
    unfolding tr1 by (simp_all add: close_upload_def)
  with tr5(2) have s: "streaming env r (rs_items resp) [] tr1" by (simp add: streaming_def calm_def)
  then obtain i where i: "calm tr1" "gh_body tr1 = Some (fresh_body i)" by (auto simp: streaming_def)
  have env: "serialises env" using tr4(2) by (auto simp: go_ready_def Let_def split: prod.splits)
  from go_reads_stream [OF s env assms(16), of um] obtain rs g' where rs: "go_reads env um ns tr1 = Some (rs, g')"
    "go_reads_deliver ns (stream_bytes (rs_items resp)) (go_final env um tr1 (rs_items resp)) rs" by auto
  have "go_final env um tr1 (rs_items resp) = go_final env um (tr\<lparr>gh_ctx := LiveCtx\<rparr>) (rs_items resp)"
    using f1(4,5) by (intro go_final_cong) simp_all
  moreover obtain tr2 where "transport_reads env um ns tr1 = Some (map lift_read rs, tr2)"
    using transport_reads_eq [OF rs(1) i(1) env f1(1) i(2) f1(3) assms(16)] by blast
  ultimately show ?thesis using trip [OF tr5(1)] rs(2) f1(2) unfolding tr1 by auto
qed

text \<open>A transport over the sample bridge, and a request with a body in two pieces.\<close>

definition ascii_tables :: go_unicode where
  "ascii_tables =
     \<lparr>un_fold = (\<lambda>r. if 65 \<le> r \<and> r \<le> 90 then r + 32 else r), un_lower = (\<lambda>r. if 65 \<le> r \<and> r \<le> 90 then r + 32 else r)\<rparr>"

definition sample_net :: go_net where
  "sample_net = \<lparr>nt_unicode = ascii_tables, nt_url_text = gu_path, nt_status_text = (\<lambda>n. ''OK'')\<rparr>"

definition sample_upload_sdk :: "(nat \<times> response list) http_sdk" where
  "sample_upload_sdk = sample_go_sdk\<lparr>de_request := (\<lambda>data. Inr (sample_meta\<lparr>rm_has_body := True\<rparr>))\<rparr>"

definition sample_upload_env :: "(token_list, u16, u16 message list, nat, nat \<times> response list, nat) bridge_env" where
  "sample_upload_env = sample_env\<lparr>en_http := sample_upload_sdk\<rparr>"

definition sample_upload :: net_request where
  "sample_upload =
     \<lparr>nr_method = '''',
      nr_url = Some \<lparr>gu_scheme = ''http'', gu_user = Some ''me'', gu_host = ''h'', gu_path = ''a'',
                     gu_fragment = ''x'', gu_raw_fragment = ''''\<rparr>,
      nr_host = '''', nr_headers = [(''accept'', [ascii ''x'']), (''HOST'', [ascii ''y''])],
      nr_body = Some \<lparr>up_reads = [[7], [8, 9]], up_end = None, up_closed = Some ''closed''\<rparr>,
      nr_content_length = 3, nr_transfer_encoding = [], nr_trailer = [], nr_request_uri = '''', nr_close = False\<rparr>"

definition sample_transport :: "(token_list, u16, u16 message list, nat, nat \<times> response list, nat) go_transport" where
  "sample_transport =
     \<lparr>gh_bridge = gh_bridge sample_go, gh_client = 1, gh_ctx = NilCtx, gh_hook = None, gh_body = None,
      tp_made = True, tp_closed = False, tp_timeout = 5, tp_over = False, tp_request = None, tp_channel = OpenChannel,
      tp_cause = TfClosed, tp_linked = False, tp_deadline = False, tp_watched = False, tp_finished = False,
      tp_upload = False, tp_upload_done = False, tp_uploads = 0, tp_body = None\<rparr>"

definition sample_sent :: "unit go_request" where
  "sample_sent = sample_go_request\<lparr>gr_body := Some [7, 8, 9]\<rparr>"

definition sample_nresp :: net_response where
  "sample_nresp =
     \<lparr>np_status = ''200 OK'', np_code = 200, np_proto = ''HTTP/1.1'', np_major = 1, np_minor = 1, np_headers = [],
      np_content_length = -1, np_transfer_encoding = [], np_close = True\<rparr>"

lemma sample_upload_serialises: "serialises sample_upload_env"
  by (simp add: serialises_def sample_upload_env_def sample_env_def)

lemma sample_transport_calm: "calm sample_transport"
  using sample_go_calm by (simp add: calm_def sample_transport_def)

lemma sample_transport_ready: "transport_ready sample_upload_env sample_client sample_transport"
proof -
  have "go_ready sample_upload_env sample_client sample_go"
    using sample_go_ready sample_upload_serialises
    by (simp add: go_ready_def Let_def sample_upload_env_def sample_go_env_def)
  from go_ready_cong [OF this, of "sample_transport\<lparr>gh_ctx := LiveCtx\<rparr>"] show ?thesis
    by (simp add: transport_ready_def sample_transport_def sample_go_def)
qed

lemma sample_upload_checked: "round_trip_check sample_net sample_upload = None"
  by code_simp

lemma sample_upload_sent:
  "sample_sent = transport_request sample_go_codec sample_net sample_upload (the (nr_url sample_upload))
     (upload_bytes (nr_body sample_upload))"
  by code_simp

lemma sample_upload_back: "request_read_back sample_go_codec sample_upload_sdk sample_sent [1] None"
  by code_simp

lemma sample_upload_prepared:
  "go_prepared sample_upload_sdk sample_client None sample_sent =
     Inr (projr (go_prepared sample_upload_sdk sample_client None sample_sent))"
  by code_simp

lemma sample_upload_sends:
  "send_prepared sample_upload_sdk None (projr (go_prepared sample_upload_sdk sample_client None sample_sent))
     (0, [sample_stream]) = (Completed (Inr sample_stream), (1, []))"
  by code_simp

lemma sample_upload_response:
  "response_read_back sample_go_codec sample_upload_sdk sample_stream (ascii ''http://a/'')"
  by code_simp

lemma sample_nresp_eq:
  "transport_response sample_net sample_upload (go_expected sample_go_codec sample_stream) = Some sample_nresp"
  by code_simp

theorem go_round_trip_exchange_witness:
  "\<exists>tr1 rs tr2. go_round_trip sample_net sample_go_codec sample_upload_env sample_unmarshal quiet None
       (Some sample_upload) sample_transport = Some (Inr sample_nresp, tr1) \<and> tp_uploads tr1 = 1 \<and>
     transport_reads sample_upload_env sample_unmarshal [1, 9, 9, 9] tr1 = Some (map lift_read rs, tr2) \<and>
     go_reads_deliver [1, 9, 9, 9] [1, 2, 3]
       (go_final sample_upload_env sample_unmarshal (sample_transport\<lparr>gh_ctx := LiveCtx\<rparr>) (rs_items sample_stream)) rs"
proof -
  have env: "en_http sample_upload_env = sample_upload_sdk"
    "hw_net (br_http (gh_bridge sample_transport)) = (0, [sample_stream])"
    "stream_bytes (rs_items sample_stream) = [1, 2, 3]" "sdk_codec sample_upload_sdk = sdk_codec sample_go_sdk"
    by (simp_all add: sample_upload_env_def sample_transport_def sample_go_def sample_stream_def sample_upload_sdk_def)
  have small: "length [1 :: u8] \<le> isize_max" "length (go_body_bytes sample_sent) \<le> isize_max"
    "length (ascii ''http://a/'') \<le> isize_max"
    by (simp_all add: go_body_bytes_def sample_sent_def isize_max_def)
  have up: "nr_url sample_upload = Some (the (nr_url sample_upload))" "upload_complete (nr_body sample_upload)"
    "length_mismatch sample_upload
      (length (case upload_bytes (nr_body sample_upload) of None \<Rightarrow> [] | Some bs \<Rightarrow> bs)) = None"
    by (simp_all add: sample_upload_def upload_complete_def upload_bytes_def length_mismatch_def)
  have one: "nr_body sample_upload \<noteq> None" by (simp add: sample_upload_def)
  from go_round_trip_exchange [OF sample_transport_ready sample_upload_checked up sample_upload_sent,
      unfolded env(1,2,4), OF sample_upload_back sample_base64 sample_upload_prepared sample_upload_sends
      sample_upload_response small sample_nresp_eq, of "[1, 9, 9, 9]" sample_unmarshal]
  show ?thesis using one unfolding env(3) by simp
qed

text \<open>
  C15. Whatever other goroutines do meanwhile (the request's context or its \<open>Cancel\<close> channel, the
  timeout, \<open>Transport.Close\<close>) and however the calls below it fail, \<open>RoundTrip\<close> returns, closes the
  request's body exactly once on every path, and leaks nothing: on an error no request handle is
  registered that was not before, and no hook on a context, timer or watch of the upload is left; on
  success the one new handle is that of the response's body.
\<close>

theorem go_round_trip_releases:
  assumes "calm tr" "serialises env"
  shows "\<exists>r tr'. go_round_trip net codec env um (\<lambda>k. transport_events env um (events k)) fire (Some req) tr
        = Some (r, tr') \<and> calm tr' \<and> tp_uploads tr' = (if nr_body req = None then 0 else 1) \<and>
     (case r of
        Inl fault \<Rightarrow> open_handles tr' \<subseteq> open_handles tr \<and> gh_hook tr' = None \<and> \<not> tp_watched tr' \<and>
                     \<not> tp_linked tr' \<and> \<not> tp_deadline tr'
      | Inr nresp \<Rightarrow> tp_body tr' = Some \<lparr>tb_closed = False, tb_terminal = None\<rparr> \<and>
          (\<exists>i. gh_body tr' = Some (fresh_body i) \<and> open_handles tr' \<subseteq> insert i (open_handles tr)))"
  by (rule transport.round_trip_runs [OF assms])

theorem go_round_trip_releases_witness:
  "\<exists>r tr'. go_round_trip sample_net sample_go_codec sample_upload_env sample_unmarshal
       (\<lambda>k. transport_events sample_upload_env sample_unmarshal (if k = 6 then [TeDeadline, TeClose] else [])) None
       (Some sample_upload) sample_transport = Some (r, tr') \<and> tp_uploads tr' = 1"
proof -
  have "nr_body sample_upload \<noteq> None" by (simp add: sample_upload_def)
  with go_round_trip_releases [OF sample_transport_calm sample_upload_serialises, of sample_net sample_go_codec
      sample_unmarshal "\<lambda>k. if k = 6 then [TeDeadline, TeClose] else []" None sample_upload]
  show ?thesis by auto
qed

text \<open>
  C17. A failed \<open>Read\<close> of a transport's body is final. Under any interference a \<open>Read\<close> returns, with
  at most as many bytes as the buffer has; once it has returned an error (\<open>io.EOF\<close> included) the
  request is released, the operation's context is over with its timer stopped and its hook on the
  transport removed, and every later \<open>Read\<close> returns that error again, or \<open>ErrBodyClosed\<close> once
  somebody closes the body, without touching anything.
\<close>

theorem transport_read_final:
  assumes "calm tr" "serialises env" "open_body i tr" "n \<noteq> 0"
  shows "\<exists>d e tr'. transport_body_read env um (\<lambda>k. transport_events env um (events k)) fire n tr = Some ((d, e), tr') \<and>
     length d \<le> n \<and>
     (\<forall>f rest tr''. e = Some f \<and> transport_events env um rest tr' = Some tr'' \<longrightarrow>
        d = [] \<and> i \<notin> open_handles tr'' \<and> gh_hook tr'' = None \<and> done_ctx tr'' \<and>
        (\<exists>tb. tp_body tr'' = Some tb \<and>
           transport_body_read env um ev' fire' m tr''
             = Some (([], Some (if tb_closed tb then body_closed else f)), tr'')))"
proof -
  obtain d e tr' tb' where r:
    "transport_body_read env um (\<lambda>k. transport_events env um (events k)) fire n tr = Some ((d, e), tr')"
    "calm tr'" "length d \<le> n" "tp_body tr' = Some tb'"
    "case e of None \<Rightarrow> tb_terminal tb' = None
      | Some f \<Rightarrow> d = [] \<and> tb_terminal tb' = Some f \<and> i \<notin> open_handles tr' \<and> gh_hook tr' = None \<and> done_ctx tr'"
    using transport.transport_read_runs [OF assms, where fire = fire] by blast
  have "d = [] \<and> i \<notin> open_handles tr'' \<and> gh_hook tr'' = None \<and> done_ctx tr'' \<and>
        (\<exists>tb. tp_body tr'' = Some tb \<and>
           transport_body_read env um ev' fire' m tr''
             = Some (([], Some (if tb_closed tb then body_closed else f)), tr''))"
    if "e = Some f" "transport_events env um rest tr' = Some tr''" for f rest tr''
  proof -
    have le: "go_le tr' tr''" using transport_events_kept [OF r(2) assms(2), of um rest] that(2) by auto
    note s = transport_events_shell [OF that(2)]
    obtain tb where "tp_body tr'' = Some tb" "tb_terminal tb = tb_terminal tb'"
      using shell_leD(14) [OF s] r(4) by (auto simp: tbody_le_def elim: option.rel_cases)
    with le r(5) that(1) shell_le_done [OF s] show ?thesis
      by (auto simp: go_le_def transport_body_read_def)
  qed
  with r(1,3) show ?thesis by blast
qed

definition sample_reading_transport ::
  "(token_list, u16, u16 message list, nat, nat \<times> response list, nat) go_transport" where
  "sample_reading_transport =
     sample_transport\<lparr>gh_body := Some (fresh_body 2), gh_ctx := LiveCtx, tp_body := Some \<lparr>tb_closed = False, tb_terminal = None\<rparr>\<rparr>"

theorem transport_read_final_witness:
  "\<exists>d e tr'. transport_body_read sample_upload_env sample_unmarshal
       (\<lambda>k. transport_events sample_upload_env sample_unmarshal [TeClose, TeLifetime]) None 5 sample_reading_transport
     = Some ((d, e), tr') \<and> length d \<le> 5"
proof -
  have "calm sample_reading_transport" "open_body 2 sample_reading_transport" "(5 :: nat) \<noteq> 0"
    using sample_transport_calm
    by (simp_all add: calm_def sample_reading_transport_def open_body_def sample_transport_def)
  from transport_read_final [OF this(1) sample_upload_serialises this(2,3), of sample_unmarshal
      "\<lambda>k. [TeClose, TeLifetime]" None quiet None 1]
  show ?thesis by blast
qed

text \<open>
  C18. \<open>Transport.Close\<close> is permanent and idempotent, on any transport, used or not. It returns, and
  whatever happens later: closing again returns nil and changes nothing, and every valid
  \<open>RoundTrip\<close> returns \<open>ErrTransportClosed\<close> without a call of the bridge.
\<close>

theorem transport_close_final:
  assumes "calm tr" "serialises env"
  shows "\<exists>e tr'. transport_close env um tr = Some (e, tr') \<and>
     (\<forall>rest tr''. transport_events env um rest tr' = Some tr'' \<longrightarrow>
        transport_close env um tr'' = Some (None, tr'') \<and>
        (round_trip_check net req = None \<longrightarrow>
           (\<exists>tr3. go_round_trip net codec env um ev fire (Some req) tr'' = Some (Inl TfClosed, tr3) \<and>
                  gh_bridge tr3 = gh_bridge tr'')))"
proof -
  obtain e tr' where c: "transport_close env um tr = Some (e, tr')"
    using transport_close_runs [OF assms] by blast
  have "transport_close env um tr'' = Some (None, tr'') \<and>
        (round_trip_check net req = None \<longrightarrow>
           (\<exists>tr3. go_round_trip net codec env um ev fire (Some req) tr'' = Some (Inl TfClosed, tr3) \<and>
                  gh_bridge tr3 = gh_bridge tr''))"
    if "transport_events env um rest tr' = Some tr''" for rest tr''
  proof -
    have "tp_closed tr''"
      using shell_leD(9) [OF transport_events_shell [OF that]] transport_close_closes [OF c] by simp
    moreover have "tp_closed (begin_round_trip some tr'') = tp_closed tr''"
      "gh_bridge (close_upload (begin_round_trip some tr'')) = gh_bridge tr''" for some
      by (simp_all add: begin_round_trip_def close_upload_def)
    ultimately show ?thesis
      by (simp add: transport_close_def go_round_trip_def round_trip_inner_def transport_state_def)
  qed
  with c show ?thesis by blast
qed

text \<open>On a transport that has not made its client yet.\<close>

theorem transport_close_final_witness:
  "\<exists>e tr' tr3. transport_close sample_upload_env sample_unmarshal (sample_transport\<lparr>tp_made := False\<rparr>) = Some (e, tr') \<and>
     transport_close sample_upload_env sample_unmarshal tr' = Some (None, tr') \<and>
     go_round_trip sample_net sample_go_codec sample_upload_env sample_unmarshal quiet None (Some sample_upload) tr'
       = Some (Inl TfClosed, tr3)"
proof -
  let ?tr = "sample_transport\<lparr>tp_made := False\<rparr>"
  have "calm ?tr" using sample_transport_calm by (simp add: calm_def)
  from transport_close_final [OF this sample_upload_serialises, of sample_unmarshal
      sample_net sample_upload sample_go_codec quiet None]
  obtain e tr' where close: "transport_close sample_upload_env sample_unmarshal ?tr = Some (e, tr')"
    and later: "\<And>rest tr''. transport_events sample_upload_env sample_unmarshal rest tr' = Some tr'' \<Longrightarrow>
        transport_close sample_upload_env sample_unmarshal tr'' = Some (None, tr'') \<and>
        (round_trip_check sample_net sample_upload = None \<longrightarrow>
           (\<exists>tr3. go_round_trip sample_net sample_go_codec sample_upload_env sample_unmarshal quiet None
                     (Some sample_upload) tr'' = Some (Inl TfClosed, tr3)))"
    by blast
  from later [of "[]" tr'] sample_upload_checked close show ?thesis by simp
qed

text \<open>
  C19. What \<open>Transport.Close\<close> interrupts says so. If the transport is closed at any point during a
  \<open>RoundTrip\<close> that fails, or a \<open>Read\<close> of its body that does, and the request's own context has not
  ended, the error is \<open>ErrTransportClosed\<close>, whatever the calls below reported; but for an answer in a
  protocol that \<open>net/http\<close> cannot carry, and for a body somebody has closed as well.
\<close>

theorem transport_close_interrupts:
  assumes "tp_over tr'" "tp_request tr' = None"
  shows "(go_round_trip net codec env um (\<lambda>k. transport_events env um (events k)) fire (Some req) tr
            = Some (Inl fault, tr') \<and> \<not> tp_over tr \<longrightarrow>
          fault \<in> {TfClosed, TfText ''httpclient: unsupported response protocol''}) \<and>
         (transport_body_read env um (\<lambda>k. transport_events env um (events k)) fire n tr = Some ((d, Some fault), tr') \<and>
          tp_body tr = Some \<lparr>tb_closed = False, tb_terminal = None\<rparr> \<longrightarrow>
          fault = TfClosed \<or> fault = body_closed \<and> (\<exists>tb. tp_body tr' = Some tb \<and> tb_closed tb))"
  using go_round_trip_over [of net codec env um _ fire req tr fault tr'] transport_read_over [of env um _ fire n tr d fault tr']
    assms by blast

text \<open>The transport is closed when the call has looked at it and not yet made its context.\<close>

lemma sample_interrupted:
  "\<exists>fault tr'. go_round_trip sample_net sample_go_codec sample_upload_env sample_unmarshal
       (\<lambda>k. transport_events sample_upload_env sample_unmarshal (if k = 3 then [TeClose] else [])) None
       (Some sample_upload) sample_transport = Some (Inl fault, tr') \<and> tp_over tr' \<and> tp_request tr' = None"
proof -
  let ?env = sample_upload_env and ?um = sample_unmarshal
  let ?tr = "begin_round_trip True sample_transport"
  have calm: "calm ?tr" using sample_transport_calm by (simp add: calm_def begin_round_trip_def)
  have fresh: "tp_made ?tr" "\<not> tp_closed ?tr" "tp_request ?tr = None" "tp_channel ?tr \<noteq> ClosedChannel"
    by (simp_all add: begin_round_trip_def sample_transport_def)
  obtain e tr2 where close: "transport_close ?env ?um ?tr = Some (e, tr2)" "go_le ?tr tr2"
    using transport_close_runs [OF calm sample_upload_serialises] by blast
  have "go_stable (\<lambda>x. tp_over x \<and> tp_request x = None \<and> tp_channel x \<noteq> ClosedChannel)" by (simp add: go_stable_def)
  from go_client_close_stable [OF _ this, of ?env ?um "?tr\<lparr>tp_closed := True, tp_over := True\<rparr>" e tr2] close(1) fresh
  have tr2: "tp_over tr2" "tp_request tr2 = None" "tp_channel tr2 \<noteq> ClosedChannel"
    by (simp_all add: transport_close_def)
  let ?tr3 = "tr2\<lparr>tp_finished := False, gh_ctx := LiveCtx, tp_deadline := 0 < tp_timeout tr2, tp_linked := True\<rparr>"
  have context3: "transport_context ?env ?um tr2 = Some ?tr3"
    using tr2(2,3) by (simp add: transport_context_def Let_def)
  have "calm ?tr3" using go_le_calm [OF close(2)] by (simp add: calm_def)
  then obtain tr5 where finish: "transport_finish ?env ?um ?tr3 = Some tr5"
    using transport_finish_runs [OF _ sample_upload_serialises] by blast
  have over: "tp_over (close_upload tr5)" "tp_request (close_upload tr5) = None"
    using transport_finish_over [OF finish] tr2 by (simp_all add: close_upload_def)
  have "transport_exchange sample_net sample_go_codec ?env ?um ev None sample_upload u ?tr3 = Some (Inl TfClosed, ?tr3)" for ev u
    using tr2(1,2) by (simp add: transport_exchange_def transport_error_over)
  moreover have "transport_event_step ?env ?um TeClose ?tr = Some tr2"
    using close(1) by (simp add: transport_event_step_def)
  moreover have "transport_state sample_go_codec ?env ?um ?tr = Some (None, ?tr)"
    using fresh by (simp add: transport_state_def)
  moreover have "nr_body sample_upload \<noteq> None" by (simp add: sample_upload_def)
  ultimately have "go_round_trip sample_net sample_go_codec ?env ?um
       (\<lambda>k. transport_events ?env ?um (if k = 3 then [TeClose] else [])) None (Some sample_upload) sample_transport
      = Some (Inl TfClosed, close_upload tr5)"
    using context3 finish sample_upload_checked
    by (simp add: go_round_trip_def round_trip_inner_def del: not_None_eq)
  with over show ?thesis by blast
qed

theorem transport_close_interrupts_witness:
  "\<exists>fault tr'. go_round_trip sample_net sample_go_codec sample_upload_env sample_unmarshal
       (\<lambda>k. transport_events sample_upload_env sample_unmarshal (if k = 3 then [TeClose] else [])) None
       (Some sample_upload) sample_transport = Some (Inl fault, tr') \<and>
     fault \<in> {TfClosed, TfText ''httpclient: unsupported response protocol''}"
proof -
  obtain fault tr' where run: "go_round_trip sample_net sample_go_codec sample_upload_env sample_unmarshal
       (\<lambda>k. transport_events sample_upload_env sample_unmarshal (if k = 3 then [TeClose] else [])) None
       (Some sample_upload) sample_transport = Some (Inl fault, tr')" "tp_over tr'" "tp_request tr' = None"
    using sample_interrupted by blast
  have "\<not> tp_over sample_transport" by (simp add: sample_transport_def)
  with run(1) transport_close_interrupts [OF run(2,3), of sample_net sample_go_codec sample_upload_env sample_unmarshal
      "\<lambda>k. if k = 3 then [TeClose] else []" None sample_upload sample_transport fault]
  show ?thesis by blast
qed

end
