(* ===== verification/Unit_Tests.thy ===== *)
theory Unit_Tests
  imports Bridge_Abi "HOL-Library.Sublist"
begin

text \<open>
  The unit tests of the Rust crate (the \<open>tests\<close> modules of \<open>lib.rs\<close>, \<open>runtime.rs\<close>, \<open>http_client.rs\<close>
  and \<open>websocket_client.rs\<close>), as Boolean functions over the model: what a test asserts of the code is
  asserted of the definitions that stand for it. A panic or a failed assertion is \<open>False\<close>. Where a
  test goes through a crate (serde, libc), the crate is an argument. Left out is
  \<open>dns_classification_does_not_depend_on_resolver_wording\<close>, which runs reqwest with a resolver of its
  own. They are regression checks of the definitions; what the code does in general is in the theories
  of its parts.
\<close>

subsection \<open>lib.rs\<close>

text \<open>The three errors of the first test; \<open>d1\<close> and \<open>d2\<close> are the texts rustls gives its own.\<close>

definition test_tls_peer_alerts :: "string \<Rightarrow> string \<Rightarrow> bool" where
  "test_tls_peer_alerts d1 d2 \<longleftrightarrow>
     has_handshake_failure_source (StdError d1 (RustlsError AlertReceived) None) \<and>
     \<not> has_handshake_failure_source (StdError d2 (RustlsError InvalidCertificate) None) \<and>
     \<not> has_handshake_failure_source
         (StdError ''tlsv1 alert internal error; SOCKS error: general server failure'' (IoError OtherIo) None)"

definition test_premature_eof :: bool where
  "test_premature_eof \<longleftrightarrow>
     is_unexpected_eof (StdError ''opaque read failure'' (IoError UnexpectedEof) None) \<and>
     \<not> is_unexpected_eof
         (StdError ''connection closed before message completed; end of file before message length reached''
           (IoError InvalidData) None)"

text \<open>The kind in the JSON of a result's buffer, which is freed; \<open>None\<close> is a failed assertion.
  \<open>parse\<close> reads the two strings of the JSON.\<close>

definition test_error_kind ::
  "(bytes \<Rightarrow> (string \<times> string) option) \<Rightarrow> ffi_result \<Rightarrow> rust_heap \<Rightarrow> (string \<times> rust_heap) option" where
  "test_error_kind parse res h =
     (if res_code res \<noteq> 1 then None
      else Option.bind (buffer_bytes (res_buffer res) h) (\<lambda>bs.
           Option.bind (parse bs) (\<lambda>(kind, message).
             map_option (\<lambda>h'. (kind, h')) (gocodex_buffer_free (res_buffer res) h))))"

definition test_null_inputs ::
  "('t, 'c, 'k, 'h, 'n, 'm) bridge_env \<Rightarrow> (bytes \<Rightarrow> (string \<times> string) option) \<Rightarrow>
     ('t, 'c, 'k, 'h, 'n, 'm) bridge \<Rightarrow> bool" where
  "test_null_inputs env parse b \<longleftrightarrow>
     (case abi_invoke env (HttpClientNew NullPtr 1) b of
        None \<Rightarrow> False
      | Some (res, b1) \<Rightarrow>
          (case test_error_kind parse res (br_heap b1) of
             None \<Rightarrow> False
           | Some (kind, h) \<Rightarrow>
               kind = ''invalid_input'' \<and>
               (case abi_invoke env (WsClientNew NullPtr 1) (b1\<lparr>br_heap := h\<rparr>) of
                  None \<Rightarrow> False
                | Some (res, b2) \<Rightarrow>
                    map_option fst (test_error_kind parse res (br_heap b2)) = Some ''invalid_input'')))"

definition test_panic_in_abi ::
  "(bridge_error \<Rightarrow> string + bytes) \<Rightarrow> (bytes \<Rightarrow> (string \<times> string) option) \<Rightarrow> rust_heap \<Rightarrow> bool" where
  "test_panic_in_abi to_vec parse h \<longleftrightarrow>
     (case ffi to_vec Unwound h of
        None \<Rightarrow> False
      | Some (res, h1) \<Rightarrow> map_option fst (test_error_kind parse res h1) = Some ''panic'')"

definition test_buffers :: "rust_heap \<Rightarrow> bool" where
  "test_buffers h \<longleftrightarrow>
     list_all (\<lambda>bs.
        let (buffer, h1) = buffer_new bs h
        in (if buf_len buffer = 0 then Some [] else buffer_bytes buffer h1) = Some bs \<and>
           gocodex_buffer_free buffer h1 \<noteq> None)
      [[], [0, 255, 128, 0, 1]]"

subsection \<open>runtime.rs\<close>

text \<open>The calling thread's mask before and after, and the mask under which the worker polls the task.\<close>

definition test_sigpipe_mask :: "libc_api \<Rightarrow> nat \<Rightarrow> nat \<Rightarrow> (nat \<Rightarrow> signal set) \<Rightarrow> bool" where
  "test_sigpipe_mask libc calling worker masks \<longleftrightarrow>
     (let original = (SIGPIPE \<in> masks calling)
      in case start_worker libc calling worker masks of
           None \<Rightarrow> False
         | Some masks' \<Rightarrow> SIGPIPE \<in> masks' worker \<and> (SIGPIPE \<in> masks' calling) = original)"

subsection \<open>http_client.rs\<close>

definition is_ok :: "'e + 'a \<Rightarrow> bool" where
  "is_ok r \<longleftrightarrow> \<not> isl r"

text \<open>\<open>metadata\<close> is the test's constant: a POST with a body to a local URL.\<close>

definition test_close_cancels ::
  "'n http_sdk \<Rightarrow> ('t, 'h) token_api \<Rightarrow> string + unit \<Rightarrow> bytes \<Rightarrow> runtime_cell \<Rightarrow>
     ('t, 'h, 'n) http_world \<Rightarrow> bool" where
  "test_close_cancels sdk api build metadata cell w0 \<longleftrightarrow>
     (case http_create sdk api build (ascii ''{}'') cell w0 of
        (Inr created, _, w1) \<Rightarrow>
          (let client = out_handle created
           in case http_create_request sdk api client metadata (ascii ''binary'' @ [0] @ ascii ''body'') w1 of
                (Inr first, w2) \<Rightarrow>
                  (case http_create_request sdk api client metadata [] w2 of
                     (Inr second, w3) \<Rightarrow>
                       (case http_lookup (out_handle first) w3 of
                          Inr found \<Rightarrow>
                            \<not> call_fired api found w3 \<and>
                            (let (closed, w4) = http_close api client w3
                             in is_ok closed \<and> call_fired api found w4 \<and>
                                \<not> is_ok (http_lookup (out_handle first) w4) \<and>
                                \<not> is_ok (http_lookup (out_handle second) w4) \<and>
                                hw_clients w4 client = None \<and>
                                \<not> is_ok (fst (http_create_request sdk api client metadata [] w4)) \<and>
                                (let (gone, w5) = http_close_request api (out_handle first) w4
                                 in is_ok gone \<and> is_ok (fst (http_close api client w5))))
                        | _ \<Rightarrow> False)
                   | _ \<Rightarrow> False)
              | _ \<Rightarrow> False)
      | _ \<Rightarrow> False)"

definition test_request_close ::
  "'n http_sdk \<Rightarrow> ('t, 'h) token_api \<Rightarrow> string + unit \<Rightarrow> bytes \<Rightarrow> runtime_cell \<Rightarrow>
     ('t, 'h, 'n) http_world \<Rightarrow> bool" where
  "test_request_close sdk api build metadata cell w0 \<longleftrightarrow>
     (case http_create sdk api build (ascii ''{}'') cell w0 of
        (Inr created, cell1, w1) \<Rightarrow>
          (let client = out_handle created
           in case http_create_request sdk api client metadata [] w1 of
                (Inr request, w2) \<Rightarrow>
                  (case http_lookup (out_handle request) w2 of
                     Inr found \<Rightarrow>
                       (let (early, _, w3) = http_read api build None (out_handle request) 1 cell1 w2;
                            (once, w4) = http_close_request api (out_handle request) w3;
                            (twice, w5) = http_close_request api (out_handle request) w4
                        in \<not> is_ok early \<and> is_ok once \<and> is_ok twice \<and> call_fired api found w5 \<and>
                           hw_clients w5 client \<noteq> None \<and>
                           (case http_create_request sdk api client metadata [] w5 of
                              (Inr another, w6) \<Rightarrow>
                                out_handle another \<noteq> out_handle request \<and> is_ok (fst (http_close api client w6))
                            | _ \<Rightarrow> False))
                   | _ \<Rightarrow> False)
              | _ \<Rightarrow> False)
      | _ \<Rightarrow> False)"

subsection \<open>websocket_client.rs\<close>

definition test_entity :: "headers \<Rightarrow> bytes \<Rightarrow> hs_response" where
  "test_entity hs body = \<lparr>hs_status = 429, hs_headers = hs, hs_captured = Some body\<rparr>"

definition test_handshake_bodies :: "http_api \<Rightarrow> bool" where
  "test_handshake_bodies api \<longleftrightarrow>
     (let four = [(''content-length'', ascii ''4'')]; body = [0, 255, 0x78, 0x79]
      in handshake_body api (test_entity four body) 4 = Some (body, False) \<and>
         handshake_body api (test_entity four body) 2 = Some ([0, 255], True) \<and>
         handshake_body api (test_entity four [0]) 4 = Some ([0], True) \<and>
         handshake_body api (test_entity [] [0]) 4 = Some ([0], True))"

definition chunk_cases :: "(bytes \<times> nat \<times> string \<times> bool) list" where
  "chunk_cases =
     [(ascii ''2'' @ crlf @ ascii ''ab'' @ crlf @ ascii ''2;x=y'' @ crlf @ ascii ''cd'' @ crlf @ ascii ''0'' @ crlf_crlf,
       8, ''abcd'', False),
      (ascii ''4'' @ crlf @ ascii ''abcd'' @ crlf @ ascii ''0'' @ crlf_crlf, 4, ''abcd'', False),
      (ascii ''4'' @ crlf @ ascii ''abcd'' @ crlf @ ascii ''0'' @ crlf_crlf, 2, ''ab'', True),
      (ascii ''4'' @ crlf @ ascii ''ab'', 8, ''ab'', True),
      (ascii ''4'' @ crlf @ ascii ''abcd'' @ crlf, 8, ''abcd'', True),
      (ascii ''0'' @ crlf @ ascii ''Header: value'' @ crlf_crlf, 8, '''', False),
      (ascii ''bogus'' @ crlf, 8, '''', True)]"

definition test_chunk_decoding :: "http_api \<Rightarrow> bool" where
  "test_chunk_decoding api \<longleftrightarrow>
     list_all (\<lambda>(wire, limit, expected, truncated).
        handshake_body api
          \<lparr>hs_status = 403, hs_headers = [(''transfer-encoding'', ascii ''chunked'')], hs_captured = Some wire\<rparr>
          limit = Some (ascii expected, truncated)) chunk_cases"

subsection \<open>They pass\<close>

text \<open>The http crate: \<open>get\<close> gives a name's first value, \<open>to_str\<close> visible ASCII as it is.\<close>

definition http_crate :: "http_api \<Rightarrow> bool" where
  "http_crate api \<longleftrightarrow>
     (\<forall>s. status_is_informational api s \<longleftrightarrow> 100 \<le> s \<and> s < 200) \<and> header_get api = map_of \<and>
     (\<forall>v. list_all (in_range 0x20 0x7E) v \<longrightarrow> header_to_str api v = Some v)"

lemma test_tls_peer_alerts_passes: "test_tls_peer_alerts d1 d2"
  by (simp add: test_tls_peer_alerts_def has_handshake_failure_source_def)

lemma test_premature_eof_passes: "test_premature_eof"
  by (simp add: test_premature_eof_def)

lemma test_buffers_passes: "test_buffers h"
  by (simp add: test_buffers_def buffer_new_def buffer_bytes_def gocodex_buffer_free_def)

lemma test_sigpipe_mask_passes: "posix_signals libc \<Longrightarrow> calling \<noteq> worker \<Longrightarrow> test_sigpipe_mask libc calling worker masks"
  by (simp add: test_sigpipe_mask_def start_worker_posix)

lemma parse_four: "parse_usize (ascii ''4'') = Some 4"
proof -
  have "ascii ''4'' = [0x34]" by code_simp
  then show ?thesis by (simp add: parse_usize_def usize_from_str_radix_def to_digit_def in_range_def usize_max_def)
qed

lemma test_handshake_bodies_passes:
  assumes "http_crate api"
  shows "test_handshake_bodies api"
proof -
  have "list_all (in_range 0x20 0x7E) (ascii ''4'')" by code_simp
  with assms have four: "header_str api (test_entity [(''content-length'', ascii ''4'')] b) ''content-length'' = Some (ascii ''4'')" for b
    by (simp only: header_str_def http_crate_def test_entity_def) simp
  have none: "header_str api (test_entity [] b) name = None"
    "header_str api (test_entity [(''content-length'', v)] b) ''transfer-encoding'' = None" for b name v
    using assms by (simp_all add: header_str_def http_crate_def test_entity_def)
  have plain: "handshake_body api (test_entity hs b) limit =
      (let expected = Option.bind (header_str api (test_entity hs b) ''content-length'') parse_usize;
           len = (case expected of None \<Rightarrow> length b | Some e \<Rightarrow> e);
           taken = min (min (length b) len) limit
       in Some (take taken b, expected = None \<or> taken < len))"
    if "header_str api (test_entity hs b) ''transfer-encoding'' = None" for hs b limit
    using assms that
    by (simp add: handshake_body_def is_chunked_def http_crate_def, simp add: test_entity_def)
  show ?thesis
    unfolding test_handshake_bodies_def Let_def
    by (simp add: plain none four parse_four Let_def del: list.map)
qed

lemma test_chunk_lines:
  "first_line (ascii ''2'')" "first_line (ascii ''2;x=y'')" "first_line (ascii ''4'')" "first_line (ascii ''0'')"
  "first_line (ascii ''bogus'')"
  by (simp_all only: first_line_def) code_simp+

lemma test_chunk_sizes:
  "chunk_size (ascii ''2'') = Some 2" "chunk_size (ascii ''2;x=y'') = Some 2" "chunk_size (ascii ''4'') = Some 4"
  "chunk_size (ascii ''0'') = Some 0" "chunk_size (ascii ''bogus'') = None"
proof -
  have hex: "ascii ''2'' = to_hex 2" "ascii ''4'' = to_hex 4" "ascii ''0'' = to_hex 0" by code_simp+
  show "chunk_size (ascii ''2'') = Some 2" "chunk_size (ascii ''4'') = Some 4" "chunk_size (ascii ''0'') = Some 0"
    unfolding hex by (rule chunk_size_to_hex; simp add: usize_max_def)+
  have "takeWhile (\<lambda>b. b \<noteq> 0x3B) (ascii ''2;x=y'') = to_hex 2" by code_simp
  then have "trim (takeWhile (\<lambda>b. b \<noteq> 0x3B) (ascii ''2;x=y'')) = to_hex 2" by (simp only: trim_to_hex)
  moreover have "utf8_valid (ascii ''2;x=y'')" by code_simp
  moreover have "(2 :: nat) \<le> usize_max" by (simp add: usize_max_def)
  ultimately show "chunk_size (ascii ''2;x=y'') = Some 2"
    unfolding chunk_size_iff size_line_def using digits_value_to_hex [of 2] to_hex_not_Nil [of 2] by blast
  have bogus: "ascii ''bogus'' = [0x62, 0x6F, 0x67, 0x75, 0x73]" by code_simp
  have "trim (ascii ''bogus'') = ascii ''bogus''" by code_simp
  moreover have "takeWhile (\<lambda>b. b \<noteq> 0x3B) (ascii ''bogus'') = ascii ''bogus''" by code_simp
  moreover have "to_digit 16 0x62 = Some 11" "to_digit 16 0x6F = None" by code_simp+
  then have "usize_from_str_radix 16 (ascii ''bogus'') = None"
    unfolding bogus by (simp add: usize_from_str_radix_def)
  ultimately show "chunk_size (ascii ''bogus'') = None"
    by (simp only: chunk_size_def from_utf8_def hd_split_on) simp
qed

lemma test_chunk_decoding_passes:
  assumes "http_crate api"
  shows "test_chunk_decoding api"
proof -
  have "list_all (in_range 0x20 0x7E) (ascii ''chunked'')" by code_simp
  moreover have "list_ex (\<lambda>part. eq_ignore_ascii_case (trim part) (ascii ''chunked'')) (split_on 0x2C (ascii ''chunked''))"
    by code_simp
  ultimately have body: "handshake_body api
      \<lparr>hs_status = 403, hs_headers = [(''transfer-encoding'', ascii ''chunked'')], hs_captured = Some wire\<rparr> limit
      = chunk_loop limit wire []" for wire limit
    using assms
    by (intro handshake_body_chunked) (simp_all add: has_entity_def is_chunked_def header_str_def http_crate_def del: list.map)
  have trailers: "trailers_complete crlf" "trailers_complete (ascii ''Header: value'' @ crlf_crlf)" by code_simp+
  have small: "(4 :: nat) + 2 \<le> usize_max" "(2 :: nat) + 2 \<le> usize_max" by (simp_all add: usize_max_def)
  have final: "chunk_loop limit (ascii ''0'' @ crlf_crlf) decoded = Some (decoded, False)" for limit decoded
    using chunk_loop_last [OF test_chunk_lines(4) test_chunk_sizes(4), of limit crlf decoded] trailers(1) by simp
  have two: "chunk_loop 8 (ascii ''2'' @ crlf @ ascii ''ab'' @ crlf @ w) [] = chunk_loop 8 w (ascii ''ab'')"
    "chunk_loop 8 (ascii ''2;x=y'' @ crlf @ ascii ''cd'' @ crlf @ w) (ascii ''ab'') = chunk_loop 8 w (ascii ''abcd'')" for w
    using chunk_loop_data [OF test_chunk_lines(1), of "ascii ''ab''" "[]" 8 w] test_chunk_sizes(1)
      chunk_loop_data [OF test_chunk_lines(2), of "ascii ''cd''" "ascii ''ab''" 8 w] test_chunk_sizes(2) small(2)
    by simp_all
  have four: "chunk_loop limit (ascii ''4'' @ crlf @ ascii ''abcd'' @ crlf @ w) [] = chunk_loop limit w (ascii ''abcd'')"
    if "4 \<le> limit" for limit w
    using chunk_loop_data [OF test_chunk_lines(3), of "ascii ''abcd''" "[]" limit w] test_chunk_sizes(3) small(1) that
    by simp
  have "chunk_loop 8 (ascii ''2'' @ crlf @ ascii ''ab'' @ crlf @ ascii ''2;x=y'' @ crlf @ ascii ''cd'' @ crlf @
      ascii ''0'' @ crlf_crlf) [] = Some (ascii ''abcd'', False)"
    by (simp only: two final)
  moreover have "chunk_loop 4 (ascii ''4'' @ crlf @ ascii ''abcd'' @ crlf @ ascii ''0'' @ crlf_crlf) [] =
      Some (ascii ''abcd'', False)"
    by (simp only: four [OF order_refl] final)
  moreover have "chunk_loop 2 (ascii ''4'' @ crlf @ ascii ''abcd'' @ crlf @ ascii ''0'' @ crlf_crlf) [] =
      Some (ascii ''ab'', True)"
    using chunk_loop_cut [OF test_chunk_lines(3) test_chunk_sizes(3), of "[]" 2
        "ascii ''abcd'' @ crlf @ ascii ''0'' @ crlf_crlf"] by simp
  moreover have "chunk_loop 8 (ascii ''4'' @ crlf @ ascii ''ab'') [] = Some (ascii ''ab'', True)"
    using chunk_loop_cut [OF test_chunk_lines(3) test_chunk_sizes(3), of "[]" 8 "ascii ''ab''"] by simp
  moreover have "chunk_loop 8 (ascii ''4'' @ crlf @ ascii ''abcd'' @ crlf) [] = Some (ascii ''abcd'', True)"
    using four [of 8 "[]"] chunk_loop_no_line [of "[]" 8 "ascii ''abcd''"] by simp
  moreover have "chunk_loop 8 (ascii ''0'' @ crlf @ ascii ''Header: value'' @ crlf_crlf) [] = Some ([], False)"
    using chunk_loop_last [OF test_chunk_lines(4) test_chunk_sizes(4), of 8 "ascii ''Header: value'' @ crlf_crlf" "[]"]
      trailers(2) by simp
  moreover have "chunk_loop 8 (ascii ''bogus'' @ crlf) [] = Some ([], True)"
    using chunk_loop_bad_size [of "ascii ''bogus'' @ crlf" 5 8 "[]"] test_chunk_lines(5) test_chunk_sizes(5)
    by (simp add: first_line_def)
  ultimately show ?thesis
    by (simp only: test_chunk_decoding_def chunk_cases_def body list.pred_inject prod.case list.map(1) simp_thms)
qed

text \<open>What the tests on results need of serde: the two errors are serialised and read back.\<close>

definition kinds_read_back ::
  "(bridge_error \<Rightarrow> string + bytes) \<Rightarrow> (bytes \<Rightarrow> (string \<times> string) option) \<Rightarrow> bool" where
  "kinds_read_back to_vec parse \<longleftrightarrow>
     (\<forall>e \<in> {invalid ''invalid input buffer'', bridge_panicked}.
        \<exists>bs. to_vec e = Inr bs \<and> parse bs = Some (err_kind e, err_message e))"

lemma test_error_kind_ffi:
  assumes "heap_ok h" "kinds_read_back to_vec parse" "e \<in> {invalid ''invalid input buffer'', bridge_panicked}"
  shows "\<exists>res h1 h2. ffi to_vec (Returned (Inl e)) h = Some (res, h1) \<and>
           test_error_kind parse res h1 = Some (err_kind e, h2) \<and> heap_ok h2"
proof -
  obtain bs where bs: "to_vec e = Inr bs" "parse bs = Some (err_kind e, err_message e)"
    using assms(2,3) unfolding kinds_read_back_def by blast
  obtain b h1 where new: "buffer_new bs h = (b, h1)" by (cases "buffer_new bs h")
  obtain h2 where "gocodex_buffer_free b h1 = Some h2" "heap_ok h2"
    using buffer_new_free [OF assms(1) new] by blast
  with bs new buffer_new_bytes [OF new] show ?thesis
    by (simp add: ffi_error test_error_kind_def)
qed

lemma test_panic_in_abi_passes:
  assumes "heap_ok h" "kinds_read_back to_vec parse"
  shows "test_panic_in_abi to_vec parse h"
  using test_error_kind_ffi [OF assms, of bridge_panicked]
  by (auto simp: test_panic_in_abi_def ffi_unwound bridge_panicked_def)

lemma test_null_inputs_passes:
  assumes "heap_ok (br_heap b)" "kinds_read_back (en_to_vec env) parse"
  shows "test_null_inputs env parse b"
proof -
  let ?e = "invalid ''invalid input buffer''"
  have null: "refused_input NullPtr 1" by (simp add: refused_input_def)
  have invoke: "abi_invoke env call b' =
      map_option (\<lambda>(res, h). (res, b'\<lparr>br_heap := h\<rparr>)) (ffi (en_to_vec env) (Returned (Inl ?e)) (br_heap b'))"
    if "call \<in> {HttpClientNew NullPtr 1, WsClientNew NullPtr 1}" for b' call
    using that null
    by (auto simp: abi_invoke_def exported_defs with_input_refused map_option_case split: option.split)
  have e: "?e \<in> {?e, bridge_panicked}" by simp
  from test_error_kind_ffi [OF assms e] obtain res h1 h2 where one:
    "ffi (en_to_vec env) (Returned (Inl ?e)) (br_heap b) = Some (res, h1)"
    "test_error_kind parse res h1 = Some (''invalid_input'', h2)" "heap_ok h2" by auto
  from test_error_kind_ffi [OF one(3) assms(2) e] obtain res' h3 h4 where
    "ffi (en_to_vec env) (Returned (Inl ?e)) h2 = Some (res', h3)"
    "test_error_kind parse res' h3 = Some (''invalid_input'', h4)" by auto
  with one show ?thesis by (simp add: test_null_inputs_def invoke)
qed

lemma u64_next:
  "unat a + 1 < 2 ^ 64 \<Longrightarrow> \<exists>i. u64_checked_add a 1 = Some i \<and> unat i = unat a + 1"
  by (cases "u64_checked_add a 1") (auto simp: u64_checked_add_None_iff u64_checked_add_Some_iff)

text \<open>The world after \<open>create\<close>, and after a request on its client.\<close>

lemma test_created:
  assumes "token_laws api" "tok_ok api (hw_tokens w)" "\<not> hw_poisoned w" "unat (hw_next w) + 1 < 2 ^ 64"
    and "de_config sdk (ascii ''{}'') = Inr cfg" "config_allowed sdk cfg"
    and "\<And>fac proxy. \<exists>b. make_backend sdk cfg fac proxy = Inr b" "fst (runtime build cell) = Inr ()"
  obtains i cell' w' client where
    "http_create sdk api build (ascii ''{}'') cell w = (Inr (output_handle i), cell', w')"
    "unat i = unat (hw_next w) + 1" "hw_next w' = i" "\<not> hw_poisoned w'" "hw_clients w' i = Some client"
    "tok_ok api (hw_tokens w')" "issued api (hw_tokens w') (cl_cancel client)"
    "\<not> is_cancelled api (hw_tokens w') (cl_cancel client)"
proof -
  obtain h t where new: "tok_new api (hw_tokens w) = (h, t)" by (cases "tok_new api (hw_tokens w)")
  obtain i cell' w' where c: "http_create sdk api build (ascii ''{}'') cell w = (Inr (output_handle i), cell', w')"
    using http_create_accepted [OF assms(5-7,8,3,4)] by blast
  from http_create_success [OF c new] obtain client where w': "unat i = Suc (unat (hw_next w))"
    "w' = w\<lparr>hw_tokens := t, hw_next := i, hw_clients := (hw_clients w)(i \<mapsto> client)\<rparr>" "cl_cancel client = h"
    by auto
  note law = assms(1) [unfolded token_laws_def new_law_def] assms(2) new
  have "tok_ok api t" "issued api t h" "\<not> is_cancelled api t h" using law by blast+
  with that [OF c] w' assms(3) show ?thesis by simp
qed

lemma test_requested:
  assumes "token_laws api" "tok_ok api (hw_tokens w)" "\<not> hw_poisoned w" "unat (hw_next w) + 1 < 2 ^ 64"
    and "hw_clients w i = Some client" "issued api (hw_tokens w) (cl_cancel client)"
    and "prepare_request sdk client metadata body = Inr p"
  obtains j t hc where
    "http_create_request sdk api i metadata body w = (Inr (output_handle j),
       w\<lparr>hw_store := (hw_store w)(hw_fresh w \<mapsto> \<lparr>ca_client = i, ca_cancel = hc, ca_phase = Ready p\<rparr>),
         hw_fresh := Suc (hw_fresh w), hw_tokens := t, hw_next := j, hw_calls := (hw_calls w)(j \<mapsto> hw_fresh w)\<rparr>)"
    "unat j = unat (hw_next w) + 1" "tok_ok api t"
    "is_cancelled api t hc = is_cancelled api (hw_tokens w) (cl_cancel client)" "issued api t hc"
    "descends api t (cl_cancel client) hc"
    "\<forall>x. issued api (hw_tokens w) x \<longrightarrow> issued api t x \<and> is_cancelled api t x = is_cancelled api (hw_tokens w) x"
    "\<forall>a b. descends api (hw_tokens w) a b \<longrightarrow> descends api t a b"
proof -
  obtain hc t where child: "tok_child api (cl_cancel client) (hw_tokens w) = (hc, t)"
    by (cases "tok_child api (cl_cancel client) (hw_tokens w)")
  obtain j where j: "u64_checked_add (hw_next w) 1 = Some j" "unat j = unat (hw_next w) + 1"
    using u64_next [OF assms(4)] by blast
  have create: "http_create_request sdk api i metadata body w = (Inr (output_handle j),
       w\<lparr>hw_store := (hw_store w)(hw_fresh w \<mapsto> \<lparr>ca_client = i, ca_cancel = hc, ca_phase = Ready p\<rparr>),
         hw_fresh := Suc (hw_fresh w), hw_tokens := t, hw_next := j, hw_calls := (hw_calls w)(j \<mapsto> hw_fresh w)\<rparr>)"
    using assms(3,5,7) child j(1)
    by (simp add: http_create_request_def http_find_client_def http_registry_def http_new_call_def http_add_call_def http_next_def)
  note law = assms(1) [unfolded token_laws_def child_law_def] assms(2,6) child
  have own: "descends api (hw_tokens w) (cl_cancel client) (cl_cancel client)"
    using assms(1,2,6) unfolding token_laws_def tree_law_def by blast
  have "tok_ok api t" "issued api t hc" using law by blast+
  moreover have "is_cancelled api t hc = is_cancelled api (hw_tokens w) (cl_cancel client)" using law by blast
  moreover have desc: "descends api t a b \<longleftrightarrow> descends api (hw_tokens w) a b \<or> b = hc \<and> (a = hc \<or> descends api (hw_tokens w) a (cl_cancel client))" for a b
    using law by blast
  moreover have "issued api t x \<and> is_cancelled api t x = is_cancelled api (hw_tokens w) x" if "issued api (hw_tokens w) x" for x
    using law that by blast
  ultimately show ?thesis using that [OF create j(2)] own by blast
qed

lemma token_cancelled:
  assumes "token_laws api" "tok_ok api t" "issued api t h" "descends api t h x"
  shows "is_cancelled api (tok_cancel api h t) x" "tok_ok api (tok_cancel api h t)"
    "issued api (tok_cancel api h t) y = issued api t y"
  using assms unfolding token_laws_def cancel_law_def by blast+

text \<open>What the tests need of a state and of the crates: handles left, no poisoned lock, a runtime, an
  empty configuration that is accepted, and a request that can be prepared.\<close>

definition tests_can_run ::
  "'n http_sdk \<Rightarrow> ('t, 'h) token_api \<Rightarrow> string + unit \<Rightarrow> bytes \<Rightarrow> runtime_cell \<Rightarrow> ('t, 'h, 'n) http_world \<Rightarrow> bool" where
  "tests_can_run sdk api build metadata cell w \<longleftrightarrow>
     token_laws api \<and> tok_ok api (hw_tokens w) \<and> \<not> hw_poisoned w \<and> unat (hw_next w) + 3 < 2 ^ 64 \<and>
     (\<exists>cfg. de_config sdk (ascii ''{}'') = Inr cfg \<and> config_allowed sdk cfg \<and>
        (\<forall>fac proxy. \<exists>b. make_backend sdk cfg fac proxy = Inr b)) \<and>
     fst (runtime build cell) = Inr () \<and>
     (\<forall>client body. \<exists>p. prepare_request sdk (client :: 'h http_client) metadata body = Inr p)"

lemma test_close_cancels_passes:
  assumes "tests_can_run sdk api build metadata cell w"
  shows "test_close_cancels sdk api build metadata cell w"
proof -
  have w: "token_laws api" "tok_ok api (hw_tokens w)" "\<not> hw_poisoned w" "unat (hw_next w) + 3 < 2 ^ 64"
    "fst (runtime build cell) = Inr ()"
    using assms by (simp_all add: tests_can_run_def)
  obtain cfg where cfg: "de_config sdk (ascii ''{}'') = Inr cfg" "config_allowed sdk cfg"
    "\<And>fac proxy. \<exists>b. make_backend sdk cfg fac proxy = Inr b"
    using assms unfolding tests_can_run_def by blast
  have room: "unat (hw_next w) + 1 < 2 ^ 64" using w(4) by simp
  obtain i cell1 w1 client where c: "http_create sdk api build (ascii ''{}'') cell w = (Inr (output_handle i), cell1, w1)"
    "unat i = unat (hw_next w) + 1" "hw_next w1 = i" "\<not> hw_poisoned w1" "hw_clients w1 i = Some client"
    "tok_ok api (hw_tokens w1)" "issued api (hw_tokens w1) (cl_cancel client)"
    "\<not> is_cancelled api (hw_tokens w1) (cl_cancel client)"
    by (rule test_created [OF w(1-3) room cfg w(5)])
  have prepared: "\<exists>p. prepare_request sdk client metadata body = Inr p" for body
    using assms unfolding tests_can_run_def by blast
  obtain p q where p: "prepare_request sdk client metadata (ascii ''binary'' @ [0] @ ascii ''body'') = Inr p"
    "prepare_request sdk client metadata [] = Inr q"
    using prepared by blast
  have room1: "unat (hw_next w1) + 1 < 2 ^ 64" using w(4) c(2,3) by simp
  obtain j t hc where r:
    "http_create_request sdk api i metadata (ascii ''binary'' @ [0] @ ascii ''body'') w1 = (Inr (output_handle j),
       w1\<lparr>hw_store := (hw_store w1)(hw_fresh w1 \<mapsto> \<lparr>ca_client = i, ca_cancel = hc, ca_phase = Ready p\<rparr>),
         hw_fresh := Suc (hw_fresh w1), hw_tokens := t, hw_next := j, hw_calls := (hw_calls w1)(j \<mapsto> hw_fresh w1)\<rparr>)"
    "unat j = unat (hw_next w1) + 1" "tok_ok api t"
    "is_cancelled api t hc = is_cancelled api (hw_tokens w1) (cl_cancel client)" "issued api t hc"
    "descends api t (cl_cancel client) hc"
    "\<forall>x. issued api (hw_tokens w1) x \<longrightarrow> issued api t x \<and> is_cancelled api t x = is_cancelled api (hw_tokens w1) x"
    "\<forall>a b. descends api (hw_tokens w1) a b \<longrightarrow> descends api t a b"
    by (rule test_requested [OF w(1) c(6,4) room1 c(5,7) p(1)])
  let ?w2 = "w1\<lparr>hw_store := (hw_store w1)(hw_fresh w1 \<mapsto> \<lparr>ca_client = i, ca_cancel = hc, ca_phase = Ready p\<rparr>),
         hw_fresh := Suc (hw_fresh w1), hw_tokens := t, hw_next := j, hw_calls := (hw_calls w1)(j \<mapsto> hw_fresh w1)\<rparr>"
  have w2: "tok_ok api (hw_tokens ?w2)" "\<not> hw_poisoned ?w2" "unat (hw_next ?w2) + 1 < 2 ^ 64"
    "hw_clients ?w2 i = Some client" "issued api (hw_tokens ?w2) (cl_cancel client)"
    using r(2,3) r(7) c(7) c(2-5) w(4) by simp_all
  obtain k t' hc' where s:
    "http_create_request sdk api i metadata [] ?w2 = (Inr (output_handle k),
       ?w2\<lparr>hw_store := (hw_store ?w2)(hw_fresh ?w2 \<mapsto> \<lparr>ca_client = i, ca_cancel = hc', ca_phase = Ready q\<rparr>),
         hw_fresh := Suc (hw_fresh ?w2), hw_tokens := t', hw_next := k, hw_calls := (hw_calls ?w2)(k \<mapsto> hw_fresh ?w2)\<rparr>)"
    "unat k = unat (hw_next ?w2) + 1" "tok_ok api t'"
    "\<forall>x. issued api (hw_tokens ?w2) x \<longrightarrow> issued api t' x \<and> is_cancelled api t' x = is_cancelled api (hw_tokens ?w2) x"
    "\<forall>a b. descends api (hw_tokens ?w2) a b \<longrightarrow> descends api t' a b"
    by (rule test_requested [OF w(1) w2 p(2)])
  have kj: "k \<noteq> j" using s(2) by auto
  have before: "\<not> is_cancelled api t' hc" using s(4) r(4,5) c(8) by simp
  have "issued api t' (cl_cancel client)" using s(4) r(7) c(7) by simp
  moreover have "descends api t' (cl_cancel client) hc" using s(5) r(6) by simp
  ultimately have fired: "is_cancelled api (tok_cancel api (cl_cancel client) t') hc"
    by (rule token_cancelled(1) [OF w(1) s(3)])
  show ?thesis
    using c(1,4,5) r(1) s(1) before kj fired
    by (simp add: test_close_cancels_def http_lookup_def http_registry_def call_fired_def http_close_def http_unregister_def
        http_cancel_def http_create_request_def http_find_client_def http_close_request_def http_remove_call_def is_ok_def
        Let_def)
qed

lemma test_request_close_passes:
  assumes "tests_can_run sdk api build metadata cell w"
  shows "test_request_close sdk api build metadata cell w"
proof -
  have w: "token_laws api" "tok_ok api (hw_tokens w)" "\<not> hw_poisoned w" "unat (hw_next w) + 3 < 2 ^ 64"
    "fst (runtime build cell) = Inr ()"
    using assms by (simp_all add: tests_can_run_def)
  obtain cfg where cfg: "de_config sdk (ascii ''{}'') = Inr cfg" "config_allowed sdk cfg"
    "\<And>fac proxy. \<exists>b. make_backend sdk cfg fac proxy = Inr b"
    using assms unfolding tests_can_run_def by blast
  have room: "unat (hw_next w) + 1 < 2 ^ 64" using w(4) by simp
  obtain i cell1 w1 client where c: "http_create sdk api build (ascii ''{}'') cell w = (Inr (output_handle i), cell1, w1)"
    "unat i = unat (hw_next w) + 1" "hw_next w1 = i" "\<not> hw_poisoned w1" "hw_clients w1 i = Some client"
    "tok_ok api (hw_tokens w1)" "issued api (hw_tokens w1) (cl_cancel client)"
    "\<not> is_cancelled api (hw_tokens w1) (cl_cancel client)"
    by (rule test_created [OF w(1-3) room cfg w(5)])
  obtain q where q: "prepare_request sdk client metadata [] = Inr q"
    using assms unfolding tests_can_run_def by blast
  have room1: "unat (hw_next w1) + 1 < 2 ^ 64" using w(4) c(2,3) by simp
  obtain j t hc where r: "http_create_request sdk api i metadata [] w1 = (Inr (output_handle j),
       w1\<lparr>hw_store := (hw_store w1)(hw_fresh w1 \<mapsto> \<lparr>ca_client = i, ca_cancel = hc, ca_phase = Ready q\<rparr>),
         hw_fresh := Suc (hw_fresh w1), hw_tokens := t, hw_next := j, hw_calls := (hw_calls w1)(j \<mapsto> hw_fresh w1)\<rparr>)"
    "unat j = unat (hw_next w1) + 1" "tok_ok api t"
    "is_cancelled api t hc = is_cancelled api (hw_tokens w1) (cl_cancel client)" "issued api t hc"
    "descends api t (cl_cancel client) hc"
    "\<forall>x. issued api (hw_tokens w1) x \<longrightarrow> issued api t x \<and> is_cancelled api t x = is_cancelled api (hw_tokens w1) x"
    "\<forall>a b. descends api (hw_tokens w1) a b \<longrightarrow> descends api t a b"
    by (rule test_requested [OF w(1) c(6,4) room1 c(5,7) q])
  let ?w2 = "w1\<lparr>hw_store := (hw_store w1)(hw_fresh w1 \<mapsto> \<lparr>ca_client = i, ca_cancel = hc, ca_phase = Ready q\<rparr>),
         hw_fresh := Suc (hw_fresh w1), hw_tokens := t, hw_next := j, hw_calls := (hw_calls w1)(j \<mapsto> hw_fresh w1)\<rparr>"
  have early: "\<exists>e cell2. http_read api build None j 1 cell1 ?w2 = (Inl e, cell2, ?w2)"
    using c(4)
    by (auto simp: http_read_def http_lookup_def http_registry_def http_read_on_def run_def select_cancelled_def
        http_read_task_def split: prod.splits sum.splits)
  obtain e cell2 where early: "http_read api build None j 1 cell1 ?w2 = (Inl e, cell2, ?w2)"
    using early by blast
  have own: "descends api t hc hc"
    using w(1) r(3,5) unfolding token_laws_def tree_law_def by blast
  let ?t = "tok_cancel api hc t"
  note cancelled = token_cancelled [OF w(1) r(3,5) own]
  let ?w3 = "?w2\<lparr>hw_calls := (hw_calls w1)(j := None), hw_tokens := ?t\<rparr>"
  have once: "http_close_request api j ?w2 = (Inr (output_handle 0), ?w3)"
    using c(4) by (simp add: http_close_request_def http_registry_def http_remove_call_def http_cancel_def)
  have twice: "http_close_request api j ?w3 = (Inr (output_handle 0), ?w3)"
    using c(4) by (simp add: http_close_request_def http_registry_def http_remove_call_def)
  have w3: "tok_ok api (hw_tokens ?w3)" "\<not> hw_poisoned ?w3" "unat (hw_next ?w3) + 1 < 2 ^ 64"
    "hw_clients ?w3 i = Some client" "issued api (hw_tokens ?w3) (cl_cancel client)"
    using cancelled(2,3) r(2) r(7) c(2-5,7) w(4) by simp_all
  obtain k t' hc' where s: "http_create_request sdk api i metadata [] ?w3 = (Inr (output_handle k),
       ?w3\<lparr>hw_store := (hw_store ?w3)(hw_fresh ?w3 \<mapsto> \<lparr>ca_client = i, ca_cancel = hc', ca_phase = Ready q\<rparr>),
         hw_fresh := Suc (hw_fresh ?w3), hw_tokens := t', hw_next := k, hw_calls := (hw_calls ?w3)(k \<mapsto> hw_fresh ?w3)\<rparr>)"
    "unat k = unat (hw_next ?w3) + 1"
    by (rule test_requested [OF w(1) w3 q])
  have kj: "k \<noteq> j" using s(2) by auto
  show ?thesis
    using c(1,4,5) r(1) early once twice s(1) kj cancelled(1)
    by (simp add: test_request_close_def http_lookup_def http_registry_def call_fired_def http_close_def
        http_unregister_def is_ok_def Let_def)
qed

end
