(* ===== verification/Spec2Isabelle.thy ===== *)
theory Spec2Isabelle
  imports Bridge_Errors Bridge_Ffi Bridge_Runtime Ws_Handshake Http_Redirect Http_System
    Ws_Outcomes Ws_Writers Ws_System Bridge_Abi Build_Script Abi_Answers Go_Http Go_Websocket Go_Round_Trip
    Unit_Tests
begin

text \<open>
  gocodex gives Go programs the HTTP and WebSocket clients of the Codex SDK, a Rust library, through
  a C interface. This library models the Rust crate (\<open>rust/src/lib.rs\<close>, \<open>runtime.rs\<close>,
  \<open>http_client.rs\<close>, \<open>websocket_client.rs\<close>) with its tests and its build script (\<open>build.rs\<close>), and the
  Go packages over it (\<open>internal/bridge\<close>, \<open>httpclient/client.go\<close> and \<open>transport.go\<close>,
  \<open>websocket/client.go\<close>).

  \<^bold>\<open>The program.\<close> Go holds integer handles. Every exported function of \<open>lib.rs\<close> borrows its input
  buffers, runs a function of one of the two client modules and returns an \<open>FfiResult\<close> with a handle, a
  code and a buffer Go frees. Each module keeps a registry under a mutex: one counter of handles,
  clients, and the clients' children (HTTP calls, WebSocket connections), with a cancellation token
  per client and a child token per child. Network work runs as tasks of one shared Tokio runtime,
  each a \<open>select!\<close> between its cancellation and its body. The Go packages encode options and
  requests as JSON, make one exported call per operation, copy and free the result, and close the
  handle when the caller's context ends. \<open>httpclient.Transport\<close> puts \<open>net/http\<close>'s \<open>RoundTripper\<close> on
  top of the HTTP client.

  \<^bold>\<open>The theories.\<close>

  \<^item> \<open>Bridge_Prelude\<close>, \<open>Rust_Std\<close>: bytes, fixed-width numbers, results and the rules for them; the
    functions of the standard library the code uses (UTF-8 checks, splitting, trimming, parsing of
    numbers, network byte order).
  \<^item> \<open>Bridge_Errors\<close>: \<open>BridgeError\<close>, error values as chains of sources, and how HTTP failures are
    classified (\<open>lib.rs\<close> 26--184), against the chain read as a list.
  \<^item> \<open>Bridge_Ffi\<close>: buffers on a heap that knows what is allocated, \<open>Output\<close>, \<open>ffi\<close>, \<open>input\<close>, and
    \<open>takeResult\<close> of \<open>internal/bridge/bridge.go\<close> as the consumer.
  \<^item> \<open>Bridge_Runtime\<close>: \<open>runtime.rs\<close>, and the \<open>select!\<close> of the tasks.
  \<^item> \<open>Cancel_Tokens\<close>: the interface of \<open>CancellationToken\<close> with its laws, and an implementation.
  \<^item> \<open>Handle_Registry\<close>: the ownership contract of a registry as an abstract machine with one critical
    section per step, its invariants, and the locale \<open>owning_registry\<close> that carries them to an
    implementation.
  \<^item> \<open>Http_Types\<close>, \<open>Http_Redirect\<close>, \<open>Http_Client\<close>, \<open>Http_System\<close>: \<open>http_client.rs\<close>. Types, proxies and
    headers; the redirect loop \<open>send_fixed\<close>, against chains of single redirects; configuration, requests, \<open>send\<close> and \<open>read\<close>; the
    registry with threads interleaved between its critical sections, which interprets
    \<open>owning_registry\<close>.
  \<^item> \<open>Ws_Handshake\<close>: \<open>handshake_body\<close>, against an inductive grammar of chunked entities.
  \<^item> \<open>Ws_Client\<close>, \<open>Ws_Messages\<close>, \<open>Ws_Outcomes\<close>, \<open>Ws_Writers\<close>, \<open>Ws_System\<close>: \<open>websocket_client.rs\<close>. The
    functions; fragments against a receiver of RFC 6455 and what \<open>write\<close> accepts; sequences of
    reads, what a close does, and the outcomes of \<open>connect\<close>; the locks of concurrent writers as a
    step relation, with the queue of Tokio's \<open>RwLock\<close>, which keeps control messages from being
    overtaken; the registry, which interprets \<open>owning_registry\<close> too.
  \<^item> \<open>Bridge_Abi\<close>: the exported functions over both registries, the runtime and the heap.
  \<^item> \<open>Abi_Answers\<close>: the types of the answers: which values and which kinds of error each exported
    function can give.
  \<^item> \<open>Go_Bridge\<close>: \<open>internal/bridge\<close>: the Go functions around the exported ones, \<open>bridge.Error\<close>, and
    what the two Go packages share.
  \<^item> \<open>Go_Http\<close>, \<open>Go_Websocket\<close>: \<open>httpclient/client.go\<close> and \<open>websocket/client.go\<close> over those calls:
    an exchange and a session from the Go caller to the wire and back, and what no interference of
    other goroutines can break. The locale \<open>goroutines\<close> is the contract of that interference.
  \<^item> \<open>Go_Text\<close>, \<open>Go_Transport\<close>, \<open>Go_Round_Trip\<close>: \<open>httpclient/transport.go\<close>. Go's functions on strings
    and headers; the transport, its contexts, \<open>RoundTrip\<close>, the response body and \<open>Close\<close>; an exchange
    from \<open>net/http\<close> to the wire and back, what a failed one releases, and what a failed read and a
    \<open>Close\<close> settle for good, under the contract \<open>transport_goroutines\<close>, which extends \<open>goroutines\<close>.
  \<^item> \<open>Build_Script\<close>: \<open>build.rs\<close> on files by path.
  \<^item> \<open>Unit_Tests\<close>: tests of the crate as Boolean functions over the model, as regression checks.

  \<^bold>\<open>State and effects.\<close> A registry's process state is a record (\<open>http_world\<close>, \<open>ws_world\<close>): the maps of
    the \<open>Registry\<close> struct, a store of the shared objects behind the handles (an \<open>Arc\<close> lives on in
    calls in flight after its handle is gone), the state of the tokens, and the network. Functions
    take it and return it updated; errors are the left side of a sum; a task that is dropped, panics
    or finishes is a value. A task runs in one step from its first poll to its end, or to the await
    at which the call is cancelled: the argument \<open>fire\<close> counts those awaits. Interleaving is between
    critical sections (\<open>http_step\<close>, \<open>ws_step\<close>), including between the lookup of a client, the
    construction of its child and its registration, and between removing a handle and cancelling;
    the functions called by Go are proved to be runs of these systems. Frames of concurrent writers
    interleave in \<open>wire_step\<close>, between every two acquisitions of a lock. A Go object is a record over
    the whole bridge (\<open>go_http\<close>, \<open>go_ws\<close>; \<open>go_transport\<close> extends \<open>go_http\<close>): one client, one context, one
    request or connection; what other goroutines do is a function \<open>ev\<close> on the state, or a list of
    events (\<open>go_events\<close>, \<open>ws_events\<close>, \<open>transport_events\<close>), at each point where an operation holds no
    lock. \<open>None\<close> is an aborted process or a call that never returns.

  \<^bold>\<open>Parameters.\<close> The crates (reqwest, the Codex SDK in its submodule, url, http, serde, base64,
    Tungstenite, Tokio's tokens) are arguments: records of functions (\<open>http_sdk\<close>, \<open>ws_sdk\<close>,
    \<open>token_api\<close>, \<open>redirect_api\<close>, \<open>header_codec\<close>). Where a property needs their documented
    behaviour, it is a named hypothesis (\<open>token_laws\<close>, \<open>redirect_laws\<close>,
    \<open>sink_accepts\<close>, the JSON codecs in \<open>outcome_fits\<close>), and a concrete instance of every parameter
    shows that it can hold. On the Go side, \<open>encoding/json\<close>, \<open>encoding/base64\<close> and \<open>net/textproto\<close> are
    the records \<open>go_codec\<close> and \<open>go_ws_codec\<close>, and \<open>URL.String\<close>, \<open>http.StatusText\<close> and Unicode's case
    tables the record \<open>go_net\<close>; the end-to-end properties suppose that one side reads what the other
    wrote (\<open>request_read_back\<close>, \<open>response_read_back\<close>, \<open>dial_read_back\<close>, \<open>handshake_read\<close>,
    \<open>base64_agrees\<close>).

  \<^bold>\<open>Loops.\<close> \<open>handshake_body\<close>'s loop, the redirect loop, the reads and the error scans are total
    functions: they shorten their input, or count up to the redirect limit. The fragment loop of
    \<open>write\<close> would not end on a frame size of 0, so it is a partial function, and is proved to
    return for the sizes \<open>create\<close> lets through, in every history of the registry.

  \<^bold>\<open>Not modelled.\<close> Tokio's scheduler, and tasks of one call interleaved with those of another inside
    the HTTP phase lock or the WebSocket reader lock (the locks exclude it); the SDK's own
    protocol, TLS and proxy logic; the size limit of the http crate's \<open>HeaderMap\<close>, beyond which
    \<open>append\<close> panics; destructors and connection pools; the one test that runs reqwest itself; the directives \<open>build.rs\<close>
    prints. Of the Go packages: several requests or connections at once on one client, the cleanup
    of a transport by the garbage collector (\<open>runtime.AddCleanup\<close>), methods on a nil \<open>*Transport\<close>,
    and other goroutines between the steps of one \<open>Close\<close>. The prebuilt libraries, the scripts, the
    examples and the Go tests carry no logic of the program.
\<close>

end
